(* ===== verification/Prelude.thy ===== *)
theory Prelude
  imports Main "HOL-Library.Word" "HOL-Library.List_Lexorder" "HOL-Library.Char_ord"
    "HOL-Library.Multiset" "HOL-Library.Product_Lexorder"
begin

text \<open>
  The vocabulary the components share: the machine types of the Rust sources, strings and
  byte vectors, the fixed-width integer encodings (to_be_bytes, to_le_bytes), checked and
  saturating arithmetic on u64, the key/value tables that stand for redb tables and
  HashMaps, and the interface of such a table as the locale kv_table with what its clients
  rely on. The third-party crates the sources call (sha2, ripemd, hex, secp256k1,
  serde_json) are the fields of the record libs; every definition that calls one takes the
  record as its first argument.
\<close>

unbundle bit_operations_syntax

section \<open>Types\<close>

type_synonym byte = "8 word"
type_synonym bytes = "byte list"
type_synonym u8 = "8 word"
type_synonym u32 = "32 word"
type_synonym u64 = "64 word"
type_synonym i64 = int

text \<open>Collections of facts: the laws of tables, of byte encodings, and of word arithmetic.\<close>

named_theorems table_simps
named_theorems codec_simps
named_theorems u64_simps

section \<open>Strings and bytes\<close>

text \<open>
  A Rust String is a sequence of UTF-8 bytes; it is modelled by a char list, a char being
  one byte, so that length counts bytes as String::len does.
\<close>

definition as_bytes :: "string \<Rightarrow> bytes" where
  "as_bytes s = map of_char s"

lemma of_char_byte_inj: "(of_char c :: byte) = of_char d \<Longrightarrow> c = d"
proof -
  assume eq: "(of_char c :: byte) = of_char d"
  have unat_of_char: "unat (of_char x :: byte) = of_char x" for x :: char
  proof -
    have "unat (of_nat (of_char x) :: byte) = of_char x"
      by (rule of_nat_inverse [OF refl]) (use nat_of_char_less_256 [of x] in simp)
    then show ?thesis by (simp add: of_nat_of_char)
  qed
  from eq have "(of_char c :: nat) = of_char d"
    by (metis unat_of_char)
  then show "c = d" by simp
qed

lemma inj_of_char_byte: "inj (of_char :: char \<Rightarrow> byte)"
  by (rule injI) (rule of_char_byte_inj)

lemma as_bytes_inj [simp]: "as_bytes s = as_bytes t \<longleftrightarrow> s = t"
  using inj_of_char_byte by (simp add: as_bytes_def inj_map_eq_map)

lemma length_as_bytes [simp]: "length (as_bytes s) = length s"
  by (simp add: as_bytes_def)

lemma as_bytes_append [simp]: "as_bytes (s @ t) = as_bytes s @ as_bytes t"
  by (simp add: as_bytes_def)

section \<open>Fixed-width integer encodings\<close>

text \<open>be_bytes w n is the big-endian encoding of n on w bytes (n modulo 256 to the w).\<close>

fun be_bytes :: "nat \<Rightarrow> nat \<Rightarrow> bytes" where
  "be_bytes 0 n = []"
| "be_bytes (Suc w) n = be_bytes w (n div 256) @ [word_of_nat n]"

definition le_bytes :: "nat \<Rightarrow> nat \<Rightarrow> bytes" where
  "le_bytes w n = rev (be_bytes w n)"

definition from_be :: "bytes \<Rightarrow> nat" where
  "from_be bs = foldl (\<lambda>a b. a * 256 + unat b) 0 bs"

definition from_le :: "bytes \<Rightarrow> nat" where
  "from_le bs = from_be (rev bs)"

lemma length_be_bytes [simp]: "length (be_bytes w n) = w"
  by (induction w arbitrary: n) auto

lemma length_le_bytes [simp]: "length (le_bytes w n) = w"
  by (simp add: le_bytes_def)

lemma from_be_be_bytes [codec_simps]: "from_be (be_bytes w n) = n mod 256 ^ w"
proof (induction w arbitrary: n)
  case 0
  then show ?case by (simp add: from_be_def)
next
  case (Suc w)
  have "from_be (be_bytes (Suc w) n) = from_be (be_bytes w (n div 256)) * 256 + n mod 256"
    by (simp add: from_be_def unat_of_nat)
  also have "\<dots> = (n div 256 mod 256 ^ w) * 256 + n mod 256"
    by (simp add: Suc.IH)
  also have "\<dots> = n mod (256 * 256 ^ w)"
    by (simp add: mod_mult2_eq)
  finally show ?case by simp
qed

lemma from_le_le_bytes [codec_simps]: "from_le (le_bytes w n) = n mod 256 ^ w"
  by (simp add: from_le_def le_bytes_def from_be_be_bytes)

lemma be_bytes_inj:
  "be_bytes w m = be_bytes w n \<Longrightarrow> m < 256 ^ w \<Longrightarrow> n < 256 ^ w \<Longrightarrow> m = n"
  by (metis from_be_be_bytes mod_less)

definition u64_be :: "u64 \<Rightarrow> bytes" where
  "u64_be x = be_bytes 8 (unat x)"

definition u64_le :: "u64 \<Rightarrow> bytes" where
  "u64_le x = le_bytes 8 (unat x)"

definition u32_le :: "u32 \<Rightarrow> bytes" where
  "u32_le x = le_bytes 4 (unat x)"

text \<open>The idiom (s.len() as u32).to_be_bytes(): the length modulo 2 to the 32.\<close>

definition len_u32_be :: "'a list \<Rightarrow> bytes" where
  "len_u32_be s = be_bytes 4 (length s)"

lemma length_u64_be [simp]: "length (u64_be x) = 8"
  by (simp add: u64_be_def)

lemma length_u64_le [simp]: "length (u64_le x) = 8"
  by (simp add: u64_le_def)

lemma length_u32_le [simp]: "length (u32_le x) = 4"
  by (simp add: u32_le_def)

lemma length_len_u32_be [simp]: "length (len_u32_be s) = 4"
  by (simp add: len_u32_be_def)

lemma unat_u64_bound: "unat (x :: u64) < 256 ^ 8"
  using unsigned_less [of x, where ?'a = nat] by simp

lemma unat_u32_bound: "unat (x :: u32) < 256 ^ 4"
  using unsigned_less [of x, where ?'a = nat] by simp

lemma u64_be_inj [simp]: "u64_be x = u64_be y \<longleftrightarrow> x = y"
  using be_bytes_inj [of 8 "unat x" "unat y"] unat_u64_bound [of x] unat_u64_bound [of y]
  by (auto simp: u64_be_def word_unat_eq_iff)

lemma len_u32_be_inj:
  "len_u32_be s = len_u32_be t \<Longrightarrow> length s < 2 ^ 32 \<Longrightarrow> length t < 2 ^ 32 \<Longrightarrow> length s = length t"
  using be_bytes_inj [of 4 "length s" "length t"] by (simp add: len_u32_be_def)

section \<open>u64 arithmetic\<close>

text \<open>
  Plain + and * on u64 wrap (the release profile the Dockerfiles build); checked_mul,
  saturating_sub and saturating_add are the methods of the standard library.
\<close>

definition checked_mul_u64 :: "u64 \<Rightarrow> u64 \<Rightarrow> u64 option" where
  "checked_mul_u64 a b = (if unat a * unat b < 2 ^ 64 then Some (a * b) else None)"

definition saturating_sub_u64 :: "u64 \<Rightarrow> u64 \<Rightarrow> u64" where
  "saturating_sub_u64 a b = (if b \<le> a then a - b else 0)"

definition saturating_add_u64 :: "u64 \<Rightarrow> u64 \<Rightarrow> u64" where
  "saturating_add_u64 a b = (if unat a + unat b < 2 ^ 64 then a + b else - 1)"

lemma checked_mul_u64_Some [u64_simps]:
  "checked_mul_u64 a b = Some c \<Longrightarrow> unat c = unat a * unat b"
  by (auto simp: checked_mul_u64_def unat_word_ariths split: if_splits)

lemma unat_saturating_sub [u64_simps]: "unat (saturating_sub_u64 a b) = unat a - unat b"
  by (auto simp: saturating_sub_u64_def unat_sub word_le_nat_alt)

lemma unat_saturating_add: "unat (saturating_add_u64 a b) = min (unat a + unat b) (2 ^ 64 - 1)"
  by (auto simp: saturating_add_u64_def unat_word_ariths unsigned_minus_1_eq_mask mask_eq_exp_minus_1)

lemma unat_add_u64 [u64_simps]: "unat a + unat b < 2 ^ 64 \<Longrightarrow> unat (a + b :: u64) = unat a + unat b"
  by (simp add: unat_word_ariths)

lemma unat_sum_list_u64:
  "sum_list (map (\<lambda>x. unat (f x)) xs) < 2 ^ 64 \<Longrightarrow>
     unat (sum_list (map f xs) :: u64) = sum_list (map (\<lambda>x. unat (f x)) xs)"
proof (induction xs)
  case (Cons x xs)
  then have "unat (sum_list (map f xs)) = sum_list (map (\<lambda>x. unat (f x)) xs)" by simp
  then show ?case using Cons.prems by (simp add: unat_add_u64)
qed simp

section \<open>Third-party libraries\<close>

text \<open>
  The crates the sources call, as a record of functions. schnorr_verify stands for the
  whole BIP-340 check of secp256k1 after the three from_slice parsers; ecdsa_verify for
  verify_ecdsa. Parsers return whether the bytes parse. JSON values are the crate's
  Value type; a number keeps the crate's three representations, a float by its bits.
\<close>

datatype json_number = PosInt u64 | NegInt i64 | Float u64

datatype json =
    JNull
  | JBool bool
  | JNumber json_number
  | JString string
  | JArray "json list"
  | JObject "(string \<times> json) list"

record libs =
  sha256 :: "bytes \<Rightarrow> bytes"
  ripemd160 :: "bytes \<Rightarrow> bytes"
  hex_encode :: "bytes \<Rightarrow> string"
  hex_decode :: "string \<Rightarrow> bytes option"
  xonly_parse :: "bytes \<Rightarrow> bool"
  schnorr_sig_parse :: "bytes \<Rightarrow> bool"
  schnorr_verify :: "bytes \<Rightarrow> bytes \<Rightarrow> bytes \<Rightarrow> bool"
  pubkey_parse :: "bytes \<Rightarrow> bool"
  ecdsa_sig_parse :: "bytes \<Rightarrow> bool"
  ecdsa_verify :: "bytes \<Rightarrow> bytes \<Rightarrow> bytes \<Rightarrow> bool"
  json_to_vec :: "json \<Rightarrow> bytes"
  json_from_slice :: "bytes \<Rightarrow> json option"

text \<open>Documented behaviour of the crates that theorems name as hypotheses.\<close>

definition sha256_len :: "libs \<Rightarrow> bool" where
  "sha256_len L \<longleftrightarrow> (\<forall>x. length (sha256 L x) = 32)"

definition hex_roundtrip :: "libs \<Rightarrow> bool" where
  "hex_roundtrip L \<longleftrightarrow> (\<forall>b. hex_decode L (hex_encode L b) = Some b)"

text \<open>BIP-340 signatures are 64 bytes: Signature::from_slice rejects any other length.\<close>

definition schnorr_sig_len :: "libs \<Rightarrow> bool" where
  "schnorr_sig_len L \<longleftrightarrow> (\<forall>s. schnorr_sig_parse L s \<longrightarrow> length s = 64)"

text \<open>Two different members of S with the same digest.\<close>

definition hash_collision :: "libs \<Rightarrow> bytes set \<Rightarrow> bool" where
  "hash_collision L S \<longleftrightarrow> (\<exists>a\<in>S. \<exists>b\<in>S. a \<noteq> b \<and> sha256 L a = sha256 L b)"

subsection \<open>A concrete instance\<close>

text \<open>
  demo_libs shows that the hypotheses can hold together: lower-case hex as the crate defines
  it, a truncating hash, and a signature that is the message followed by the key.
\<close>

definition hex_digit :: "nat \<Rightarrow> char" where
  "hex_digit n = ''0123456789abcdef'' ! n"

definition hex_value :: "char \<Rightarrow> nat option" where
  "hex_value c =
     (let n = of_char c :: nat in
      if 48 \<le> n \<and> n \<le> 57 then Some (n - 48)
      else if 97 \<le> n \<and> n \<le> 102 then Some (n - 87)
      else if 65 \<le> n \<and> n \<le> 70 then Some (n - 55) else None)"

fun demo_hex_encode :: "bytes \<Rightarrow> string" where
  "demo_hex_encode [] = []"
| "demo_hex_encode (b # bs) = hex_digit (unat b div 16) # hex_digit (unat b mod 16) # demo_hex_encode bs"

fun demo_hex_decode :: "string \<Rightarrow> bytes option" where
  "demo_hex_decode [] = Some []"
| "demo_hex_decode [c] = None"
| "demo_hex_decode (c # d # s) =
     (case (hex_value c, hex_value d, demo_hex_decode s) of
        (Some h, Some l, Some bs) \<Rightarrow> Some (word_of_nat (16 * h + l) # bs)
      | _ \<Rightarrow> None)"

lemma hex_value_digit: "n < 16 \<Longrightarrow> hex_value (hex_digit n) = Some n"
proof -
  have "\<forall>n \<in> set [0..<16]. hex_value (hex_digit n) = Some n" by code_simp
  then show "n < 16 \<Longrightarrow> hex_value (hex_digit n) = Some n" by simp
qed

lemma demo_hex_roundtrip: "demo_hex_decode (demo_hex_encode b) = Some b"
proof (induction b)
  case (Cons x b)
  have "unat x < 256" using unsigned_less [of x, where ?'a = nat] by simp
  then have "unat x div 16 < 16" by simp
  moreover have "unat x mod 16 < 16" by simp
  moreover have "16 * (unat x div 16) + unat x mod 16 = unat x" by simp
  ultimately show ?case using Cons by (simp add: hex_value_digit)
qed simp

definition demo_libs :: libs where
  "demo_libs = \<lparr>sha256 = (\<lambda>x. take 32 (x @ replicate 32 0)), ripemd160 = (\<lambda>x. take 20 x),
     hex_encode = demo_hex_encode, hex_decode = demo_hex_decode,
     xonly_parse = (\<lambda>b. length b = 32), schnorr_sig_parse = (\<lambda>b. length b = 64),
     schnorr_verify = (\<lambda>s m p. take 32 s = m \<and> drop 32 s = p), pubkey_parse = (\<lambda>b. length b = 33),
     ecdsa_sig_parse = (\<lambda>b. True), ecdsa_verify = (\<lambda>s m p. s = m),
     json_to_vec = (\<lambda>j. []), json_from_slice = (\<lambda>b. None)\<rparr>"

lemma demo_libs_ok [simp]:
  "sha256_len demo_libs" "hex_roundtrip demo_libs" "schnorr_sig_len demo_libs"
  by (auto simp: sha256_len_def hex_roundtrip_def schnorr_sig_len_def demo_libs_def demo_hex_roundtrip min_def)

subsection \<open>Decimal numerals\<close>

text \<open>The Display format of an unsigned integer, and the zero-padded format of width w.\<close>

fun dec :: "nat \<Rightarrow> string" where
  "dec n = (if n < 10 then [hex_digit n] else dec (n div 10) @ [hex_digit (n mod 10)])"

declare dec.simps [simp del]

definition dec_int :: "i64 \<Rightarrow> string" where
  "dec_int i = (if i < 0 then CHR ''-'' # dec (nat (- i)) else dec (nat i))"

definition dec_padded :: "nat \<Rightarrow> nat \<Rightarrow> string" where
  "dec_padded w n = replicate (w - length (dec n)) (CHR ''0'') @ dec n"

definition undec :: "string \<Rightarrow> nat" where
  "undec s = foldl (\<lambda>a c. a * 10 + the (hex_value c)) 0 s"

lemma undec_snoc: "undec (s @ [c]) = undec s * 10 + the (hex_value c)"
  by (simp add: undec_def)

lemma undec_dec: "undec (dec n) = n"
proof (induction n rule: dec.induct)
  case (1 n)
  show ?case
  proof (cases "n < 10")
    case True
    then show ?thesis by (subst dec.simps) (simp add: undec_def hex_value_digit)
  next
    case False
    have "n mod 10 < 16" by simp
    then have "undec (dec n) = undec (dec (n div 10)) * 10 + n mod 10"
      using False by (subst dec.simps) (simp add: undec_snoc hex_value_digit)
    then show ?thesis using 1 False by simp
  qed
qed

lemma dec_inj [simp]: "dec m = dec n \<longleftrightarrow> m = n"
  by (metis undec_dec)

lemma undec_zeros: "undec (replicate k (CHR ''0'') @ s) = undec s"
proof -
  have "the (hex_value (CHR ''0'')) = 0" by code_simp
  then have "foldl (\<lambda>a c. a * 10 + the (hex_value c)) 0 (replicate k (CHR ''0'')) = 0"
    by (induction k) auto
  then show ?thesis by (simp add: undec_def)
qed

lemma dec_padded_inj: "dec_padded w m = dec_padded w n \<Longrightarrow> m = n"
  by (metis dec_padded_def undec_zeros undec_dec)

lemma length_dec_le: "n < 10 ^ k \<Longrightarrow> 0 < k \<Longrightarrow> length (dec n) \<le> k"
proof (induction n arbitrary: k rule: dec.induct)
  case (1 n)
  show ?case
  proof (cases "n < 10")
    case True
    then show ?thesis using 1 by (subst dec.simps) simp
  next
    case False
    then obtain k' where k: "k = Suc k'" "0 < k'"
      using "1.prems" by (cases k; cases "k - 1") auto
    then have "n div 10 < 10 ^ k'" using "1.prems" by (simp add: div_less_iff_less_mult mult.commute)
    then have "length (dec (n div 10)) \<le> k'" using "1.IH" [OF False] k by blast
    then show ?thesis using False k by (subst dec.simps) simp
  qed
qed

lemma length_dec_padded_u64: "length (dec_padded 20 (unat (h :: u64))) = 20"
proof -
  have "unat h < 10 ^ 20" using unat_u64_bound [of h] by simp
  then have "length (dec (unat h)) \<le> 20" by (rule length_dec_le) simp
  then show ?thesis by (simp add: dec_padded_def)
qed

lemma digit_not_colon: "n < 10 \<Longrightarrow> hex_digit n \<noteq> CHR '':''"
proof -
  have "\<forall>n \<in> set [0..<10]. hex_digit n \<noteq> CHR '':''" by code_simp
  then show "n < 10 \<Longrightarrow> hex_digit n \<noteq> CHR '':''" by simp
qed

lemma dec_no_colon: "CHR '':'' \<notin> set (dec n)"
proof (induction n rule: dec.induct)
  case (1 n)
  then show ?case
    using digit_not_colon [of n] digit_not_colon [of "n mod 10"] by (subst dec.simps) auto
qed

text \<open>txid:vout strings determine both parts: the number has no colon.\<close>

definition outpoint :: "string \<Rightarrow> nat \<Rightarrow> string" where
  "outpoint txid vout = txid @ '':'' @ dec vout"

lemma outpoint_inj [simp]: "outpoint t v = outpoint t' v' \<longleftrightarrow> t = t' \<and> v = v'"
proof
  assume eq: "outpoint t v = outpoint t' v'"
  have "takeWhile (\<lambda>c. c \<noteq> CHR '':'') (rev (outpoint s n)) = rev (dec n)"
    "dropWhile (\<lambda>c. c \<noteq> CHR '':'') (rev (outpoint s n)) = CHR '':'' # rev s" for s n
  proof -
    have all: "\<And>c. c \<in> set (rev (dec n)) \<Longrightarrow> c \<noteq> CHR '':''" using dec_no_colon [of n] by auto
    show "takeWhile (\<lambda>c. c \<noteq> CHR '':'') (rev (outpoint s n)) = rev (dec n)"
      using takeWhile_append2 [of "rev (dec n)" "\<lambda>c. c \<noteq> CHR '':''", OF all] by (simp add: outpoint_def)
    show "dropWhile (\<lambda>c. c \<noteq> CHR '':'') (rev (outpoint s n)) = CHR '':'' # rev s"
      using dropWhile_append2 [of "rev (dec n)" "\<lambda>c. c \<noteq> CHR '':''", OF all] by (simp add: outpoint_def)
  qed
  then have "rev (dec v) = rev (dec v')" "CHR '':'' # rev t = CHR '':'' # rev t'"
    using eq by metis+
  then show "t = t' \<and> v = v'" by simp
qed simp

definition starts_with :: "string \<Rightarrow> string \<Rightarrow> bool" where
  "starts_with p s \<longleftrightarrow> take (length p) s = p"

text \<open>str::strip_prefix.\<close>

definition strip_prefix :: "string \<Rightarrow> string \<Rightarrow> string option" where
  "strip_prefix p s = (if starts_with p s then Some (drop (length p) s) else None)"

lemma strip_prefix_append [simp]: "strip_prefix p (p @ s) = Some s"
  by (simp add: strip_prefix_def starts_with_def)

section \<open>Tables\<close>

text \<open>
  A redb table, a BTreeMap or a HashMap: the association list of its entries in key order.
  redb and BTreeMap iterate in that order; where the code iterates a HashMap the order is
  not specified, and the theorems about such code do not depend on it.
\<close>

type_synonym ('k, 'v) table = "('k \<times> 'v) list"

definition tbl_get :: "('k, 'v) table \<Rightarrow> 'k \<Rightarrow> 'v option" where
  "tbl_get t k = map_of t k"

fun tbl_insert :: "'k::linorder \<Rightarrow> 'v \<Rightarrow> ('k, 'v) table \<Rightarrow> ('k, 'v) table" where
  "tbl_insert k v [] = [(k, v)]"
| "tbl_insert k v ((k', v') # t) =
     (if k = k' then (k, v) # t
      else if k < k' then (k, v) # (k', v') # t
      else (k', v') # tbl_insert k v t)"

definition tbl_remove :: "'k \<Rightarrow> ('k, 'v) table \<Rightarrow> ('k, 'v) table" where
  "tbl_remove k t = filter (\<lambda>(k', _). k' \<noteq> k) t"

definition tbl_ok :: "('k::linorder, 'v) table \<Rightarrow> bool" where
  "tbl_ok t \<longleftrightarrow> sorted (map fst t) \<and> distinct (map fst t)"

lemma tbl_get_insert [table_simps, simp]:
  "tbl_get (tbl_insert k v t) k' = (if k' = k then Some v else tbl_get t k')"
  by (induction k v t rule: tbl_insert.induct) (auto simp: tbl_get_def)

lemma tbl_get_remove [table_simps, simp]:
  "tbl_get (tbl_remove k t) k' = (if k' = k then None else tbl_get t k')"
  by (induction t) (auto simp: tbl_get_def tbl_remove_def)

lemma tbl_get_Nil [table_simps, simp]: "tbl_get [] k = None"
  by (simp add: tbl_get_def)

lemma fst_set_tbl_insert: "fst ` set (tbl_insert k v t) = insert k (fst ` set t)"
  by (induction k v t rule: tbl_insert.induct) auto

lemma tbl_ok_insert [intro]: "tbl_ok t \<Longrightarrow> tbl_ok (tbl_insert k v t)"
proof (induction k v t rule: tbl_insert.induct)
  case (1 k v)
  then show ?case by (simp add: tbl_ok_def)
next
  case (2 k v k' v' t)
  then have ok: "tbl_ok t" and lt: "\<forall>x \<in> fst ` set t. k' < x"
    by (auto simp: tbl_ok_def order_less_le)
  consider "k = k'" | "k < k'" | "k' < k" by fastforce
  then show ?case
  proof cases
    case 3
    then have "tbl_ok (tbl_insert k v t)" using 2 ok by auto
    moreover have "\<forall>x \<in> fst ` set (tbl_insert k v t). k' < x"
      using lt 3 by (auto simp: fst_set_tbl_insert)
    ultimately show ?thesis using 3 by (auto simp: tbl_ok_def)
  qed (use 2 lt in \<open>auto simp: tbl_ok_def\<close>)
qed

lemma tbl_ok_remove [intro]: "tbl_ok t \<Longrightarrow> tbl_ok (tbl_remove k t)"
proof (induction t)
  case Nil
  then show ?case by (simp add: tbl_remove_def)
next
  case (Cons e t)
  then have "tbl_ok (tbl_remove k t)" by (simp add: tbl_ok_def)
  then show ?case using Cons.prems
    by (cases e) (auto simp: tbl_ok_def tbl_remove_def)
qed

lemma tbl_ok_Nil [intro, simp]: "tbl_ok []"
  by (simp add: tbl_ok_def)

lemma tbl_get_Some_in: "tbl_get t k = Some v \<Longrightarrow> (k, v) \<in> set t"
  by (simp add: tbl_get_def map_of_SomeD)

lemma tbl_ok_get: "tbl_ok t \<Longrightarrow> (k, v) \<in> set t \<Longrightarrow> tbl_get t k = Some v"
  by (simp add: tbl_ok_def tbl_get_def)

text \<open>Two tables in key order with the same entries are the same list.\<close>

lemma tbl_keys_rebuild:
  "distinct (map fst t) \<Longrightarrow> map (\<lambda>k. (k, the (map_of t k))) (map fst t) = t"
  by (auto simp: comp_def intro!: map_idI)

lemma tbl_ext:
  assumes s: "tbl_ok s" and t: "tbl_ok t" and eq: "tbl_get s = tbl_get t"
  shows "s = t"
proof -
  from eq have m: "map_of s = map_of t" by (auto simp: tbl_get_def fun_eq_iff)
  then have "set (map fst s) = set (map fst t)"
    by (metis dom_map_of_conv_image_fst set_map)
  then have "map fst s = map fst t"
    using s t by (metis tbl_ok_def sorted_distinct_set_unique)
  then show ?thesis
    using m s t tbl_keys_rebuild by (metis tbl_ok_def)
qed

lemma tbl_insert_twice: "tbl_insert k v (tbl_insert k w t) = tbl_insert k v t"
  by (induction k w t rule: tbl_insert.induct) auto

lemma tbl_insert_same: "tbl_ok t \<Longrightarrow> tbl_get t k = Some v \<Longrightarrow> tbl_insert k v t = t"
  by (rule tbl_ext) auto

lemma map_of_rev: "distinct (map fst xs) \<Longrightarrow> map_of (rev xs) = map_of xs"
  using map_of_inject_set [of "rev xs" xs] by (simp flip: rev_map)

subsection \<open>Sorting by distinct keys\<close>

lemma filter_eq_distinct: "distinct xs \<Longrightarrow> k \<in> set xs \<Longrightarrow> filter (\<lambda>x. x = k) xs = [k]"
  by (induction xs) (auto simp: filter_empty_conv)

lemma sort_key_distinct_perm:
  assumes "mset as = mset bs" "distinct (map f as)"
  shows "sort_key f as = sort_key f bs"
proof (rule properties_for_sort_key)
  have "distinct (map f bs)"
    using assms by (metis mset_map distinct_count_atmost_1 mset_eq_imp_distinct_iff)
  then have inj: "inj_on f (set bs)" by (simp add: distinct_map)
  have eq: "set as = set bs" using assms(1) by (metis set_mset_mset)
  show "mset (sort_key f bs) = mset as" using assms by simp
  show "sorted (map f (sort_key f bs))" by simp
  show "filter (\<lambda>x. f k = f x) (sort_key f bs) = filter (\<lambda>x. f k = f x) as" if "k \<in> set (sort_key f bs)" for k
  proof -
    have "filter (\<lambda>x. f k = f x) xs = [k]" if "mset xs = mset bs" for xs
    proof -
      have xs: "set xs = set bs" "distinct xs"
        using that \<open>distinct (map f bs)\<close> by (metis set_mset_mset, metis distinct_map mset_eq_imp_distinct_iff)
      then have "filter (\<lambda>x. f k = f x) xs = filter (\<lambda>x. x = k) xs"
        using inj \<open>k \<in> set (sort_key f bs)\<close> by (intro filter_cong) (auto dest: inj_onD)
      also have "\<dots> = [k]"
        using xs \<open>k \<in> set (sort_key f bs)\<close> by (simp add: filter_eq_distinct)
      finally show ?thesis .
    qed
    then show ?thesis using assms(1) by simp
  qed
qed

subsection \<open>The interface of a table\<close>

text \<open>
  What every client of a table relies on. In the block: the write-once guard that the
  bridge builds from a lookup and an insert (check_and_insert_minted_proof), and that
  entries under other keys are kept.
\<close>

locale kv_table =
  fixes emp :: "'m"
    and get :: "'m \<Rightarrow> 'k \<Rightarrow> 'v option"
    and put :: "'k \<Rightarrow> 'v \<Rightarrow> 'm \<Rightarrow> 'm"
    and del :: "'k \<Rightarrow> 'm \<Rightarrow> 'm"
  assumes get_emp: "get emp k = None"
    and get_put: "get (put k v m) k' = (if k' = k then Some v else get m k')"
    and get_del: "get (del k m) k' = (if k' = k then None else get m k')"
begin

definition put_new :: "'k \<Rightarrow> 'v \<Rightarrow> 'm \<Rightarrow> 'm" where
  "put_new k v m = (case get m k of Some _ \<Rightarrow> m | None \<Rightarrow> put k v m)"

lemma put_new_keeps: "get m k = Some v \<Longrightarrow> get (put_new k' v' m) k = Some v"
  by (auto simp: put_new_def get_put split: option.splits)

lemma put_new_result: "get (put_new k v m) k = Some (case get m k of Some w \<Rightarrow> w | None \<Rightarrow> v)"
  by (auto simp: put_new_def get_put split: option.splits)

lemma fold_put_new_keeps:
  "get m k = Some v \<Longrightarrow> get (fold (\<lambda>(k', v'). put_new k' v') es m) k = Some v"
  by (induction es arbitrary: m) (auto simp: put_new_keeps)

lemma fold_del: "get (fold del ks m) k = (if k \<in> set ks then None else get m k)"
  by (induction ks arbitrary: m) (auto simp: get_del)

lemma fold_put:
  "get (fold (\<lambda>(k', v'). put k' v') es m) k = (case map_of (rev es) k of Some v \<Rightarrow> Some v | None \<Rightarrow> get m k)"
  by (induction es arbitrary: m) (auto simp: get_put map_add_def split: option.splits)

end

interpretation tbl: kv_table "[]" tbl_get tbl_insert tbl_remove
  by unfold_locales simp_all

end
