(* ===== verification/Types.thy ===== *)
theory Types
  imports Prelude
begin

text \<open>
  The records of packages/node/src/types.rs, field by field. Isabelle's record fields live in
  one name space, so each field carries the prefix of its struct (obj for
  SmartObjectRecord, str for StateTransitionRecord, blk for BlockRecord, undo for
  UndoLogRecord, env for UtxoVmEnvelope, att for StateAttestation, pn and prf for the
  sparse Merkle proof, eqv for EquivocationProof, qr for QuorumResult, qdp for
  QuorumDivergenceProof). usize counters are nat, i64 timestamps int.
\<close>

record smart_object =
  obj_object_id :: string
  obj_code_hash :: string
  obj_seal :: string
  obj_satoshis :: u64
  obj_owner :: string
  obj_state_data :: json
  obj_created_at_block :: u64
  obj_updated_at_block :: u64

record state_transition =
  str_txid :: string
  str_object_id :: string
  str_prev_seal :: string
  str_new_seal :: string
  str_caller :: string
  str_method :: string
  str_args :: json
  str_new_state :: json
  str_satoshis :: u64
  str_block_height :: u64
  str_gas_consumed :: u64
  str_timestamp :: i64

record block_record =
  blk_chain :: string
  blk_block_height :: u64
  blk_block_hash :: string
  blk_prev_hash :: "string option"
  blk_state_root :: string
  blk_timestamp :: i64

record undo_log =
  undo_id :: u64
  undo_chain :: string
  undo_block_height :: u64
  undo_object_id :: string
  undo_action :: string
  undo_prev_code_hash :: "string option"
  undo_prev_seal :: "string option"
  undo_prev_satoshis :: "u64 option"
  undo_prev_owner :: "string option"
  undo_prev_state_data :: "json option"
  undo_prev_updated_at_block :: "u64 option"
  undo_prev_created_at_block :: "u64 option"

record envelope =
  env_protocol :: string
  env_version :: u8
  env_content_type :: string
  env_payload :: bytes
  env_metadata :: "json option"

record attestation =
  att_chain :: string
  att_block_height :: u64
  att_block_hash :: string
  att_state_root :: string
  att_validator_pubkey :: string
  att_signature_hex :: string
  att_timestamp :: i64

record proof_node =
  pn_position :: string
  pn_hash_hex :: string

record inclusion_proof =
  prf_key_hex :: string
  prf_value_hex :: string
  prf_root_hex :: string
  prf_proof_path :: "proof_node list"
  prf_verified :: bool

record equivocation_proof =
  eqv_chain :: string
  eqv_block_height :: u64
  eqv_validator_pubkey :: string
  eqv_first_attestation :: attestation
  eqv_second_attestation :: attestation
  eqv_detected_at :: i64

record quorum_result =
  qr_chain :: string
  qr_block_height :: u64
  qr_state_root :: string
  qr_block_hash :: string
  qr_supporting_attestations :: "attestation list"
  qr_merkle_root :: string
  qr_support_count :: nat
  qr_quorum_threshold :: nat

record quorum_divergence_proof =
  qdp_chain :: string
  qdp_block_height :: u64
  qdp_operator_attestation :: attestation
  qdp_quorum_result_root :: string
  qdp_supporting_attestations :: "attestation list"
  qdp_merkle_root :: string
  qdp_detected_at :: i64


text \<open>The transfer record of cross_chain/bridge.rs, which the store persists.\<close>

datatype bridge_status = Pending | Verified | Locked | Minted | Completed | Failed

record bridge_transfer =
  bt_id :: string
  bt_source_chain :: string
  bt_source_object_id :: string
  bt_dest_chain :: string
  bt_dest_owner :: string
  bt_amount :: u64
  bt_status :: bridge_status
  bt_created_at :: i64
  bt_completed_at :: "i64 option"

end
