(* ===== verification/Codec.thy ===== *)
theory Codec
  imports Prelude
begin

text \<open>
  The byte formats the signed messages, hashes and keys are built from, as an interface: a
  prefix code is an encoding whose image can be read off the front of a byte string, so
  concatenations of prefix codes are injective. Its instances are the fixed-width integers
  and the length-prefixed strings of attestation_message_hash and sign_transaction; the
  fixed-width hashes of the Merkle trees are the extension fixed_code.
\<close>

locale prefix_code =
  fixes enc :: "'a \<Rightarrow> bytes"
    and wf :: "'a \<Rightarrow> bool"
  assumes cancel: "wf x \<Longrightarrow> wf y \<Longrightarrow> enc x @ r = enc y @ s \<Longrightarrow> x = y \<and> r = s"
begin

lemma enc_inj: "wf x \<Longrightarrow> wf y \<Longrightarrow> enc x = enc y \<Longrightarrow> x = y"
  using cancel [of x y "[]" "[]"] by simp

lemma value_cancel: "wf x \<Longrightarrow> wf y \<Longrightarrow> enc x @ r = enc y @ s \<Longrightarrow> x = y"
  using cancel by blast

lemma rest_cancel: "wf x \<Longrightarrow> wf y \<Longrightarrow> enc x @ r = enc y @ s \<Longrightarrow> r = s"
  using cancel by blast

lemma append_iff: "wf x \<Longrightarrow> wf y \<Longrightarrow> enc x @ r = enc y @ s \<longleftrightarrow> x = y \<and> r = s"
  using cancel by blast

text \<open>A list of known length is read off item by item.\<close>

lemma concat_cancel:
  "list_all wf xs \<Longrightarrow> list_all wf ys \<Longrightarrow> length xs = length ys \<Longrightarrow>
    concat (map enc xs) @ r = concat (map enc ys) @ s \<Longrightarrow> xs = ys \<and> r = s"
proof (induction xs arbitrary: ys)
  case Nil
  then show ?case by simp
next
  case (Cons x xs)
  then obtain y ys' where ys: "ys = y # ys'" by (cases ys) auto
  with Cons.prems have "x = y" "concat (map enc xs) @ r = concat (map enc ys') @ s"
    using cancel [of x y] by auto
  then show ?case using Cons ys by auto
qed

text \<open>Where no code is empty the length need not be known.\<close>

lemma concat_inj:
  "list_all wf xs \<Longrightarrow> list_all wf ys \<Longrightarrow> (\<And>x. wf x \<Longrightarrow> enc x \<noteq> []) \<Longrightarrow>
    concat (map enc xs) = concat (map enc ys) \<Longrightarrow> xs = ys"
proof (induction xs arbitrary: ys)
  case Nil
  then show ?case by (cases ys) auto
next
  case (Cons x xs)
  then obtain y ys' where ys: "ys = y # ys'" by (cases ys) auto
  with Cons.prems have "x = y" "concat (map enc xs) = concat (map enc ys')"
    using cancel [of x y] by auto
  then show ?case using Cons ys by auto
qed

end

locale fixed_code =
  fixes enc :: "'a \<Rightarrow> bytes"
    and wf :: "'a \<Rightarrow> bool"
    and width :: nat
  assumes width: "wf x \<Longrightarrow> length (enc x) = width"
    and inj: "wf x \<Longrightarrow> wf y \<Longrightarrow> enc x = enc y \<Longrightarrow> x = y"

sublocale fixed_code \<subseteq> prefix_code enc wf
proof unfold_locales
  show "x = y \<and> r = s" if "wf x" "wf y" "enc x @ r = enc y @ s" for x y r s
    using that width [of x] width [of y] inj [of x y] by simp
qed

text \<open>A string with its length in front, (s.len() as u32).to_be_bytes() and then s.\<close>

definition lp_string :: "string \<Rightarrow> bytes" where
  "lp_string s = len_u32_be s @ as_bytes s"

definition lp_bytes :: "bytes \<Rightarrow> bytes" where
  "lp_bytes d = len_u32_be d @ d"

definition short :: "'a list \<Rightarrow> bool" where
  "short s \<longleftrightarrow> length s < 2 ^ 32"

interpretation u64_code: fixed_code u64_be "\<lambda>_. True" 8
  by unfold_locales simp_all

interpretation u64_le_code: fixed_code u64_le "\<lambda>_. True" 8
proof unfold_locales
  show "x = y" if "u64_le x = u64_le y" for x y
    using that by (simp add: u64_le_def le_bytes_def flip: u64_be_def)
qed simp

interpretation lp_code: prefix_code lp_string short
proof unfold_locales
  show "x = y \<and> r = s" if "short x" "short y" "lp_string x @ r = lp_string y @ s" for x y r s
  proof -
    from that(3) have len: "len_u32_be x = len_u32_be y"
      and rest: "as_bytes x @ r = as_bytes y @ s"
      by (simp_all add: lp_string_def append_eq_append_conv)
    from len have "length x = length y"
      using that(1,2) len_u32_be_inj by (auto simp: short_def)
    then show ?thesis using rest by (simp add: append_eq_append_conv)
  qed
qed

interpretation lpb_code: prefix_code lp_bytes short
proof unfold_locales
  show "x = y \<and> r = s" if "short x" "short y" "lp_bytes x @ r = lp_bytes y @ s" for x y r s
  proof -
    from that(3) have len: "len_u32_be x = len_u32_be y" and rest: "x @ r = y @ s"
      by (simp_all add: lp_bytes_def append_eq_append_conv)
    from len have "length x = length y"
      using that(1,2) len_u32_be_inj by (auto simp: short_def)
    then show ?thesis using rest by simp
  qed
qed

end
