(* ===== verification/Merkle_Tree.thy ===== *)
theory Merkle_Tree
  imports Types Codec
begin

text \<open>
  The sparse Merkle tree of packages/node/src/storage/smt.rs. Keys, values and hashes are
  byte lists of length 32. The first part follows the source (hashing, bit addressing, the
  node table, update, root, get_proof, verify_proof_static); the second states what a root
  means, the recursive definition spec_node over the contents alone, and shows that the
  incremental node table always holds exactly these values.
\<close>

section \<open>The tree of the source\<close>

definition TREE_DEPTH :: nat where
  "TREE_DEPTH = 256"

definition zeros32 :: bytes where
  "zeros32 = replicate 32 0"

definition node_input :: "bytes \<Rightarrow> bytes \<Rightarrow> bytes" where
  "node_input l r = as_bytes ''SMT_NODE'' @ l @ r"

definition leaf_input :: "bytes \<Rightarrow> bytes \<Rightarrow> bytes" where
  "leaf_input k v = as_bytes ''SMT_LEAF'' @ k @ v"

definition hash_node :: "libs \<Rightarrow> bytes \<Rightarrow> bytes \<Rightarrow> bytes" where
  "hash_node L l r = sha256 L (node_input l r)"

definition hash_leaf :: "libs \<Rightarrow> bytes \<Rightarrow> bytes \<Rightarrow> bytes" where
  "hash_leaf L k v = sha256 L (leaf_input k v)"

record smt =
  smt_leaves :: "(bytes, bytes) table"
  smt_nodes :: "nat \<times> bytes \<Rightarrow> bytes option"
  smt_empty_hashes :: "bytes list"
  smt_cached_root :: bytes
  smt_dirty :: bool

definition bit_at :: "bytes \<Rightarrow> nat \<Rightarrow> u8" where
  "bit_at key i = drop_bit (7 - i mod 8) (key ! (i div 8)) AND 1"

definition path_prefix :: "bytes \<Rightarrow> nat \<Rightarrow> bytes" where
  "path_prefix key n =
     (let full_bytes = n div 8; remaining_bits = n mod 8;
          prefix = take full_bytes key @ replicate (32 - full_bytes) 0
      in if 0 < remaining_bits \<and> full_bytes < 32
         then prefix[full_bytes := (key ! full_bytes) AND NOT (push_bit (8 - remaining_bits) 1 - 1)]
         else prefix)"

definition smt_flip_bit :: "bytes \<Rightarrow> nat \<Rightarrow> bytes" where
  "smt_flip_bit p i = p[i div 8 := (p ! (i div 8)) XOR push_bit (7 - i mod 8) 1]"

definition empty_hash_at_level :: "bytes list \<Rightarrow> nat \<Rightarrow> bytes" where
  "empty_hash_at_level es level = es ! (TREE_DEPTH - level)"

definition get_sibling_hash :: "libs \<Rightarrow> smt \<Rightarrow> bytes \<Rightarrow> nat \<Rightarrow> bytes" where
  "get_sibling_hash L t key i =
     (if i = TREE_DEPTH - 1 then
        (let sibling_key = smt_flip_bit key i
         in case tbl_get (smt_leaves t) sibling_key of
              Some v \<Rightarrow> hash_leaf L sibling_key v
            | None \<Rightarrow> smt_empty_hashes t ! 0)
      else
        (let sibling_prefix = smt_flip_bit (path_prefix key (i + 1)) i
         in case smt_nodes t (i + 1, sibling_prefix) of
              Some h \<Rightarrow> h
            | None \<Rightarrow> empty_hash_at_level (smt_empty_hashes t) (i + 1)))"

text \<open>The loop of new pushes the hash of two copies of the last entry.\<close>

fun empty_chain :: "libs \<Rightarrow> nat \<Rightarrow> bytes \<Rightarrow> bytes list" where
  "empty_chain L 0 current = []"
| "empty_chain L (Suc n) current =
     (let current' = hash_node L current current in current' # empty_chain L n current')"

definition smt_new :: "libs \<Rightarrow> smt" where
  "smt_new L =
     (let es = zeros32 # empty_chain L TREE_DEPTH zeros32
      in \<lparr>smt_leaves = [], smt_nodes = (\<lambda>_. None), smt_empty_hashes = es,
          smt_cached_root = es ! TREE_DEPTH, smt_dirty = False\<rparr>)"

text \<open>The body shared by the three walks: the parent of a node and its sibling.\<close>

definition hash_pair :: "libs \<Rightarrow> u8 \<Rightarrow> bytes \<Rightarrow> bytes \<Rightarrow> bytes" where
  "hash_pair L b current sibling =
     (if b = 0 then hash_node L current sibling else hash_node L sibling current)"

text \<open>update_walk L key n current t runs the iterations bit_idx = n - 1 down to 0.\<close>

fun update_walk :: "libs \<Rightarrow> bytes \<Rightarrow> nat \<Rightarrow> bytes \<Rightarrow> smt \<Rightarrow> smt" where
  "update_walk L key 0 current t = t"
| "update_walk L key (Suc i) current t =
     (let parent = hash_pair L (bit_at key i) current (get_sibling_hash L t key i);
          slot = (i, path_prefix key i);
          parent_empty = empty_hash_at_level (smt_empty_hashes t) i;
          nodes' = (if parent = parent_empty then (smt_nodes t)(slot := None)
                    else (smt_nodes t)(slot := Some parent))
      in update_walk L key i parent (t\<lparr>smt_nodes := nodes'\<rparr>))"

definition smt_update :: "libs \<Rightarrow> bytes \<Rightarrow> bytes \<Rightarrow> smt \<Rightarrow> smt" where
  "smt_update L key value t =
     (if value = zeros32 \<and> tbl_get (smt_leaves t) key = None then t
      else
        let leaves' = (if value = zeros32 then tbl_remove key (smt_leaves t)
                       else tbl_insert key value (smt_leaves t));
            current = (if value = zeros32 then smt_empty_hashes t ! 0 else hash_leaf L key value);
            t' = update_walk L key TREE_DEPTH current (t\<lparr>smt_leaves := leaves'\<rparr>)
        in t'\<lparr>smt_dirty := True\<rparr>)"

definition smt_get :: "smt \<Rightarrow> bytes \<Rightarrow> bytes option" where
  "smt_get t key = tbl_get (smt_leaves t) key"

definition smt_root :: "smt \<Rightarrow> bytes \<times> smt" where
  "smt_root t =
     (if smt_dirty t then
        let r = (case smt_nodes t (0, zeros32) of
                   Some h \<Rightarrow> h
                 | None \<Rightarrow> smt_empty_hashes t ! TREE_DEPTH)
        in (r, t\<lparr>smt_cached_root := r, smt_dirty := False\<rparr>)
      else (smt_cached_root t, t))"

fun compute_root_walk :: "libs \<Rightarrow> smt \<Rightarrow> bytes \<Rightarrow> nat \<Rightarrow> bytes \<Rightarrow> bytes" where
  "compute_root_walk L t key 0 current = current"
| "compute_root_walk L t key (Suc i) current =
     compute_root_walk L t key i
       (hash_pair L (bit_at key i) current (get_sibling_hash L t key i))"

definition compute_root_for_key :: "libs \<Rightarrow> smt \<Rightarrow> bytes \<Rightarrow> bytes \<Rightarrow> bytes" where
  "compute_root_for_key L t key value = compute_root_walk L t key TREE_DEPTH (hash_leaf L key value)"

fun verify_walk :: "libs \<Rightarrow> proof_node list \<Rightarrow> bytes \<Rightarrow> bytes option" where
  "verify_walk L [] current = Some current"
| "verify_walk L (n # ns) current =
     (case hex_decode L (pn_hash_hex n) of
        Some b \<Rightarrow>
          if length b = 32 then
            verify_walk L ns
              (if pn_position n = ''left'' then hash_node L b current else hash_node L current b)
          else None
      | None \<Rightarrow> None)"

definition verify_proof_static :: "libs \<Rightarrow> bytes \<Rightarrow> bytes \<Rightarrow> bytes \<Rightarrow> proof_node list \<Rightarrow> bool" where
  "verify_proof_static L root key value path =
     (case verify_walk L path (hash_leaf L key value) of
        Some current \<Rightarrow> current = root
      | None \<Rightarrow> False)"

definition verify_proof :: "libs \<Rightarrow> bytes \<Rightarrow> bytes \<Rightarrow> bytes \<Rightarrow> proof_node list \<Rightarrow> bool" where
  "verify_proof L root key value path = verify_proof_static L root key value path"

definition proof_path_of :: "libs \<Rightarrow> smt \<Rightarrow> bytes \<Rightarrow> proof_node list" where
  "proof_path_of L t key =
     map (\<lambda>i. \<lparr>pn_position = (if bit_at key i = 0 then ''right'' else ''left''),
               pn_hash_hex = hex_encode L (get_sibling_hash L t key i)\<rparr>)
       (rev [0..<TREE_DEPTH])"

definition get_proof :: "libs \<Rightarrow> smt \<Rightarrow> bytes \<Rightarrow> inclusion_proof option" where
  "get_proof L t key =
     (case smt_get t key of
        None \<Rightarrow> None
      | Some value \<Rightarrow>
          let path = proof_path_of L t key;
              root = compute_root_for_key L t key value
          in Some \<lparr>prf_key_hex = hex_encode L key, prf_value_hex = hex_encode L value,
                   prf_root_hex = hex_encode L root, prf_proof_path = path,
                   prf_verified = verify_proof_static L root key value path\<rparr>)"

definition smt_len :: "smt \<Rightarrow> nat" where
  "smt_len t = length (smt_leaves t)"

definition smt_is_empty :: "smt \<Rightarrow> bool" where
  "smt_is_empty t \<longleftrightarrow> smt_leaves t = []"

section \<open>Bits of keys\<close>

definition key_ok :: "bytes \<Rightarrow> bool" where
  "key_ok k \<longleftrightarrow> length k = 32"

text \<open>Bit i of a key, the most significant bit of the first byte being bit 0.\<close>

definition key_bit :: "bytes \<Rightarrow> nat \<Rightarrow> bool" where
  "key_bit k i \<longleftrightarrow> bit (k ! (i div 8)) (7 - i mod 8)"

lemma bit_at_zero: "bit_at key i = 0 \<longleftrightarrow> \<not> key_bit key i"
proof -
  have "bit_at key i = of_bool (key_bit key i)"
    by (rule bit_word_eqI)
      (auto simp: bit_at_def key_bit_def bit_and_iff bit_drop_bit_eq bit_1_iff bit_of_bool_iff)
  then show ?thesis by simp
qed

lemma key_ok_flip [simp]: "key_ok (smt_flip_bit k i) = key_ok k"
  by (simp add: key_ok_def smt_flip_bit_def)

lemma key_ok_prefix: "n \<le> 256 \<Longrightarrow> key_ok k \<Longrightarrow> key_ok (path_prefix k n)"
  by (auto simp: key_ok_def path_prefix_def Let_def)

lemma byte_index: "i < 256 \<Longrightarrow> key_ok k \<Longrightarrow> i div 8 < length k"
  by (simp add: key_ok_def)

lemma index_eq: "i div 8 = j div 8 \<Longrightarrow> 7 - i mod 8 = 7 - j mod 8 \<Longrightarrow> (i::nat) = j"
proof -
  assume d: "i div 8 = j div 8" and m: "7 - i mod 8 = 7 - j mod 8"
  have "i mod 8 < 8" "j mod 8 < 8" by simp_all
  with m have "i mod 8 = j mod 8" by linarith
  with d show "i = j" by (metis div_mult_mod_eq)
qed

lemma key_bit_flip:
  assumes k: "key_ok k" and i: "i < 256" and j: "j < 256"
  shows "key_bit (smt_flip_bit k i) j \<longleftrightarrow> (if j = i then \<not> key_bit k j else key_bit k j)"
proof (cases "j div 8 = i div 8")
  case True
  have "7 - i mod 8 < 8" by simp
  then show ?thesis
    using True byte_index [OF j k] index_eq [OF True]
    by (auto simp: key_bit_def smt_flip_bit_def bit_xor_iff bit_exp_iff)
next
  case False
  then show ?thesis using byte_index [OF j k]
    by (auto simp: key_bit_def smt_flip_bit_def)
qed

lemma prefix_mask_bit:
  assumes r: "0 < r" "r < 8" and m: "m < 8"
  shows "bit (NOT (push_bit (8 - r) 1 - 1) :: byte) (7 - m) \<longleftrightarrow> m < r"
proof -
  have "(push_bit (8 - r) 1 - 1 :: byte) = mask (8 - r)"
    by (simp add: mask_eq_exp_minus_1 push_bit_of_1)
  then show ?thesis using assms
    by (auto simp: bit_not_iff bit_mask_iff)
qed

lemma key_bit_prefix:
  assumes k: "key_ok k" and n: "n \<le> 256" and i: "i < 256"
  shows "key_bit (path_prefix k n) i \<longleftrightarrow> i < n \<and> key_bit k i"
proof -
  let ?f = "n div 8" and ?r = "n mod 8"
  have i8: "i div 8 < 32" using i by simp
  have len: "length k = 32" using k by (simp add: key_ok_def)
  have f: "?f \<le> 32" using n by simp
  have nf: "n = 8 * ?f + ?r" and ii: "i = 8 * (i div 8) + i mod 8" and r8: "?r < 8" and m8: "i mod 8 < 8"
    by simp_all
  consider "i div 8 < ?f" | "i div 8 = ?f" | "?f < i div 8" by linarith
  then show ?thesis
  proof cases
    case 1
    then have "i < n" using nf ii m8 by linarith
    then show ?thesis using 1 len f
      by (simp add: key_bit_def path_prefix_def Let_def nth_append)
  next
    case 2
    then have lt: "i < n \<longleftrightarrow> i mod 8 < ?r" using nf ii by linarith
    show ?thesis
    proof (cases "0 < ?r")
      case True
      then show ?thesis using 2 lt len f i8 prefix_mask_bit [OF True r8 m8]
        by (simp add: key_bit_def path_prefix_def Let_def nth_append bit_and_iff) blast
    next
      case False
      then show ?thesis using 2 lt len f i8
        by (simp add: key_bit_def path_prefix_def Let_def nth_append)
    qed
  next
    case 3
    then have "\<not> i < n" using nf ii r8 by linarith
    then show ?thesis using 3 len f i8
      by (simp add: key_bit_def path_prefix_def Let_def nth_append)
  qed
qed

lemma key_eqI:
  assumes a: "key_ok a" and b: "key_ok b" and eq: "\<And>i. i < 256 \<Longrightarrow> key_bit a i = key_bit b i"
  shows "a = b"
proof (rule nth_equalityI)
  show "length a = length b" using a b by (simp add: key_ok_def)
next
  fix j assume j: "j < length a"
  show "a ! j = b ! j"
  proof (rule bit_word_eqI)
    fix m :: nat assume m: "m < LENGTH(8)"
    obtain x where x: "x < 8" "m = 7 - x"
      using m by (intro that [of "7 - m"]) auto
    have i: "8 * j + x < 256" "(8 * j + x) div 8 = j" "(8 * j + x) mod 8 = x"
      using j a x by (auto simp: key_ok_def)
    then show "bit (a ! j) m = bit (b ! j) m"
      using eq [of "8 * j + x"] x by (simp add: key_bit_def)
  qed
qed

text \<open>Two keys share the node at level n when their first n bits agree.\<close>

definition agree :: "nat \<Rightarrow> bytes \<Rightarrow> bytes \<Rightarrow> bool" where
  "agree n a b \<longleftrightarrow> (\<forall>i<n. key_bit a i = key_bit b i)"

lemma agree_refl [simp]: "agree n a a"
  by (simp add: agree_def)

lemma agree_sym: "agree n a b \<Longrightarrow> agree n b a"
  by (simp add: agree_def)

lemma agree_trans: "agree n a b \<Longrightarrow> agree n b c \<Longrightarrow> agree n a c"
  by (simp add: agree_def)

lemma agree_mono: "agree n a b \<Longrightarrow> m \<le> n \<Longrightarrow> agree m a b"
  by (simp add: agree_def)

lemma agree_Suc: "agree (Suc n) a b \<longleftrightarrow> agree n a b \<and> key_bit a n = key_bit b n"
  by (auto simp: agree_def less_Suc_eq)

lemma agree_eq: "key_ok a \<Longrightarrow> key_ok b \<Longrightarrow> agree 256 a b \<Longrightarrow> a = b"
  by (rule key_eqI) (auto simp: agree_def)

lemma prefix_eq_iff:
  assumes a: "key_ok a" and b: "key_ok b" and n: "n \<le> 256"
  shows "path_prefix a n = path_prefix b n \<longleftrightarrow> agree n a b"
proof
  assume eq: "path_prefix a n = path_prefix b n"
  show "agree n a b"
    unfolding agree_def
  proof (intro allI impI)
    fix i assume "i < n"
    then show "key_bit a i = key_bit b i"
      using key_bit_prefix [OF a n, of i] key_bit_prefix [OF b n, of i] eq n by auto
  qed
next
  assume ag: "agree n a b"
  show "path_prefix a n = path_prefix b n"
    by (rule key_eqI)
      (use a b n ag in \<open>auto simp: key_ok_prefix key_bit_prefix agree_def\<close>)
qed

lemma agree_flip:
  "key_ok k \<Longrightarrow> n \<le> i \<Longrightarrow> i < 256 \<Longrightarrow> agree n (smt_flip_bit k i) k"
  by (auto simp: agree_def key_bit_flip)

lemma agree_prefix: "key_ok k \<Longrightarrow> n \<le> 256 \<Longrightarrow> agree n (path_prefix k n) k"
  by (auto simp: agree_def key_bit_prefix)

lemma flip_of_prefix:
  assumes "key_ok k" "i < 256"
  shows "smt_flip_bit (path_prefix k (i + 1)) i = path_prefix (smt_flip_bit k i) (i + 1)"
  by (rule key_eqI) (use assms in \<open>auto simp: key_ok_prefix key_bit_prefix key_bit_flip\<close>)

lemma prefix_0: "path_prefix k 0 = zeros32"
  by (simp add: path_prefix_def zeros32_def)

section \<open>What a root means\<close>

text \<open>
  The hash of the subtree of height d on the path of key k, from the contents c alone: the
  leaf, or the hash of the two subtrees that differ in bit 256 - d. The key with bit i set
  to b is with_bit k i b.
\<close>

definition with_bit :: "bytes \<Rightarrow> nat \<Rightarrow> bool \<Rightarrow> bytes" where
  "with_bit k i b = (if key_bit k i = b then k else smt_flip_bit k i)"

definition leaf_value :: "libs \<Rightarrow> bytes \<Rightarrow> bytes option \<Rightarrow> bytes" where
  "leaf_value L k v = (case v of Some x \<Rightarrow> hash_leaf L k x | None \<Rightarrow> zeros32)"

fun spec_node :: "libs \<Rightarrow> (bytes \<Rightarrow> bytes option) \<Rightarrow> nat \<Rightarrow> bytes \<Rightarrow> bytes" where
  "spec_node L c 0 k = leaf_value L k (c k)"
| "spec_node L c (Suc d) k =
     hash_node L (spec_node L c d (with_bit k (255 - d) False))
                 (spec_node L c d (with_bit k (255 - d) True))"

definition spec_root :: "libs \<Rightarrow> (bytes \<Rightarrow> bytes option) \<Rightarrow> bytes" where
  "spec_root L c = spec_node L c 256 zeros32"

text \<open>What an update does to the contents: the zero value deletes.\<close>

definition spec_update :: "bytes \<Rightarrow> bytes \<Rightarrow> (bytes \<Rightarrow> bytes option) \<Rightarrow> bytes \<Rightarrow> bytes option" where
  "spec_update k v c = (if v = zeros32 then c(k := None) else c(k := Some v))"

lemma key_ok_with_bit [simp]: "key_ok (with_bit k i b) = key_ok k"
  by (simp add: with_bit_def)

lemma key_bit_with_bit:
  "key_ok k \<Longrightarrow> i < 256 \<Longrightarrow> j < 256 \<Longrightarrow> key_bit (with_bit k i b) j = (if j = i then b else key_bit k j)"
  by (auto simp: with_bit_def key_bit_flip)

lemma agree_with_bit:
  "key_ok k \<Longrightarrow> n \<le> i \<Longrightarrow> i < 256 \<Longrightarrow> agree n (with_bit k i b) k"
  by (auto simp: with_bit_def agree_flip)

text \<open>A subtree depends on the leaves under it only, and on the first bits of the key only.\<close>

lemma spec_node_cong:
  assumes "d \<le> 256" "key_ok k"
    and "\<And>k'. key_ok k' \<Longrightarrow> agree (256 - d) k' k \<Longrightarrow> c k' = c' k'"
  shows "spec_node L c d k = spec_node L c' d k"
  using assms
proof (induction d arbitrary: k)
  case 0
  then show ?case by simp
next
  case (Suc d)
  have "spec_node L c d (with_bit k (255 - d) b) = spec_node L c' d (with_bit k (255 - d) b)" for b
  proof (rule Suc.IH)
    fix k' assume k': "key_ok k'" "agree (256 - d) k' (with_bit k (255 - d) b)"
    have "agree (255 - d) (with_bit k (255 - d) b) k"
      using Suc.prems by (intro agree_with_bit) auto
    moreover have "agree (255 - d) k' (with_bit k (255 - d) b)"
      by (rule agree_mono [OF k'(2)]) simp
    ultimately have "agree (255 - d) k' k" using agree_trans by blast
    then show "c k' = c' k'" using Suc.prems(3) k'(1) by simp
  qed (use Suc.prems in auto)
  then show ?case by simp
qed

lemma spec_node_agree:
  assumes "d \<le> 256" "key_ok k" "key_ok k'" "agree (256 - d) k k'"
  shows "spec_node L c d k = spec_node L c d k'"
  using assms
proof (induction d arbitrary: k k')
  case 0
  then have "k = k'" using agree_eq [of k k'] by simp
  then show ?case by simp
next
  case (Suc d)
  have "spec_node L c d (with_bit k (255 - d) b) = spec_node L c d (with_bit k' (255 - d) b)" for b
  proof (rule Suc.IH)
    have "agree (255 - d) k k'"
      using Suc.prems by simp
    then have "agree (255 - d) (with_bit k (255 - d) b) (with_bit k' (255 - d) b)"
      using Suc.prems agree_with_bit [of k "255 - d" "255 - d" b]
        agree_with_bit [of k' "255 - d" "255 - d" b]
      by (simp add: agree_def)
    then have "agree (Suc (255 - d)) (with_bit k (255 - d) b) (with_bit k' (255 - d) b)"
      using Suc.prems by (simp add: agree_Suc key_bit_with_bit)
    then show "agree (256 - d) (with_bit k (255 - d) b) (with_bit k' (255 - d) b)"
      using Suc.prems by (simp add: Suc_diff_le [symmetric])
  qed (use Suc.prems in auto)
  then show ?case by simp
qed

text \<open>The hash of a subtree from the child on the path of k and the sibling of that child.\<close>

lemma spec_node_pair:
  assumes "i < 256" "key_ok k"
  shows "spec_node L c (256 - i) k =
    hash_pair L (bit_at k i) (spec_node L c (255 - i) k) (spec_node L c (255 - i) (smt_flip_bit k i))"
proof -
  have "256 - i = Suc (255 - i)" "255 - (255 - i) = i" using assms by auto
  then show ?thesis
    by (auto simp: hash_pair_def bit_at_zero with_bit_def)
qed

lemma length_empty_chain [simp]: "length (empty_chain L n x) = n"
  by (induction n arbitrary: x) (auto simp: Let_def)

fun empty_node :: "libs \<Rightarrow> nat \<Rightarrow> bytes" where
  "empty_node L 0 = zeros32"
| "empty_node L (Suc d) = hash_node L (empty_node L d) (empty_node L d)"

lemma empty_chain_nth: "d < n \<Longrightarrow> empty_chain L n (empty_node L m) ! d = empty_node L (Suc (m + d))"
proof (induction n arbitrary: d m)
  case 0
  then show ?case by simp
next
  case (Suc n)
  then show ?case
    using Suc.IH [of "d - 1" "Suc m"] by (cases d) (auto simp: Let_def)
qed

lemma empty_hashes_nth:
  "d \<le> TREE_DEPTH \<Longrightarrow> (zeros32 # empty_chain L TREE_DEPTH zeros32) ! d = empty_node L d"
  using empty_chain_nth [of "d - 1" TREE_DEPTH L 0] by (cases d) auto

lemma spec_node_empty: "spec_node L (\<lambda>_. None) d k = empty_node L d"
  by (induction d arbitrary: k) (auto simp: leaf_value_def)

section \<open>The node table holds the subtree hashes\<close>

definition node_at :: "smt \<Rightarrow> nat \<Rightarrow> bytes \<Rightarrow> bytes" where
  "node_at t i p = (case smt_nodes t (i, p) of Some h \<Rightarrow> h | None \<Rightarrow> empty_hash_at_level (smt_empty_hashes t) i)"

definition empties_ok :: "libs \<Rightarrow> smt \<Rightarrow> bool" where
  "empties_ok L t \<longleftrightarrow> smt_empty_hashes t = zeros32 # empty_chain L TREE_DEPTH zeros32"

text \<open>
  The invariant of the tree: the leaf table is in key order with 32-byte keys and no zero
  value, every entry of the node table (or its default) is the hash of its subtree, and a
  clean cached root is the root.
\<close>

definition smt_ok :: "libs \<Rightarrow> smt \<Rightarrow> bool" where
  "smt_ok L t \<longleftrightarrow>
     tbl_ok (smt_leaves t) \<and>
     (\<forall>k v. tbl_get (smt_leaves t) k = Some v \<longrightarrow> key_ok k \<and> key_ok v \<and> v \<noteq> zeros32) \<and>
     empties_ok L t \<and>
     (\<forall>i<256. \<forall>k. key_ok k \<longrightarrow>
        node_at t i (path_prefix k i) = spec_node L (smt_get t) (256 - i) k) \<and>
     (\<not> smt_dirty t \<longrightarrow> smt_cached_root t = spec_root L (smt_get t))"

lemma empty_hash_at_level_ok:
  "empties_ok L t \<Longrightarrow> i \<le> 256 \<Longrightarrow> empty_hash_at_level (smt_empty_hashes t) i = empty_node L (256 - i)"
  using empty_hashes_nth [of "TREE_DEPTH - i" L]
  by (simp add: empties_ok_def empty_hash_at_level_def TREE_DEPTH_def)

lemma empty_hash_0: "empties_ok L t \<Longrightarrow> smt_empty_hashes t ! 0 = zeros32"
  by (simp add: empties_ok_def)

lemma smt_new_ok: "smt_ok L (smt_new L)"
proof -
  let ?t = "smt_new L"
  have e: "empties_ok L ?t" by (simp add: empties_ok_def smt_new_def Let_def)
  have g: "smt_get ?t = (\<lambda>_. None)" by (auto simp: smt_get_def smt_new_def Let_def)
  have "node_at ?t i p = empty_node L (256 - i)" if "i < 256" for i p
    using that empty_hash_at_level_ok [OF e, of i] by (simp add: node_at_def smt_new_def Let_def)
  moreover have "smt_cached_root ?t = spec_root L (smt_get ?t)"
    using empty_hashes_nth [of TREE_DEPTH L] unfolding g
    by (simp add: spec_root_def spec_node_empty smt_new_def Let_def TREE_DEPTH_def)
  ultimately show ?thesis
    using e g by (simp add: smt_ok_def spec_node_empty) (simp add: smt_new_def Let_def)
qed

text \<open>
  The invariant of the update loop before iteration i - 1: everything off the path of the
  key, and everything at level i or deeper, is the hash of its subtree in the new contents.
\<close>

definition walk_ok :: "libs \<Rightarrow> bytes \<Rightarrow> nat \<Rightarrow> smt \<Rightarrow> bool" where
  "walk_ok L key i t \<longleftrightarrow>
     empties_ok L t \<and>
     (\<forall>j<256. \<forall>k. key_ok k \<and> (i \<le> j \<or> \<not> agree j k key) \<longrightarrow>
        node_at t j (path_prefix k j) = spec_node L (smt_get t) (256 - j) k)"

lemma sibling_ok:
  assumes w: "walk_ok L key (Suc i) t" and key: "key_ok key" and k: "key_ok k" and i: "i < 256"
    and ag: "agree i k key"
  shows "get_sibling_hash L t k i = spec_node L (smt_get t) (255 - i) (smt_flip_bit k i)"
proof (cases "i = 255")
  case True
  then show ?thesis
    using w by (auto simp: get_sibling_hash_def TREE_DEPTH_def smt_get_def leaf_value_def
      walk_ok_def empty_hash_0 split: option.splits)
next
  case False
  let ?s = "smt_flip_bit k i"
  have "node_at t (Suc i) (path_prefix ?s (Suc i)) = spec_node L (smt_get t) (256 - Suc i) ?s"
    using w k False i by (simp add: walk_ok_def)
  then show ?thesis
    using False i k flip_of_prefix [of k i]
    by (simp add: get_sibling_hash_def TREE_DEPTH_def node_at_def Let_def
        split: option.splits)
qed


lemma node_at_upd_other:
  "(j, p) \<noteq> s \<Longrightarrow> node_at (t\<lparr>smt_nodes := (smt_nodes t)(s := x)\<rparr>) j p = node_at t j p"
  by (simp add: node_at_def split: option.splits)

lemma walk_step:
  assumes w: "walk_ok L key (Suc i) t" and key: "key_ok key" and i: "i < 256"
    and parent: "parent = spec_node L (smt_get t) (256 - i) key"
    and x: "x = (if parent = empty_hash_at_level (smt_empty_hashes t) i then None else Some parent)"
    and t': "t' = t\<lparr>smt_nodes := (smt_nodes t)((i, path_prefix key i) := x)\<rparr>"
  shows "walk_ok L key i t'"
proof -
  have g: "smt_get t' = smt_get t" by (auto simp: t' smt_get_def)
  have "node_at t' j (path_prefix k j) = spec_node L (smt_get t) (256 - j) k"
    if j: "j < 256" and k: "key_ok k" and d: "i \<le> j \<or> \<not> agree j k key" for j k
  proof (cases "j = i \<and> agree i k key")
    case True
    then have "path_prefix k j = path_prefix key i"
      using prefix_eq_iff [OF k key, of i] i by simp
    moreover have "node_at t' i (path_prefix key i) = parent"
      by (simp add: node_at_def t' x)
    moreover have "parent = spec_node L (smt_get t) (256 - j) k"
      using True parent spec_node_agree [of "256 - i" k key L] k key i by simp
    ultimately show ?thesis using True by simp
  next
    case False
    then have "(j, path_prefix k j) \<noteq> (i, path_prefix key i)"
      using prefix_eq_iff [OF k key, of i] i by auto
    then have "node_at t' j (path_prefix k j) = node_at t j (path_prefix k j)"
      by (simp add: t' node_at_upd_other)
    moreover have "Suc i \<le> j \<or> \<not> agree j k key"
      using False d by (cases "j = i") auto
    ultimately show ?thesis using w j k by (simp add: walk_ok_def)
  qed
  then show ?thesis
    using w by (simp add: walk_ok_def g) (simp add: empties_ok_def t')
qed

lemma update_walk_ok:
  assumes "walk_ok L key i t" "key_ok key" "i \<le> 256" "cur = spec_node L (smt_get t) (256 - i) key"
  shows "walk_ok L key 0 (update_walk L key i cur t) \<and>
         smt_leaves (update_walk L key i cur t) = smt_leaves t"
  using assms
proof (induction i arbitrary: cur t)
  case 0
  then show ?case by simp
next
  case (Suc i)
  define parent where "parent = hash_pair L (bit_at key i) cur (get_sibling_hash L t key i)"
  define x where "x = (if parent = empty_hash_at_level (smt_empty_hashes t) i then None else Some parent)"
  define t' where "t' = t\<lparr>smt_nodes := (smt_nodes t)((i, path_prefix key i) := x)\<rparr>"
  have i: "i < 256" using Suc.prems by simp
  have p: "parent = spec_node L (smt_get t) (256 - i) key"
    using Suc.prems sibling_ok [OF Suc.prems(1,2,2) i agree_refl] spec_node_pair [OF i Suc.prems(2)]
    by (simp add: parent_def)
  have w: "walk_ok L key i t'"
    by (rule walk_step [OF Suc.prems(1,2) i p x_def t'_def])
  have g: "smt_get t' = smt_get t" by (auto simp: t'_def smt_get_def)
  have step: "update_walk L key (Suc i) cur t = update_walk L key i parent t'"
    by (simp add: Let_def parent_def t'_def x_def)
  have "smt_leaves t' = smt_leaves t" by (simp add: t'_def)
  then show ?case
    using Suc.IH [OF w Suc.prems(2) _ ] i p unfolding step by (simp add: g)
qed

lemma walk_ok_0: "walk_ok L key 0 t \<Longrightarrow> i < 256 \<Longrightarrow> key_ok k \<Longrightarrow>
    node_at t i (path_prefix k i) = spec_node L (smt_get t) (256 - i) k"
  by (simp add: walk_ok_def)

lemma zeros32_ok [simp]: "key_ok zeros32"
  by (simp add: key_ok_def zeros32_def)

lemma smt_get_update:
  "smt_get (smt_update L k v t) = spec_update k v (smt_get t)"
proof -
  have walk: "smt_leaves (update_walk L k n c t) = smt_leaves t" for n c t
    by (induction n arbitrary: c t) (auto simp: Let_def)
  show ?thesis
    by (rule ext) (auto simp: smt_update_def smt_get_def spec_update_def walk Let_def)
qed

lemma smt_update_ok:
  assumes ok: "smt_ok L t" and k: "key_ok k" and v: "key_ok v"
  shows "smt_ok L (smt_update L k v t)"
proof (cases "v = zeros32 \<and> tbl_get (smt_leaves t) k = None")
  case True
  then show ?thesis using ok by (simp add: smt_update_def)
next
  case False
  define leaves' where "leaves' = (if v = zeros32 then tbl_remove k (smt_leaves t)
                                   else tbl_insert k v (smt_leaves t))"
  define t1 where "t1 = t\<lparr>smt_leaves := leaves'\<rparr>"
  define cur where "cur = (if v = zeros32 then smt_empty_hashes t ! 0 else hash_leaf L k v)"
  define t2 where "t2 = update_walk L k 256 cur t1"
  have upd: "smt_update L k v t = t2\<lparr>smt_dirty := True\<rparr>"
    unfolding smt_update_def if_not_P [OF False]
    by (simp add: t1_def cur_def leaves'_def t2_def Let_def TREE_DEPTH_def)
  have g1: "smt_get t1 = spec_update k v (smt_get t)"
    by (auto simp: t1_def leaves'_def smt_get_def spec_update_def)
  have e1: "empties_ok L t1" using ok by (simp add: smt_ok_def empties_ok_def t1_def)
  have "smt_empty_hashes t ! 0 = zeros32" using ok by (auto simp: smt_ok_def intro: empty_hash_0)
  then have cur: "cur = spec_node L (smt_get t1) (256 - 256) k"
    by (simp add: g1 spec_update_def cur_def leaf_value_def)
  have "walk_ok L k 256 t1"
    unfolding walk_ok_def
  proof (intro conjI allI impI e1)
    fix j k' assume j: "j < 256" and a: "key_ok k' \<and> (256 \<le> j \<or> \<not> agree j k' k)"
    have "spec_node L (smt_get t) (256 - j) k' = spec_node L (smt_get t1) (256 - j) k'"
    proof (rule spec_node_cong)
      fix k'' assume "key_ok k''" "agree (256 - (256 - j)) k'' k'"
      then have "k'' \<noteq> k" using a j agree_sym by auto
      then show "smt_get t k'' = smt_get t1 k''" by (simp add: g1 spec_update_def)
    qed (use a in auto)
    moreover have "node_at t1 j p = node_at t j p" for p
      by (simp add: t1_def node_at_def split: option.splits)
    ultimately show "node_at t1 j (path_prefix k' j) = spec_node L (smt_get t1) (256 - j) k'"
      using ok a j by (simp add: smt_ok_def)
  qed
  from update_walk_ok [OF this k le_refl cur]
  have w: "walk_ok L k 0 t2" and l: "smt_leaves t2 = leaves'"
    by (simp_all add: t2_def t1_def)
  have "tbl_ok leaves'" using ok by (auto simp: leaves'_def smt_ok_def)
  moreover have "\<forall>k v. tbl_get leaves' k = Some v \<longrightarrow> key_ok k \<and> key_ok v \<and> v \<noteq> zeros32"
    using ok assms by (auto simp: leaves'_def smt_ok_def split: if_splits)
  moreover have "smt_get (t2\<lparr>smt_dirty := True\<rparr>) = smt_get t2" "node_at (t2\<lparr>smt_dirty := True\<rparr>) = node_at t2"
    by (auto simp: smt_get_def node_at_def fun_eq_iff split: option.splits)
  ultimately show ?thesis
    using w l unfolding upd smt_ok_def
    by (simp add: walk_ok_0) (simp add: walk_ok_def empties_ok_def)
qed

lemma smt_root_value:
  assumes "smt_ok L t"
  shows "fst (smt_root t) = spec_root L (smt_get t)"
proof (cases "smt_dirty t")
  case True
  have "node_at t 0 (path_prefix zeros32 0) = spec_node L (smt_get t) 256 zeros32"
    using assms by (simp add: smt_ok_def)
  then show ?thesis
    using True by (simp add: smt_root_def spec_root_def node_at_def prefix_0 empty_hash_at_level_def
        Let_def split: option.splits)
next
  case False
  then show ?thesis using assms by (simp add: smt_root_def smt_ok_def)
qed

lemma smt_root_ok: "smt_ok L t \<Longrightarrow> smt_ok L (snd (smt_root t))"
proof -
  assume ok: "smt_ok L t"
  let ?t = "snd (smt_root t)"
  have "smt_get ?t = smt_get t" "node_at ?t = node_at t" "smt_leaves ?t = smt_leaves t"
    "empties_ok L ?t = empties_ok L t"
    by (auto simp: smt_root_def smt_get_def node_at_def empties_ok_def fun_eq_iff Let_def
        split: option.splits)
  moreover have "smt_cached_root ?t = fst (smt_root t)"
    by (simp add: smt_root_def Let_def)
  ultimately show ?thesis
    using ok smt_root_value [OF ok] by (simp add: smt_ok_def)
qed


section \<open>The tree as a commitment to its contents\<close>

text \<open>
  What the store relies on: a commitment is built by updates and its root is a function of
  the contents it abstracts to, so equal contents have equal roots whatever the history.
\<close>

locale commitment =
  fixes new :: 't
    and upd :: "'k \<Rightarrow> 'v \<Rightarrow> 't \<Rightarrow> 't"
    and root :: "'t \<Rightarrow> 'h"
    and ok :: "'t \<Rightarrow> bool"
    and valid :: "'k \<Rightarrow> 'v \<Rightarrow> bool"
    and content :: "'t \<Rightarrow> 'k \<Rightarrow> 'v option"
    and effect :: "'k \<Rightarrow> 'v \<Rightarrow> ('k \<Rightarrow> 'v option) \<Rightarrow> 'k \<Rightarrow> 'v option"
    and spec :: "('k \<Rightarrow> 'v option) \<Rightarrow> 'h"
  assumes new_ok: "ok new"
    and new_content: "content new = (\<lambda>_. None)"
    and upd_ok: "ok t \<Longrightarrow> valid k v \<Longrightarrow> ok (upd k v t)"
    and upd_content: "content (upd k v t) = effect k v (content t)"
    and root_spec: "ok t \<Longrightarrow> root t = spec (content t)"
begin

definition valid_ops :: "('k \<times> 'v) list \<Rightarrow> bool" where
  "valid_ops ops \<longleftrightarrow> list_all (\<lambda>(k, v). valid k v) ops"

definition run :: "('k \<times> 'v) list \<Rightarrow> 't \<Rightarrow> 't" where
  "run ops t = fold (\<lambda>(k, v). upd k v) ops t"

lemma run_ok: "ok t \<Longrightarrow> valid_ops ops \<Longrightarrow> ok (run ops t)"
  by (induction ops arbitrary: t) (auto simp: valid_ops_def run_def upd_ok)

lemma run_content: "content (run ops t) = fold (\<lambda>(k, v). effect k v) ops (content t)"
  by (induction ops arbitrary: t) (auto simp: run_def upd_content)

lemma run_root: "ok t \<Longrightarrow> valid_ops ops \<Longrightarrow>
    root (run ops t) = spec (fold (\<lambda>(k, v). effect k v) ops (content t))"
  by (simp add: root_spec run_ok run_content)

lemma build_ok: "valid_ops ops \<Longrightarrow> ok (run ops new)"
  by (rule run_ok [OF new_ok])

lemma build_root: "valid_ops ops \<Longrightarrow>
    root (run ops new) = spec (fold (\<lambda>(k, v). effect k v) ops (\<lambda>_. None))"
  using run_root [OF new_ok] by (simp add: new_content)

lemma same_content_same_root:
  "ok t \<Longrightarrow> ok t' \<Longrightarrow> content t = content t' \<Longrightarrow> root t = root t'"
  by (simp add: root_spec)

end

interpretation smt_com: commitment "smt_new L" "smt_update L" "\<lambda>t. fst (smt_root t)" "smt_ok L"
    "\<lambda>k v. key_ok k \<and> key_ok v" smt_get spec_update "spec_root L" for L
proof unfold_locales
  show "smt_get (smt_new L) = (\<lambda>_. None)" by (auto simp: smt_get_def smt_new_def Let_def)
qed (simp_all add: smt_new_ok smt_update_ok smt_get_update smt_root_value)

definition apply_updates :: "libs \<Rightarrow> (bytes \<times> bytes) list \<Rightarrow> smt \<Rightarrow> smt" where
  "apply_updates L ops t = fold (\<lambda>(k, v). smt_update L k v) ops t"

definition updates_content :: "(bytes \<times> bytes) list \<Rightarrow> bytes \<Rightarrow> bytes option" where
  "updates_content ops = fold (\<lambda>(k, v). spec_update k v) ops (\<lambda>_. None)"

definition updates_ok :: "(bytes \<times> bytes) list \<Rightarrow> bool" where
  "updates_ok ops \<longleftrightarrow> list_all (\<lambda>(k, v). key_ok k \<and> key_ok v) ops"

lemmas apply_updates_run = apply_updates_def smt_com.run_def [symmetric]

lemma apply_updates_ok: "updates_ok ops \<Longrightarrow> smt_ok L (apply_updates L ops (smt_new L))"
  unfolding apply_updates_run
  by (rule smt_com.build_ok) (simp add: smt_com.valid_ops_def updates_ok_def)

lemma apply_updates_get: "smt_get (apply_updates L ops (smt_new L)) = updates_content ops"
  unfolding apply_updates_run smt_com.run_content smt_com.new_content updates_content_def ..

text \<open>
  C8. After any sequence of inserts, overwrites and deletes from the empty tree, the root the
  incremental node table returns is the root the recursive definition computes from the
  final contents: 256 levels, the bits of the key from the most significant one choosing the
  side, empty leaves all zero. (The invariant smt_ok behind it says the same of every node.)
\<close>

theorem smt_root_refines:
  assumes "updates_ok ops"
  shows "fst (smt_root (apply_updates L ops (smt_new L))) = spec_root L (updates_content ops)"
  using smt_root_value [OF apply_updates_ok [OF assms]] by (simp add: apply_updates_get)

lemma smt_root_refines_witness:
  "fst (smt_root (apply_updates demo_libs [(zeros32, replicate 32 1)] (smt_new demo_libs)))
   = spec_root demo_libs [zeros32 \<mapsto> replicate 32 1]"
proof -
  have "updates_ok [(zeros32, replicate 32 1)]"
    by (simp add: updates_ok_def key_ok_def zeros32_def)
  moreover have "updates_content [(zeros32, replicate 32 1)] = [zeros32 \<mapsto> replicate 32 1]"
    by (simp add: updates_content_def spec_update_def zeros32_def replicate_eq_replicate)
  ultimately show ?thesis
    using smt_root_refines by metis
qed

text \<open>
  History independence: two histories with the same final contents give the same root
  and the same leaf table, so replicas that reach the same state in a different order commit
  to it by the same bytes.
\<close>

theorem smt_history_independent:
  assumes "updates_ok ops" "updates_ok ops'" "updates_content ops = updates_content ops'"
  shows "fst (smt_root (apply_updates L ops (smt_new L))) =
           fst (smt_root (apply_updates L ops' (smt_new L)))
       \<and> smt_leaves (apply_updates L ops (smt_new L)) = smt_leaves (apply_updates L ops' (smt_new L))"
proof (intro conjI)
  let ?t = "apply_updates L ops (smt_new L)" and ?t' = "apply_updates L ops' (smt_new L)"
  have ok: "smt_ok L ?t" "smt_ok L ?t'" using assms apply_updates_ok by auto
  have eq: "smt_get ?t = smt_get ?t'" using assms by (simp add: apply_updates_get)
  show "fst (smt_root ?t) = fst (smt_root ?t')"
    by (rule smt_com.same_content_same_root [OF ok eq])
  show "smt_leaves ?t = smt_leaves ?t'"
    by (rule tbl_ext) (use ok eq in \<open>auto simp: smt_ok_def smt_get_def fun_eq_iff\<close>)
qed

lemma smt_history_independent_witness:
  "fst (smt_root (apply_updates demo_libs [(zeros32, replicate 32 1), (replicate 32 2, replicate 32 3)] (smt_new demo_libs)))
   = fst (smt_root (apply_updates demo_libs [(replicate 32 2, replicate 32 3), (zeros32, replicate 32 1)] (smt_new demo_libs)))"
proof -
  let ?a = "[(zeros32, replicate 32 1), (replicate 32 2, replicate 32 3)] :: (bytes \<times> bytes) list"
  let ?b = "[(replicate 32 2, replicate 32 3), (zeros32, replicate 32 1)] :: (bytes \<times> bytes) list"
  have ok: "updates_ok ?a" "updates_ok ?b"
    by (simp_all add: updates_ok_def key_ok_def zeros32_def)
  have "updates_content ?a = updates_content ?b"
    by (rule ext) (simp add: updates_content_def spec_update_def zeros32_def replicate_eq_replicate)
  from smt_history_independent [OF ok this] show ?thesis by blast
qed


section \<open>Inclusion proofs\<close>

lemma smt_ok_walk: "smt_ok L t \<Longrightarrow> walk_ok L key i t"
  by (simp add: smt_ok_def walk_ok_def)

lemma smt_sibling: "smt_ok L t \<Longrightarrow> key_ok k \<Longrightarrow> i < 256 \<Longrightarrow>
    get_sibling_hash L t k i = spec_node L (smt_get t) (255 - i) (smt_flip_bit k i)"
  using sibling_ok [of L k i t k] smt_ok_walk by simp

lemma length_spec_node: "sha256_len L \<Longrightarrow> length (spec_node L c d k) = 32"
  by (cases d) (auto simp: leaf_value_def hash_leaf_def hash_node_def sha256_len_def zeros32_def
    split: option.splits)

lemma length_hash_pair [simp]: "sha256_len L \<Longrightarrow> length (hash_pair L b x y) = 32"
  by (simp add: hash_pair_def hash_node_def sha256_len_def)

lemma compute_root_walk_spec:
  assumes "smt_ok L t" "key_ok k" "i \<le> 256" "cur = spec_node L (smt_get t) (256 - i) k"
  shows "compute_root_walk L t k i cur = spec_node L (smt_get t) 256 k"
  using assms
proof (induction i arbitrary: cur)
  case (Suc i)
  then show ?case
    using spec_node_pair [of i k L "smt_get t"] by (simp add: smt_sibling)
qed simp

lemma verify_walk_path:
  assumes "hex_roundtrip L" "n \<le> 256" "\<And>i. i < n \<Longrightarrow> length (get_sibling_hash L t k i) = 32"
  shows "verify_walk L
     (map (\<lambda>i. \<lparr>pn_position = (if bit_at k i = 0 then ''right'' else ''left''),
               pn_hash_hex = hex_encode L (get_sibling_hash L t k i)\<rparr>) (rev [0..<n])) cur
     = Some (compute_root_walk L t k n cur)"
  using assms
proof (induction n arbitrary: cur)
  case (Suc n)
  then have "length (get_sibling_hash L t k n) = 32" "hex_roundtrip L" by simp_all
  then show ?case
    using Suc by (simp add: hex_roundtrip_def hash_pair_def)
qed simp

lemma compute_root_for_key_spec:
  assumes "smt_ok L t" "smt_get t k = Some v"
  shows "compute_root_for_key L t k v = fst (smt_root t)"
proof -
  have k: "key_ok k" using assms by (auto simp: smt_ok_def smt_get_def)
  have "compute_root_for_key L t k v = spec_node L (smt_get t) 256 k"
    using compute_root_walk_spec [OF assms(1) k, of 256] assms(2)
    by (simp add: compute_root_for_key_def TREE_DEPTH_def leaf_value_def)
  also have "\<dots> = spec_node L (smt_get t) 256 zeros32"
    by (rule spec_node_agree) (use k in \<open>auto simp: agree_def\<close>)
  finally show ?thesis by (simp add: smt_root_value [OF assms(1)] spec_root_def)
qed

lemma verify_own_proof:
  assumes ok: "smt_ok L t" and hex: "hex_roundtrip L" and len: "sha256_len L" and v: "smt_get t k = Some v"
  shows "verify_proof_static L (fst (smt_root t)) k v (proof_path_of L t k)"
proof -
  have k: "key_ok k" using ok v by (auto simp: smt_ok_def smt_get_def)
  have "verify_walk L (proof_path_of L t k) (hash_leaf L k v) = Some (compute_root_for_key L t k v)"
    unfolding proof_path_of_def compute_root_for_key_def TREE_DEPTH_def
    by (rule verify_walk_path) (use hex len smt_sibling [OF ok k] length_spec_node in auto)
  then show ?thesis
    by (simp add: verify_proof_static_def compute_root_for_key_spec [OF ok v])
qed

lemma get_proof_complete_aux:
  assumes ok: "smt_ok L t" and hex: "hex_roundtrip L" and len: "sha256_len L"
  shows "get_proof L t k =
    (case smt_get t k of
       None \<Rightarrow> None
     | Some v \<Rightarrow> Some \<lparr>prf_key_hex = hex_encode L k, prf_value_hex = hex_encode L v,
         prf_root_hex = hex_encode L (fst (smt_root t)), prf_proof_path = proof_path_of L t k,
         prf_verified = True\<rparr>)"
  using verify_own_proof [OF assms]
  by (auto simp: get_proof_def compute_root_for_key_spec [OF ok] Let_def split: option.splits)

text \<open>
  C34. get_proof answers exactly for the keys of the tree; the proof has 256 nodes, carries
  the current root, and its own verification flag is true.
\<close>

theorem get_proof_complete:
  assumes ok: "smt_ok L t" and hex: "hex_roundtrip L" and len: "sha256_len L"
  shows "get_proof L t k =
    (case smt_get t k of
       None \<Rightarrow> None
     | Some v \<Rightarrow> Some \<lparr>prf_key_hex = hex_encode L k, prf_value_hex = hex_encode L v,
         prf_root_hex = hex_encode L (fst (smt_root t)), prf_proof_path = proof_path_of L t k,
         prf_verified = True\<rparr>)
    \<and> length (proof_path_of L t k) = 256"
  by (simp add: get_proof_complete_aux [OF assms] proof_path_of_def TREE_DEPTH_def)

lemma get_proof_complete_witness:
  "\<exists>p. get_proof demo_libs (apply_updates demo_libs [(zeros32, replicate 32 1)] (smt_new demo_libs)) zeros32
     = Some p \<and> prf_verified p"
proof -
  let ?ops = "[(zeros32, replicate 32 1)] :: (bytes \<times> bytes) list"
  have ok: "smt_ok demo_libs (apply_updates demo_libs ?ops (smt_new demo_libs))"
    by (rule apply_updates_ok) (simp add: updates_ok_def key_ok_def zeros32_def)
  have "smt_get (apply_updates demo_libs ?ops (smt_new demo_libs)) zeros32 = Some (replicate 32 1)"
    by (simp add: apply_updates_get updates_content_def spec_update_def zeros32_def replicate_eq_replicate)
  then show ?thesis
    using get_proof_complete [OF ok demo_libs_ok(2) demo_libs_ok(1), of zeros32] by auto
qed

text \<open>
  Soundness. The inputs hashed by the tree, and those hashed by a verification run: a proof
  for a value that is not in the tree exhibits, among these, two different inputs with one
  hash or an input that hashes to the all-zero empty leaf.
\<close>

definition tree_inputs :: "libs \<Rightarrow> (bytes \<Rightarrow> bytes option) \<Rightarrow> bytes set" where
  "tree_inputs L c =
     {x. \<exists>d k. d < 256 \<and> key_ok k \<and>
        x = node_input (spec_node L c d (with_bit k (255 - d) False))
                       (spec_node L c d (with_bit k (255 - d) True))}
   \<union> {x. \<exists>k v. c k = Some v \<and> x = leaf_input k v}"

fun walk_inputs :: "libs \<Rightarrow> proof_node list \<Rightarrow> bytes \<Rightarrow> bytes list" where
  "walk_inputs L [] current = []"
| "walk_inputs L (n # ns) current =
     (case hex_decode L (pn_hash_hex n) of
        Some b \<Rightarrow>
          let x = (if pn_position n = ''left'' then node_input b current else node_input current b)
          in x # walk_inputs L ns (sha256 L x)
      | None \<Rightarrow> [])"

definition proof_inputs :: "libs \<Rightarrow> bytes \<Rightarrow> bytes \<Rightarrow> proof_node list \<Rightarrow> bytes list" where
  "proof_inputs L key value path = leaf_input key value # walk_inputs L path (hash_leaf L key value)"

definition hash_break :: "libs \<Rightarrow> bytes set \<Rightarrow> bool" where
  "hash_break L S \<longleftrightarrow> (\<exists>a\<in>S. \<exists>b\<in>S. a \<noteq> b \<and> sha256 L a = sha256 L b) \<or> (\<exists>a\<in>S. sha256 L a = zeros32)"

lemma leaf_in_tree: "c k = Some v \<Longrightarrow> leaf_input k v \<in> tree_inputs L c"
  by (auto simp: tree_inputs_def)

lemma hash_break_eq: "\<not> hash_break L S \<Longrightarrow> a \<in> S \<Longrightarrow> b \<in> S \<Longrightarrow> sha256 L a = sha256 L b \<Longrightarrow> a = b"
  by (auto simp: hash_break_def)

lemma hash_break_zero: "\<not> hash_break L S \<Longrightarrow> a \<in> S \<Longrightarrow> sha256 L a \<noteq> zeros32"
  by (auto simp: hash_break_def)

lemma node_leaf_input: "node_input l r \<noteq> leaf_input k v"
  by (simp add: node_input_def leaf_input_def as_bytes_def)

lemma node_input_inj: "length l = length l' \<Longrightarrow> node_input l r = node_input l' r' \<longleftrightarrow> l = l' \<and> r = r'"
  by (simp add: node_input_def)

lemma leaf_input_inj: "length k = length k' \<Longrightarrow> leaf_input k v = leaf_input k' v' \<longleftrightarrow> k = k' \<and> v = v'"
  by (simp add: leaf_input_def)

definition subtree_hash :: "libs \<Rightarrow> (bytes \<Rightarrow> bytes option) \<Rightarrow> bytes \<Rightarrow> bool" where
  "subtree_hash L c h \<longleftrightarrow> (\<exists>d k. d \<le> 256 \<and> key_ok k \<and> h = spec_node L c d k)"

lemma subtree_child:
  assumes nb: "\<not> hash_break L S" and S: "tree_inputs L c \<subseteq> S" and x: "node_input l r \<in> S"
    and len: "length l = 32" "sha256_len L"
    and h: "subtree_hash L c (sha256 L (node_input l r))"
  shows "subtree_hash L c l \<and> subtree_hash L c r"
proof -
  from h obtain d k where d: "d \<le> 256" and k: "key_ok k"
    and eq: "sha256 L (node_input l r) = spec_node L c d k"
    by (auto simp: subtree_hash_def)
  show ?thesis
  proof (cases d)
    case 0
    show ?thesis
    proof (cases "c k")
      case None
      then show ?thesis using eq 0 hash_break_zero [OF nb x] by (simp add: leaf_value_def)
    next
      case (Some v)
      then have "leaf_input k v \<in> S" using S leaf_in_tree by blast
      then show ?thesis
        using eq 0 Some hash_break_eq [OF nb x] node_leaf_input [of l r k v]
        by (auto simp: leaf_value_def hash_leaf_def)
    qed
  next
    case (Suc d')
    let ?l = "spec_node L c d' (with_bit k (255 - d') False)"
    let ?r = "spec_node L c d' (with_bit k (255 - d') True)"
    have "d' < 256" using Suc d by simp
    then have "node_input ?l ?r \<in> tree_inputs L c" using k unfolding tree_inputs_def by blast
    then have "node_input l r = node_input ?l ?r"
      using S eq Suc hash_break_eq [OF nb x] by (auto simp: hash_node_def)
    then have "l = ?l" "r = ?r"
      using len length_spec_node node_input_inj by metis+
    then show ?thesis
      using Suc d k unfolding subtree_hash_def by (metis Suc_leD key_ok_with_bit)
  qed
qed

lemma verify_walk_subtree:
  assumes "verify_walk L path cur = Some r" "subtree_hash L c r"
    "\<not> hash_break L S" "tree_inputs L c \<subseteq> S" "set (walk_inputs L path cur) \<subseteq> S"
    "length cur = 32" "sha256_len L"
  shows "subtree_hash L c cur"
  using assms
proof (induction path arbitrary: cur)
  case (Cons n ns)
  then obtain b where b: "hex_decode L (pn_hash_hex n) = Some b" "length b = 32"
    by (auto split: option.splits if_splits)
  define x where "x = (if pn_position n = ''left'' then node_input b cur else node_input cur b)"
  have "subtree_hash L c (sha256 L x)"
  proof (rule Cons.IH)
    show "verify_walk L ns (sha256 L x) = Some r"
      using Cons.prems(1) b by (auto simp: x_def hash_node_def)
    show "set (walk_inputs L ns (sha256 L x)) \<subseteq> S"
      using Cons.prems(5) b by (auto simp: x_def Let_def)
    show "length (sha256 L x) = 32" using Cons.prems(7) by (simp add: sha256_len_def)
  qed (use Cons.prems in auto)
  moreover have "x \<in> S" using Cons.prems(5) b by (auto simp: x_def Let_def)
  ultimately show ?case
    using subtree_child [OF Cons.prems(3,4)] b Cons.prems(6,7) by (auto simp: x_def split: if_splits)
qed simp

lemma verify_proof_sound_aux:
  assumes ok: "smt_ok L t" and len: "sha256_len L" and key: "key_ok key"
    and ver: "verify_proof_static L (fst (smt_root t)) key value path"
  shows "smt_get t key = Some value
    \<or> hash_break L (tree_inputs L (smt_get t) \<union> set (proof_inputs L key value path))"
proof (rule disjCI)
  let ?c = "smt_get t" and ?S = "tree_inputs L (smt_get t) \<union> set (proof_inputs L key value path)"
  assume nb: "\<not> hash_break L ?S"
  have "verify_walk L path (hash_leaf L key value) = Some (spec_root L ?c)"
    using ver smt_root_value [OF ok] by (auto simp: verify_proof_static_def split: option.splits)
  moreover have "subtree_hash L ?c (spec_root L ?c)"
    unfolding subtree_hash_def spec_root_def using zeros32_ok by blast
  moreover have "length (hash_leaf L key value) = 32" using len by (simp add: hash_leaf_def sha256_len_def)
  ultimately have "subtree_hash L ?c (hash_leaf L key value)"
    using verify_walk_subtree [OF _ _ nb] len by (auto simp: proof_inputs_def)
  then obtain d k where d: "d \<le> 256" and k: "key_ok k"
    and eq: "sha256 L (leaf_input key value) = spec_node L ?c d k"
    by (auto simp: subtree_hash_def hash_leaf_def)
  have x: "leaf_input key value \<in> ?S" by (simp add: proof_inputs_def)
  show "?c key = Some value"
  proof (cases d)
    case 0
    show ?thesis
    proof (cases "?c k")
      case None
      then show ?thesis using eq 0 hash_break_zero [OF nb x] by (simp add: leaf_value_def)
    next
      case (Some v)
      then have "leaf_input k v \<in> ?S" using leaf_in_tree by blast
      then have "leaf_input key value = leaf_input k v"
        using eq 0 Some hash_break_eq [OF nb x] by (auto simp: leaf_value_def hash_leaf_def)
      then show ?thesis using Some key k leaf_input_inj [of key k] by (auto simp: key_ok_def)
    qed
  next
    case (Suc d')
    let ?y = "node_input (spec_node L ?c d' (with_bit k (255 - d') False))
                         (spec_node L ?c d' (with_bit k (255 - d') True))"
    have "d' < 256" using Suc d by simp
    then have "?y \<in> ?S" using k unfolding tree_inputs_def by blast
    moreover have "sha256 L (leaf_input key value) = sha256 L ?y" using eq Suc by (simp add: hash_node_def)
    ultimately have "leaf_input key value = ?y" by (rule hash_break_eq [OF nb x])
    then show ?thesis using node_leaf_input by metis
  qed
qed

text \<open>
  C9. Soundness of verify_proof_static against the root of a tree: the key has that value,
  or the run exhibits a break of the hash among its own inputs and the tree's. The code
  checks neither the number of proof nodes nor their sides against the key; the domain
  tags SMT_LEAF and SMT_NODE and the key inside the leaf hash make it sound all the same.
\<close>

theorem verify_proof_sound:
  assumes ok: "smt_ok L t" and len: "sha256_len L" and key: "key_ok key"
    and ver: "verify_proof_static L (fst (smt_root t)) key value path"
  shows "smt_get t key = Some value
    \<or> hash_break L (tree_inputs L (smt_get t) \<union> set (proof_inputs L key value path))"
  by (rule verify_proof_sound_aux [OF ok len key ver])

lemma verify_proof_sound_witness:
  "\<exists>t path. smt_get t zeros32 = Some (replicate 32 1)
      \<or> hash_break demo_libs (tree_inputs demo_libs (smt_get t) \<union> set (proof_inputs demo_libs zeros32 (replicate 32 1) path))"
proof -
  let ?ops = "[(zeros32, replicate 32 1)] :: (bytes \<times> bytes) list"
  let ?t = "apply_updates demo_libs ?ops (smt_new demo_libs)"
  have ok: "smt_ok demo_libs ?t"
    by (rule apply_updates_ok) (simp add: updates_ok_def key_ok_def zeros32_def)
  have get: "smt_get ?t zeros32 = Some (replicate 32 1)"
    by (simp add: apply_updates_get updates_content_def spec_update_def zeros32_def replicate_eq_replicate)
  have "verify_walk demo_libs (proof_path_of demo_libs ?t zeros32) (hash_leaf demo_libs zeros32 (replicate 32 1))
      = Some (compute_root_for_key demo_libs ?t zeros32 (replicate 32 1))"
    unfolding proof_path_of_def compute_root_for_key_def TREE_DEPTH_def
    by (rule verify_walk_path) (use smt_sibling [OF ok zeros32_ok] length_spec_node in auto)
  then have "verify_proof_static demo_libs (fst (smt_root ?t)) zeros32 (replicate 32 1)
      (proof_path_of demo_libs ?t zeros32)"
    by (simp add: verify_proof_static_def compute_root_for_key_spec [OF ok get])
  from verify_proof_sound [OF ok demo_libs_ok(1) zeros32_ok this] show ?thesis by blast
qed

end
