(* ===== verification/Quorum.thy ===== *)
theory Quorum
  imports Prelude
begin

text \<open>
  Voting by distinct members, the interface behind the attestation pool and the cross-chain
  verifier: a ballot names its voter and its choice. Inside the locale: counting ballots is
  counting voters, two majorities in one box agree, and two quorums of different boxes
  share members.
\<close>

locale quorum_voting =
  fixes voter :: "'b \<Rightarrow> 'v"
    and choice :: "'b \<Rightarrow> 'r"
    and members :: "'v set"
  assumes finite_members: "finite members"
begin

definition valid_box :: "'b list \<Rightarrow> bool" where
  "valid_box bs \<longleftrightarrow> distinct (map voter bs) \<and> voter ` set bs \<subseteq> members"

definition votes :: "'r \<Rightarrow> 'b list \<Rightarrow> nat" where
  "votes r bs = length (filter (\<lambda>b. choice b = r) bs)"

definition supporters :: "'r \<Rightarrow> 'b list \<Rightarrow> 'v set" where
  "supporters r bs = voter ` {b \<in> set bs. choice b = r}"

lemma supporters_members: "valid_box bs \<Longrightarrow> supporters r bs \<subseteq> members"
  by (auto simp: valid_box_def supporters_def)

lemma card_supporters: "valid_box bs \<Longrightarrow> card (supporters r bs) = votes r bs"
proof -
  assume v: "valid_box bs"
  have "distinct (map voter (filter (\<lambda>b. choice b = r) bs))"
    using v by (simp add: valid_box_def distinct_map_filter)
  then have "card (set (map voter (filter (\<lambda>b. choice b = r) bs))) = votes r bs"
    using distinct_card [of "map voter (filter (\<lambda>b. choice b = r) bs)"] by (simp add: votes_def)
  then show ?thesis by (simp add: supporters_def)
qed

lemma voter_once: "valid_box bs \<Longrightarrow> b \<in> set bs \<Longrightarrow> b' \<in> set bs \<Longrightarrow> voter b = voter b' \<Longrightarrow> b = b'"
  unfolding valid_box_def distinct_map inj_on_def by blast

lemma supporters_disjoint:
  assumes "valid_box bs" "r \<noteq> r'"
  shows "supporters r bs \<inter> supporters r' bs = {}"
proof (rule ccontr)
  assume "supporters r bs \<inter> supporters r' bs \<noteq> {}"
  then obtain b b' where "b \<in> set bs" "b' \<in> set bs" "voter b = voter b'" "choice b = r" "choice b' = r'"
    by (auto simp: supporters_def)
  then show False using voter_once [OF assms(1)] assms(2) by metis
qed

lemma quorum_overlap:
  assumes A: "A \<subseteq> members" "q \<le> card A" and B: "B \<subseteq> members" "q \<le> card B"
  shows "2 * q \<le> card members + card (A \<inter> B)"
proof -
  have fin: "finite A" "finite B" using A B finite_members finite_subset by blast+
  have "card A + card B = card (A \<union> B) + card (A \<inter> B)"
    by (rule card_Un_Int [OF fin])
  moreover have "card (A \<union> B) \<le> card members"
    using A B finite_members by (intro card_mono) auto
  ultimately show ?thesis using A(2) B(2) by linarith
qed

theorem majority_unique:
  assumes v: "valid_box bs" and q: "card members < 2 * q"
    and r: "q \<le> votes r bs" and r': "q \<le> votes r' bs"
  shows "r = r'"
proof (rule ccontr)
  assume "r \<noteq> r'"
  then have "card (supporters r bs \<inter> supporters r' bs) = 0"
    using supporters_disjoint [OF v] by simp
  moreover have "2 * q \<le> card members + card (supporters r bs \<inter> supporters r' bs)"
    using v r r' by (intro quorum_overlap) (auto simp: supporters_members card_supporters)
  ultimately show False using q by linarith
qed

text \<open>Two boxes that reach a quorum for different choices name the members who voted twice.\<close>

theorem double_voters:
  assumes v: "valid_box bs" and v': "valid_box bs'"
    and r: "q \<le> votes r bs" and r': "q \<le> votes r' bs'"
  shows "2 * q \<le> card members + card (supporters r bs \<inter> supporters r' bs')"
  using assms by (intro quorum_overlap) (auto simp: supporters_members card_supporters)

lemma votes_mono: "votes r bs \<le> votes r (bs @ cs)"
  by (simp add: votes_def)

end

end
