(* ===== verification/Attestation.thy ===== *)
theory Attestation
  imports Types Codec Quorum
begin

text \<open>
  packages/node/src/consensus/attestation.rs: the signed attestation payload, the pool of
  attestations of ConsensusManager with equivocation detection, the quorum result, the
  Merkle root over its supporters, and the two fraud proofs. RwLocks are elided (the
  operations run one after the other, no lock is poisoned); the clock is an argument.
\<close>

section \<open>The signed payload\<close>

definition serialize_attestation_preimage :: "string \<Rightarrow> u64 \<Rightarrow> string \<Rightarrow> string \<Rightarrow> bytes" where
  "serialize_attestation_preimage chain height block_hash state_root =
     as_bytes ''UTXO_VM_ATTESTATION_V1''
     @ len_u32_be chain @ as_bytes chain
     @ u64_be height
     @ len_u32_be block_hash @ as_bytes block_hash
     @ len_u32_be state_root @ as_bytes state_root"

definition hash_attestation_payload :: "libs \<Rightarrow> string \<Rightarrow> u64 \<Rightarrow> string \<Rightarrow> string \<Rightarrow> bytes" where
  "hash_attestation_payload L chain height block_hash state_root =
     sha256 L (serialize_attestation_preimage chain height block_hash state_root)"

text \<open>
  sign_state_root with the key pair of the crate as two arguments, the x-only public key
  and the signing function.
\<close>

definition sign_state_root ::
  "libs \<Rightarrow> bytes \<Rightarrow> (bytes \<Rightarrow> bytes) \<Rightarrow> i64 \<Rightarrow> string \<Rightarrow> u64 \<Rightarrow> string \<Rightarrow> string \<Rightarrow> attestation" where
  "sign_state_root L xonly_pubkey sign now chain height block_hash state_root =
     \<lparr>att_chain = chain, att_block_height = height, att_block_hash = block_hash,
      att_state_root = state_root, att_validator_pubkey = hex_encode L xonly_pubkey,
      att_signature_hex = hex_encode L (sign (hash_attestation_payload L chain height block_hash state_root)),
      att_timestamp = now\<rparr>"

text \<open>The signature check both verifiers run once the public key is parsed.\<close>

definition verify_single :: "libs \<Rightarrow> bytes \<Rightarrow> attestation \<Rightarrow> bool" where
  "verify_single L xonly_pubkey a =
     (case hex_decode L (att_signature_hex a) of
        None \<Rightarrow> False
      | Some sig \<Rightarrow>
          if \<not> schnorr_sig_parse L sig then False
          else schnorr_verify L sig
                 (hash_attestation_payload L (att_chain a) (att_block_height a)
                    (att_block_hash a) (att_state_root a)) xonly_pubkey)"

definition verify_attestation :: "libs \<Rightarrow> attestation \<Rightarrow> bool" where
  "verify_attestation L a =
     (case hex_decode L (att_validator_pubkey a) of
        None \<Rightarrow> False
      | Some pubkey_bytes \<Rightarrow>
          if \<not> xonly_parse L pubkey_bytes then False
          else verify_single L pubkey_bytes a)"

section \<open>The Merkle root over attestations\<close>

definition attestation_leaf_input :: "attestation \<Rightarrow> bytes" where
  "attestation_leaf_input a =
     as_bytes ''ATTESTATION_LEAF_V1''
     @ len_u32_be (att_chain a) @ as_bytes (att_chain a)
     @ u64_be (att_block_height a)
     @ len_u32_be (att_block_hash a) @ as_bytes (att_block_hash a)
     @ len_u32_be (att_state_root a) @ as_bytes (att_state_root a)
     @ len_u32_be (att_validator_pubkey a) @ as_bytes (att_validator_pubkey a)
     @ len_u32_be (att_signature_hex a) @ as_bytes (att_signature_hex a)"

fun pair_level :: "libs \<Rightarrow> bytes list \<Rightarrow> bytes list" where
  "pair_level L [] = []"
| "pair_level L [x] = [sha256 L (x @ x)]"
| "pair_level L (x # y # r) = sha256 L (x @ y) # pair_level L r"

lemma length_pair_level: "length (pair_level L xs) = (length xs + 1) div 2"
  by (induction L xs rule: pair_level.induct) auto

function merkle_levels :: "libs \<Rightarrow> bytes list \<Rightarrow> bytes list" where
  "merkle_levels L level = (if length level > 1 then merkle_levels L (pair_level L level) else level)"
  by pat_completeness auto
termination
  by (relation "measure (\<lambda>(_, level). length level)") (auto simp: length_pair_level)

declare merkle_levels.simps [simp del]

definition compute_attestation_merkle_root :: "libs \<Rightarrow> attestation list \<Rightarrow> string" where
  "compute_attestation_merkle_root L as =
     (if as = [] then hex_encode L (replicate 32 0)
      else hex_encode L (merkle_levels L
             (map (\<lambda>a. sha256 L (attestation_leaf_input a)) (sort_key att_validator_pubkey as)) ! 0))"

section \<open>The consensus manager\<close>

text \<open>A HashSet is a list without duplicates, in order of insertion.\<close>

record consensus =
  cm_known_validators :: "string list"
  cm_attestations :: "(string \<times> u64, attestation list) table"
  cm_slashing_proofs :: "equivocation_proof list"
  cm_quorum_threshold :: nat

definition cm_new :: "nat \<Rightarrow> consensus" where
  "cm_new quorum_threshold =
     \<lparr>cm_known_validators = [], cm_attestations = [], cm_slashing_proofs = [],
      cm_quorum_threshold = quorum_threshold\<rparr>"

definition register_validator :: "string \<Rightarrow> consensus \<Rightarrow> consensus" where
  "register_validator pubkey_hex s =
     s\<lparr>cm_known_validators := List.insert pubkey_hex (cm_known_validators s)\<rparr>"

definition get_attestations :: "consensus \<Rightarrow> string \<Rightarrow> u64 \<Rightarrow> attestation list" where
  "get_attestations s chain height =
     (case tbl_get (cm_attestations s) (chain, height) of Some as \<Rightarrow> as | None \<Rightarrow> [])"

definition equivocation_of :: "i64 \<Rightarrow> attestation \<Rightarrow> attestation \<Rightarrow> equivocation_proof" where
  "equivocation_of now existing a =
     \<lparr>eqv_chain = att_chain a, eqv_block_height = att_block_height a,
      eqv_validator_pubkey = att_validator_pubkey a, eqv_first_attestation = existing,
      eqv_second_attestation = a, eqv_detected_at = now\<rparr>"

definition add_attestation :: "libs \<Rightarrow> i64 \<Rightarrow> attestation \<Rightarrow> consensus \<Rightarrow> bool \<times> consensus" where
  "add_attestation L now a s =
     (if \<not> verify_attestation L a then (False, s)
      else if cm_known_validators s = [] then (False, s)
      else if att_validator_pubkey a \<notin> set (cm_known_validators s) then (False, s)
      else
        let key = (att_chain a, att_block_height a);
            entry = get_attestations s (att_chain a) (att_block_height a);
            s1 = s\<lparr>cm_attestations := tbl_insert key entry (cm_attestations s)\<rparr>
        in case find (\<lambda>x. att_validator_pubkey x = att_validator_pubkey a) entry of
             Some existing \<Rightarrow>
               if att_state_root existing \<noteq> att_state_root a then
                 (False, s1\<lparr>cm_slashing_proofs := cm_slashing_proofs s1 @ [equivocation_of now existing a]\<rparr>)
               else (False, s1)
           | None \<Rightarrow>
               (True, s1\<lparr>cm_attestations := tbl_insert key (entry @ [a]) (cm_attestations s1)\<rparr>))"

definition is_quorum_reached :: "consensus \<Rightarrow> string \<Rightarrow> u64 \<Rightarrow> string \<Rightarrow> bool" where
  "is_quorum_reached s chain height state_root =
     (case tbl_get (cm_attestations s) (chain, height) of
        Some as \<Rightarrow> cm_quorum_threshold s \<le> length (filter (\<lambda>a. att_state_root a = state_root) as)
      | None \<Rightarrow> False)"

definition get_validator_count :: "consensus \<Rightarrow> nat" where
  "get_validator_count s = length (cm_known_validators s)"

definition get_slashing_proofs :: "consensus \<Rightarrow> equivocation_proof list" where
  "get_slashing_proofs s = cm_slashing_proofs s"

subsection \<open>The quorum result\<close>

text \<open>
  The grouping loop of build_quorum_result, and Iterator::max_by, which returns the last of
  the maximal elements. The code iterates a HashMap: here the groups come in key order, and
  quorum_result_any_order shows that no other order changes the result.
\<close>

definition root_groups :: "attestation list \<Rightarrow> (string, attestation list) table" where
  "root_groups as =
     fold (\<lambda>a g. tbl_insert (att_state_root a)
             ((case tbl_get g (att_state_root a) of Some l \<Rightarrow> l | None \<Rightarrow> []) @ [a]) g) as []"

definition group_le :: "string \<times> attestation list \<Rightarrow> string \<times> attestation list \<Rightarrow> bool" where
  "group_le a b \<longleftrightarrow> length (snd a) < length (snd b) \<or> length (snd a) = length (snd b) \<and> fst a \<le> fst b"

fun max_by :: "('a \<Rightarrow> 'a \<Rightarrow> bool) \<Rightarrow> 'a list \<Rightarrow> 'a option" where
  "max_by le [] = None"
| "max_by le (x # xs) = Some (foldl (\<lambda>m y. if le m y then y else m) x xs)"

definition quorum_result_from ::
  "libs \<Rightarrow> consensus \<Rightarrow> string \<Rightarrow> u64 \<Rightarrow> (string \<times> attestation list) list \<Rightarrow> quorum_result option" where
  "quorum_result_from L s chain height groups =
     (case max_by group_le groups of
        None \<Rightarrow> None
      | Some (winning_root, supporting) \<Rightarrow>
          if length supporting < cm_quorum_threshold s then None
          else Some
            \<lparr>qr_chain = chain, qr_block_height = height, qr_state_root = winning_root,
             qr_block_hash = (case supporting of [] \<Rightarrow> [] | a # _ \<Rightarrow> att_block_hash a),
             qr_supporting_attestations = supporting,
             qr_merkle_root = compute_attestation_merkle_root L supporting,
             qr_support_count = length (get_attestations s chain height),
             qr_quorum_threshold = cm_quorum_threshold s\<rparr>)"

definition build_quorum_result :: "libs \<Rightarrow> consensus \<Rightarrow> string \<Rightarrow> u64 \<Rightarrow> quorum_result option" where
  "build_quorum_result L s chain height =
     (let as = get_attestations s chain height
      in if as = [] then None else quorum_result_from L s chain height (root_groups as))"

definition detect_divergence :: "i64 \<Rightarrow> attestation \<Rightarrow> quorum_result \<Rightarrow> quorum_divergence_proof option" where
  "detect_divergence now operator_attestation qr =
     (if att_state_root operator_attestation = qr_state_root qr then None
      else Some
        \<lparr>qdp_chain = att_chain operator_attestation,
         qdp_block_height = att_block_height operator_attestation,
         qdp_operator_attestation = operator_attestation,
         qdp_quorum_result_root = qr_state_root qr,
         qdp_supporting_attestations = qr_supporting_attestations qr,
         qdp_merkle_root = qr_merkle_root qr, qdp_detected_at = now\<rparr>)"

definition verify_equivocation_proof :: "libs \<Rightarrow> equivocation_proof \<Rightarrow> bool" where
  "verify_equivocation_proof L p =
     (let a = eqv_first_attestation p; b = eqv_second_attestation p in
      if att_validator_pubkey a \<noteq> eqv_validator_pubkey p
         \<or> att_validator_pubkey b \<noteq> eqv_validator_pubkey p then False
      else if att_chain a \<noteq> eqv_chain p \<or> att_chain b \<noteq> eqv_chain p
         \<or> att_block_height a \<noteq> eqv_block_height p
         \<or> att_block_height b \<noteq> eqv_block_height p then False
      else if att_state_root a = att_state_root b then False
      else case hex_decode L (eqv_validator_pubkey p) of
             None \<Rightarrow> False
           | Some pubkey_bytes \<Rightarrow>
               if \<not> xonly_parse L pubkey_bytes then False
               else verify_single L pubkey_bytes a \<and> verify_single L pubkey_bytes b)"

section \<open>The payload is injective\<close>

lemma lp_append: "len_u32_be s @ as_bytes s @ r = lp_string s @ r"
  by (simp add: lp_string_def)

lemma lp_last: "len_u32_be s @ as_bytes s = lp_string s @ []"
  by (simp add: lp_string_def)

lemmas lp_cancel = lp_append lp_last lp_code.append_iff u64_code.append_iff

text \<open>
  The signed bytes determine chain, height, block hash and state root (for strings
  shorter than 4 GiB, so that the 32-bit length prefixes do not wrap): a signature for one
  claim can never be presented for another, and payloads of different claims never agree.
\<close>

theorem attestation_preimage_injective:
  assumes "short chain" "short bh" "short root" "short chain'" "short bh'" "short root'"
  shows "serialize_attestation_preimage chain h bh root = serialize_attestation_preimage chain' h' bh' root'
     \<longleftrightarrow> chain = chain' \<and> h = h' \<and> bh = bh' \<and> root = root'"
  using assms lp_code.enc_inj [of root root']
  by (auto simp: serialize_attestation_preimage_def lp_cancel)

lemma attestation_preimage_injective_witness:
  "serialize_attestation_preimage ''btc'' 1 ''ab'' ''r'' \<noteq> serialize_attestation_preimage ''btc'' 1 ''a'' ''br''"
  using attestation_preimage_injective [of "''btc''" "''ab''" "''r''" "''btc''" "''a''" "''br''" 1 1]
  by (simp add: short_def)

section \<open>The pool invariant\<close>

text \<open>
  Every list of the table is non-empty, holds verified attestations of that chain and
  height by known validators, at most one per validator; every recorded slashing proof
  passes verify_equivocation_proof and convicts a known validator whose first vote is in
  the pool.
\<close>

definition pool_ok :: "libs \<Rightarrow> string list \<Rightarrow> (string \<times> u64, attestation list) table \<Rightarrow> bool" where
  "pool_ok L known t \<longleftrightarrow> tbl_ok t \<and>
     (\<forall>c h as. tbl_get t (c, h) = Some as \<longrightarrow>
        as \<noteq> [] \<and> distinct (map att_validator_pubkey as) \<and>
        (\<forall>a \<in> set as. verify_attestation L a \<and> att_chain a = c \<and> att_block_height a = h
            \<and> att_validator_pubkey a \<in> set known))"

definition proof_ok :: "libs \<Rightarrow> consensus \<Rightarrow> equivocation_proof \<Rightarrow> bool" where
  "proof_ok L s p \<longleftrightarrow> verify_equivocation_proof L p
     \<and> eqv_validator_pubkey p \<in> set (cm_known_validators s)
     \<and> eqv_first_attestation p \<in> set (get_attestations s (eqv_chain p) (eqv_block_height p))"

definition consensus_ok :: "libs \<Rightarrow> consensus \<Rightarrow> bool" where
  "consensus_ok L s \<longleftrightarrow> distinct (cm_known_validators s)
     \<and> pool_ok L (cm_known_validators s) (cm_attestations s)
     \<and> (\<forall>p \<in> set (cm_slashing_proofs s). proof_ok L s p)"

lemma verify_attestation_single:
  "verify_attestation L a \<longleftrightarrow>
     (\<exists>pk. hex_decode L (att_validator_pubkey a) = Some pk \<and> xonly_parse L pk \<and> verify_single L pk a)"
  by (auto simp: verify_attestation_def split: option.splits)

lemma verify_equivocation_iff:
  "verify_equivocation_proof L p \<longleftrightarrow>
     (let a = eqv_first_attestation p; b = eqv_second_attestation p in
       att_validator_pubkey a = eqv_validator_pubkey p \<and> att_validator_pubkey b = eqv_validator_pubkey p
       \<and> att_chain a = eqv_chain p \<and> att_chain b = eqv_chain p
       \<and> att_block_height a = eqv_block_height p \<and> att_block_height b = eqv_block_height p
       \<and> att_state_root a \<noteq> att_state_root b
       \<and> verify_attestation L a \<and> verify_attestation L b)"
  by (auto simp: verify_equivocation_proof_def Let_def verify_attestation_single split: option.splits)

text \<open>The operations as commands, in the order a node receives them.\<close>

datatype consensus_op = Register string | Attest i64 attestation

fun consensus_step :: "libs \<Rightarrow> consensus_op \<Rightarrow> consensus \<Rightarrow> consensus" where
  "consensus_step L (Register pk) s = register_validator pk s"
| "consensus_step L (Attest now a) s = snd (add_attestation L now a s)"

lemma find_voter_None:
  "find (\<lambda>x. att_validator_pubkey x = pk) as = None \<longleftrightarrow> pk \<notin> att_validator_pubkey ` set as"
  by (auto simp: find_None_iff)

lemma find_voter_Some:
  "find (\<lambda>x. att_validator_pubkey x = pk) as = Some x \<Longrightarrow> x \<in> set as \<and> att_validator_pubkey x = pk"
  by (auto simp: find_Some_iff)

lemma get_attestations_insert:
  "get_attestations (s\<lparr>cm_attestations := tbl_insert (c, h) as (cm_attestations s)\<rparr>) c' h'
     = (if (c', h') = (c, h) then as else get_attestations s c' h')"
  by (simp add: get_attestations_def)

lemma get_attestations_some:
  "a \<in> set (get_attestations s c h) \<Longrightarrow>
     tbl_get (cm_attestations s) (c, h) = Some (get_attestations s c h)"
  by (cases "tbl_get (cm_attestations s) (c, h)") (auto simp: get_attestations_def)

lemma pool_entry:
  "pool_ok L k (cm_attestations s) \<Longrightarrow> a \<in> set (get_attestations s c h) \<Longrightarrow>
     verify_attestation L a \<and> att_chain a = c \<and> att_block_height a = h \<and> att_validator_pubkey a \<in> set k"
  using get_attestations_some [of a s c h] by (auto simp: pool_ok_def)

lemma pool_distinct:
  "pool_ok L k (cm_attestations s) \<Longrightarrow> distinct (map att_validator_pubkey (get_attestations s c h))"
  by (cases "tbl_get (cm_attestations s) (c, h)") (auto simp: get_attestations_def pool_ok_def)

lemma add_attestation_cases:
  obtains (rejected) "\<not> verify_attestation L a \<or> att_validator_pubkey a \<notin> set (cm_known_validators s)"
      "add_attestation L now a s = (False, s)"
  | (duplicate) x where "x \<in> set (get_attestations s (att_chain a) (att_block_height a))"
      "att_validator_pubkey x = att_validator_pubkey a" "verify_attestation L a"
      "att_validator_pubkey a \<in> set (cm_known_validators s)"
      "add_attestation L now a s = (False,
         s\<lparr>cm_attestations := tbl_insert (att_chain a, att_block_height a)
             (get_attestations s (att_chain a) (att_block_height a)) (cm_attestations s),
           cm_slashing_proofs := cm_slashing_proofs s @
             (if att_state_root x \<noteq> att_state_root a then [equivocation_of now x a] else [])\<rparr>)"
  | (accepted) "verify_attestation L a" "att_validator_pubkey a \<in> set (cm_known_validators s)"
      "att_validator_pubkey a \<notin> att_validator_pubkey ` set (get_attestations s (att_chain a) (att_block_height a))"
      "fst (add_attestation L now a s)"
      "snd (add_attestation L now a s) =
         s\<lparr>cm_attestations := tbl_insert (att_chain a, att_block_height a)
             (get_attestations s (att_chain a) (att_block_height a) @ [a])
             (tbl_insert (att_chain a, att_block_height a)
               (get_attestations s (att_chain a) (att_block_height a)) (cm_attestations s))\<rparr>"
proof -
  let ?e = "get_attestations s (att_chain a) (att_block_height a)"
  consider "\<not> verify_attestation L a \<or> att_validator_pubkey a \<notin> set (cm_known_validators s)"
    | "verify_attestation L a" "att_validator_pubkey a \<in> set (cm_known_validators s)" by blast
  then show thesis
  proof cases
    case 1
    then show ?thesis using rejected by (auto simp: add_attestation_def)
  next
    case 2
    show ?thesis
    proof (cases "find (\<lambda>x. att_validator_pubkey x = att_validator_pubkey a) ?e")
      case None
      moreover have "cm_known_validators s \<noteq> []" using 2 by auto
      moreover have "att_validator_pubkey a \<notin> att_validator_pubkey ` set ?e"
        using None by (simp add: find_voter_None)
      ultimately show ?thesis using 2 by (intro accepted) (simp_all add: add_attestation_def Let_def)
    next
      case (Some x)
      moreover have "cm_known_validators s \<noteq> []" using 2 by auto
      ultimately show ?thesis using 2 find_voter_Some [OF Some]
        by (intro duplicate [of x]) (simp_all add: add_attestation_def Let_def)
    qed
  qed
qed

lemma pool_ok_insert:
  assumes "pool_ok L k t"
    and "as \<noteq> []" "distinct (map att_validator_pubkey as)"
    and "\<And>a. a \<in> set as \<Longrightarrow> verify_attestation L a \<and> att_chain a = c \<and> att_block_height a = h
          \<and> att_validator_pubkey a \<in> set k"
  shows "pool_ok L k (tbl_insert (c, h) as t)"
  using assms by (auto simp: pool_ok_def)

lemma consensus_ok_cong:
  assumes "cm_known_validators s = cm_known_validators s'" "cm_attestations s = cm_attestations s'"
  shows "proof_ok L s p = proof_ok L s' p"
  using assms by (simp add: proof_ok_def get_attestations_def)

lemma consensus_ok_add:
  assumes ok: "consensus_ok L s"
  shows "consensus_ok L (snd (add_attestation L now a s))"
proof (cases rule: add_attestation_cases [where L = L and now = now and a = a and s = s])
  case rejected
  then show ?thesis using ok by simp
next
  case (duplicate x)
  let ?c = "att_chain a" and ?h = "att_block_height a"
  have pool: "pool_ok L (cm_known_validators s) (cm_attestations s)" using ok by (simp add: consensus_ok_def)
  have same: "tbl_insert (?c, ?h) (get_attestations s ?c ?h) (cm_attestations s) = cm_attestations s"
    by (rule tbl_insert_same [OF _ get_attestations_some [OF duplicate(1)]])
      (use pool in \<open>simp add: pool_ok_def\<close>)
  have x: "verify_attestation L x" "att_chain x = ?c" "att_block_height x = ?h"
    using pool_entry [OF pool duplicate(1)] by auto
  have "verify_equivocation_proof L (equivocation_of now x a)" if "att_state_root x \<noteq> att_state_root a"
    unfolding verify_equivocation_iff Let_def equivocation_of_def
    using that duplicate(2,3) x by simp
  then have "proof_ok L s (equivocation_of now x a)" if "att_state_root x \<noteq> att_state_root a"
    using that duplicate(1,4) by (simp add: proof_ok_def equivocation_of_def)
  moreover have s': "snd (add_attestation L now a s) = s\<lparr>cm_slashing_proofs := cm_slashing_proofs s @
      (if att_state_root x \<noteq> att_state_root a then [equivocation_of now x a] else [])\<rparr>"
    unfolding duplicate(5) same by simp
  moreover have "proof_ok L (s\<lparr>cm_slashing_proofs := ps\<rparr>) p = proof_ok L s p" for ps p
    by (rule consensus_ok_cong) simp_all
  ultimately show ?thesis
    using ok unfolding consensus_ok_def s' by (simp add: ball_Un)
next
  case accepted
  let ?c = "att_chain a" and ?h = "att_block_height a"
  let ?s' = "snd (add_attestation L now a s)"
  have pool: "pool_ok L (cm_known_validators s) (cm_attestations s)" using ok by (simp add: consensus_ok_def)
  have "pool_ok L (cm_known_validators ?s') (cm_attestations ?s')"
    unfolding accepted(5) tbl_insert_twice
    using pool_entry [OF pool] pool_distinct [OF pool, of ?c ?h] accepted(1-3)
    by (auto intro!: pool_ok_insert pool)
  moreover have "proof_ok L ?s' p" if "p \<in> set (cm_slashing_proofs ?s')" for p
    using that ok accepted(5) by (auto simp: consensus_ok_def proof_ok_def get_attestations_def)
  ultimately show ?thesis
    using ok by (simp add: consensus_ok_def accepted(5))
qed

lemma consensus_ok_register: "consensus_ok L s \<Longrightarrow> consensus_ok L (register_validator pk s)"
  by (auto simp: consensus_ok_def register_validator_def pool_ok_def proof_ok_def get_attestations_def)

lemma consensus_ok_step: "consensus_ok L s \<Longrightarrow> consensus_ok L (consensus_step L op s)"
  by (cases op) (auto simp: consensus_ok_add consensus_ok_register)

lemma consensus_ok_run: "consensus_ok L s \<Longrightarrow> consensus_ok L (fold (consensus_step L) ops s)"
  by (induction ops arbitrary: s) (auto simp: consensus_ok_step)

lemma consensus_ok_new: "consensus_ok L (cm_new q)"
  by (simp add: consensus_ok_def pool_ok_def cm_new_def)

text \<open>
  C17. In every state a node reaches from start-up by registering validators and receiving
  attestations (valid, forged, duplicate or conflicting, in any order): the pool holds only
  verified votes of known validators, one per validator, chain and height, and every
  recorded slashing proof is accepted by verify_equivocation_proof.
\<close>

theorem consensus_reachable_ok: "consensus_ok L (fold (consensus_step L) ops (cm_new q))"
  by (intro consensus_ok_run consensus_ok_new)

section \<open>Quorum\<close>

interpretation cmq: quorum_voting att_validator_pubkey att_state_root "set known" for known
  by unfold_locales simp

lemma pool_valid_box:
  "consensus_ok L s \<Longrightarrow> cmq.valid_box (cm_known_validators s) (get_attestations s c h)"
  using pool_entry pool_distinct by (fastforce simp: cmq.valid_box_def consensus_ok_def)

lemma quorum_reached_votes:
  "is_quorum_reached s c h r \<Longrightarrow> cm_quorum_threshold s \<le> cmq.votes r (get_attestations s c h)"
  by (auto simp: is_quorum_reached_def get_attestations_def cmq.votes_def split: option.splits)

text \<open>
  C18. Agreement: with a threshold above half of the registered validators, no two different
  state roots reach a quorum at the same chain and height in one node.
\<close>

theorem quorum_agreement:
  assumes "consensus_ok L s" "length (cm_known_validators s) < 2 * cm_quorum_threshold s"
    and "is_quorum_reached s chain height r" "is_quorum_reached s chain height r'"
  shows "r = r'"
proof (rule cmq.majority_unique [OF pool_valid_box [OF assms(1)]])
  show "card (set (cm_known_validators s)) < 2 * cm_quorum_threshold s"
    using assms(1,2) by (simp add: consensus_ok_def distinct_card)
qed (use assms(3,4) quorum_reached_votes in auto)

definition demo_attestation :: "string \<Rightarrow> string \<Rightarrow> attestation" where
  "demo_attestation pk root = sign_state_root demo_libs (as_bytes pk) (\<lambda>d. d @ as_bytes pk) 0 ''btc'' 7 ''h'' root"

definition demo_key :: "char \<Rightarrow> string" where
  "demo_key c = replicate 32 c"

text \<open>What signing needs of the crate: the signature parses and verifies under the key.\<close>

definition signer_ok :: "libs \<Rightarrow> bytes \<Rightarrow> (bytes \<Rightarrow> bytes) \<Rightarrow> bool" where
  "signer_ok L pk sign \<longleftrightarrow> xonly_parse L pk
     \<and> (\<forall>d. length d = 32 \<longrightarrow> schnorr_sig_parse L (sign d) \<and> schnorr_verify L (sign d) d pk)"

text \<open>
  A node's own attestation is accepted: what sign_state_root produces verifies, and
  add_attestation stores it in every pool where the key is registered and has not voted.
\<close>

theorem sign_then_accept:
  assumes L: "hex_roundtrip L" "sha256_len L" and sgn: "signer_ok L pk sign"
    and known: "hex_encode L pk \<in> set (cm_known_validators s)"
    and fresh: "\<forall>x \<in> set (get_attestations s chain h). att_validator_pubkey x \<noteq> hex_encode L pk"
    and a_def: "a = sign_state_root L pk sign now chain h bh root"
  shows "fst (add_attestation L now' a s)
    \<and> a \<in> set (get_attestations (snd (add_attestation L now' a s)) chain h)"
proof -
  have ver: "verify_attestation L a"
    using L sgn
    by (simp add: a_def verify_attestation_def verify_single_def sign_state_root_def hex_roundtrip_def
        signer_ok_def hash_attestation_payload_def sha256_len_def)
  have f: "att_validator_pubkey a = hex_encode L pk" "att_chain a = chain" "att_block_height a = h"
    by (simp_all add: a_def sign_state_root_def)
  show ?thesis
  proof (cases rule: add_attestation_cases [where L = L and now = now' and a = a and s = s])
    case rejected
    then show ?thesis using ver known f by simp
  next
    case (duplicate x)
    then show ?thesis using fresh f by auto
  next
    case accepted
    then show ?thesis using f by (simp add: get_attestations_def)
  qed
qed

lemma demo_signer: "length pk = 32 \<Longrightarrow> signer_ok demo_libs pk (\<lambda>d. d @ pk)"
  by (simp add: signer_ok_def demo_libs_def)

lemma sign_then_accept_witness:
  "fst (add_attestation demo_libs 0
     (sign_state_root demo_libs (replicate 32 7) (\<lambda>d. d @ replicate 32 7) 0 ''btc'' 7 ''h'' ''r'')
     (register_validator (hex_encode demo_libs (replicate 32 7)) (cm_new 1)))"
  using sign_then_accept [OF demo_libs_ok(2,1) demo_signer [of "replicate 32 7"],
      of "register_validator (hex_encode demo_libs (replicate 32 7)) (cm_new 1)" "''btc''" 7, OF _ _ _ refl]
  by (simp add: register_validator_def get_attestations_def cm_new_def)

lemma demo_attestation_verifies: "length pk = 32 \<Longrightarrow> verify_attestation demo_libs (demo_attestation pk root)"
  using demo_libs_ok demo_signer [of "as_bytes pk"]
  by (simp add: demo_attestation_def verify_attestation_def verify_single_def sign_state_root_def
      hex_roundtrip_def signer_ok_def hash_attestation_payload_def sha256_len_def)

lemma quorum_agreement_witness:
  "\<exists>s. is_quorum_reached s ''btc'' 7 ''r'' \<and> (\<forall>r'. is_quorum_reached s ''btc'' 7 r' \<longrightarrow> r' = ''r'')"
proof -
  let ?pk = "replicate 32 (CHR ''k'')"
  let ?a = "demo_attestation ?pk ''r''"
  let ?hex = "hex_encode demo_libs (as_bytes ?pk)"
  define s where "s = fold (consensus_step demo_libs) [Register ?hex, Attest 0 ?a] (cm_new 1)"
  have ok: "consensus_ok demo_libs s" unfolding s_def by (rule consensus_reachable_ok)
  have f: "att_validator_pubkey ?a = ?hex" "att_chain ?a = ''btc''" "att_block_height ?a = 7" "att_state_root ?a = ''r''"
    by (simp_all add: demo_attestation_def sign_state_root_def)
  have s: "s = \<lparr>cm_known_validators = [?hex], cm_attestations = [((''btc'', 7), [?a])],
      cm_slashing_proofs = [], cm_quorum_threshold = 1\<rparr>"
    by (simp add: s_def cm_new_def register_validator_def add_attestation_def f demo_attestation_verifies
        get_attestations_def Let_def)
  have reached: "is_quorum_reached s ''btc'' 7 ''r''"
    by (simp add: s is_quorum_reached_def tbl_get_def f)
  have "length (cm_known_validators s) < 2 * cm_quorum_threshold s" by (simp add: s)
  then show ?thesis using quorum_agreement [OF ok _ _ reached] reached by blast
qed

subsection \<open>The winner\<close>

lemma max_by_member:
  assumes total: "\<And>a b. le a b \<or> le b a" and trans: "\<And>a b c. le a b \<Longrightarrow> le b c \<Longrightarrow> le a c"
  shows "max_by le xs = Some m \<Longrightarrow> m \<in> set xs \<and> (\<forall>x \<in> set xs. le x m)"
proof (cases xs)
  case (Cons y ys)
  have "foldl (\<lambda>m y. if le m y then y else m) y ys \<in> set (y # ys)
      \<and> (\<forall>x \<in> set (y # ys). le x (foldl (\<lambda>m y. if le m y then y else m) y ys))" for y ys
  proof (induction ys rule: rev_induct)
    case Nil
    then show ?case using total by auto
  next
    case (snoc z ys)
    let ?m = "foldl (\<lambda>m y. if le m y then y else m) y ys"
    show ?case
    proof (cases "le ?m z")
      case True
      then have "\<forall>x \<in> set (y # ys). le x z" using snoc trans by blast
      then show ?thesis using True total [of z z] by simp
    next
      case False
      then have "le z ?m" using total by blast
      then show ?thesis using False snoc by auto
    qed
  qed
  then show "max_by le xs = Some m \<Longrightarrow> m \<in> set xs \<and> (\<forall>x \<in> set xs. le x m)"
    using Cons by auto
qed simp

lemma max_by_None [simp]: "max_by le xs = None \<longleftrightarrow> xs = []"
  by (cases xs) auto

lemma group_le_total: "group_le a b \<or> group_le b a"
  by (auto simp: group_le_def)

lemma group_le_trans: "group_le a b \<Longrightarrow> group_le b c \<Longrightarrow> group_le a c"
  by (auto simp: group_le_def)

lemma max_group: "max_by group_le gs = Some m \<Longrightarrow> m \<in> set gs \<and> (\<forall>x \<in> set gs. group_le x m)"
proof (rule max_by_member)
  show "group_le a b \<or> group_le b a" for a b by (rule group_le_total)
  show "group_le a c" if "group_le a b" "group_le b c" for a b c using that by (rule group_le_trans)
qed

lemma root_groups_snoc:
  "root_groups (as @ [a]) = tbl_insert (att_state_root a)
     ((case tbl_get (root_groups as) (att_state_root a) of Some l \<Rightarrow> l | None \<Rightarrow> []) @ [a]) (root_groups as)"
  by (simp add: root_groups_def)

lemma root_groups_get:
  "tbl_get (root_groups as) r =
     (let l = filter (\<lambda>a. att_state_root a = r) as in if l = [] then None else Some l)"
proof (induction as arbitrary: r rule: rev_induct)
  case Nil
  then show ?case by (simp add: root_groups_def)
next
  case (snoc a as)
  then show ?case
    by (auto simp: root_groups_snoc Let_def)
qed

lemma root_groups_ok: "tbl_ok (root_groups as)"
  by (induction as rule: rev_induct) (auto simp: root_groups_snoc, simp add: root_groups_def)

lemma root_groups_member:
  "(r, l) \<in> set (root_groups as) \<longleftrightarrow> l = filter (\<lambda>a. att_state_root a = r) as \<and> l \<noteq> []"
proof -
  have "(r, l) \<in> set (root_groups as) \<longleftrightarrow> tbl_get (root_groups as) r = Some l"
    using tbl_ok_get [OF root_groups_ok] tbl_get_Some_in by metis
  then show ?thesis by (auto simp: root_groups_get Let_def)
qed

lemma root_groups_Nil: "root_groups as = [] \<longleftrightarrow> as = []"
proof (cases as)
  case (Cons a as')
  then have "(att_state_root a, filter (\<lambda>x. att_state_root x = att_state_root a) as) \<in> set (root_groups as)"
    by (simp add: root_groups_member)
  then show ?thesis using Cons by auto
qed (simp add: root_groups_def)

lemma max_group_any_order:
  assumes "mset gs = mset (root_groups as)"
  shows "max_by group_le gs = max_by group_le (root_groups as)"
proof (cases "root_groups as = []")
  case True
  then show ?thesis using assms by simp
next
  case False
  have eq: "set gs = set (root_groups as)" using assms by (metis set_mset_mset)
  have "gs \<noteq> []" using assms False by auto
  then obtain m m' where m: "max_by group_le gs = Some m" and m': "max_by group_le (root_groups as) = Some m'"
    using False by (metis max_by_None option.exhaust)
  from max_group [OF m] max_group [OF m'] eq
  have in_m: "m \<in> set (root_groups as)" "m' \<in> set (root_groups as)" and le: "group_le m m'" "group_le m' m"
    by auto
  from le have "fst m = fst m'" by (auto simp: group_le_def)
  then have "m = m'"
    using in_m root_groups_member by (metis prod.collapse)
  then show ?thesis using m m' by simp
qed

definition root_votes :: "attestation list \<Rightarrow> string \<Rightarrow> nat" where
  "root_votes as r = length (filter (\<lambda>a. att_state_root a = r) as)"

definition root_best :: "attestation list \<Rightarrow> string \<Rightarrow> bool" where
  "root_best as w \<longleftrightarrow> (\<forall>r. root_votes as r < root_votes as w \<or> root_votes as r = root_votes as w \<and> r \<le> w)"

lemma quorum_winner:
  assumes "as \<noteq> []"
  obtains w where "max_by group_le (root_groups as) = Some (w, filter (\<lambda>a. att_state_root a = w) as)"
    "w \<in> att_state_root ` set as" "root_best as w"
proof -
  obtain w sup where m: "max_by group_le (root_groups as) = Some (w, sup)"
    using assms root_groups_Nil max_by_None by (metis option.exhaust surj_pair)
  then have sup: "sup = filter (\<lambda>a. att_state_root a = w) as" "sup \<noteq> []"
    and max: "\<And>g. g \<in> set (root_groups as) \<Longrightarrow> group_le g (w, sup)"
    using max_group [OF m] by (auto simp: root_groups_member)
  have "w \<in> att_state_root ` set as"
    using sup by (auto simp: filter_empty_conv)
  moreover have "root_votes as r < root_votes as w \<or> root_votes as r = root_votes as w \<and> r \<le> w" for r
  proof (cases "filter (\<lambda>a. att_state_root a = r) as = []")
    case True
    then show ?thesis using sup by (simp add: root_votes_def)
  next
    case False
    then show ?thesis
      using max [of "(r, filter (\<lambda>a. att_state_root a = r) as)"] sup(1)
      by (simp add: root_groups_member group_le_def root_votes_def)
  qed
  ultimately show thesis using that m sup(1) by (simp add: root_best_def)
qed

definition quorum_fields :: "libs \<Rightarrow> attestation list \<Rightarrow> string \<Rightarrow> u64 \<Rightarrow> quorum_result \<Rightarrow> bool" where
  "quorum_fields L as c h qr \<longleftrightarrow>
     qr_supporting_attestations qr = filter (\<lambda>a. att_state_root a = qr_state_root qr) as
   \<and> qr_merkle_root qr = compute_attestation_merkle_root L (qr_supporting_attestations qr)
   \<and> qr_block_hash qr = att_block_hash (hd (qr_supporting_attestations qr))
   \<and> qr_support_count qr = length as \<and> qr_chain qr = c \<and> qr_block_height qr = h"

lemma build_quorum_result_eq:
  assumes as: "get_attestations s c h \<noteq> []"
  shows "\<exists>q. build_quorum_result L s c h =
      (if root_votes (get_attestations s c h) (qr_state_root q) < cm_quorum_threshold s then None else Some q)
    \<and> qr_state_root q \<in> att_state_root ` set (get_attestations s c h)
    \<and> root_best (get_attestations s c h) (qr_state_root q)
    \<and> quorum_fields L (get_attestations s c h) c h q"
proof -
  let ?as = "get_attestations s c h"
  obtain w where w: "max_by group_le (root_groups ?as) = Some (w, filter (\<lambda>a. att_state_root a = w) ?as)"
    "w \<in> att_state_root ` set ?as" "root_best ?as w"
    using quorum_winner [OF as] by blast
  define sup where "sup = filter (\<lambda>a. att_state_root a = w) ?as"
  have "sup \<noteq> []" using w(2) by (auto simp: sup_def filter_empty_conv)
  then have bh: "(case sup of [] \<Rightarrow> [] | a # _ \<Rightarrow> att_block_hash a) = att_block_hash (hd sup)"
    by (cases sup) auto
  show ?thesis
    using as w bh
    by (intro exI [of _ "\<lparr>qr_chain = c, qr_block_height = h, qr_state_root = w,
             qr_block_hash = att_block_hash (hd sup), qr_supporting_attestations = sup,
             qr_merkle_root = compute_attestation_merkle_root L sup,
             qr_support_count = length ?as, qr_quorum_threshold = cm_quorum_threshold s\<rparr>"])
      (simp add: build_quorum_result_def quorum_result_from_def quorum_fields_def root_votes_def
        sup_def [symmetric])
qed

text \<open>
  C35. build_quorum_result: None exactly when no voted root has threshold many votes (or there
  is no vote); otherwise the root with the most votes, the greatest such root on a tie, with
  exactly its supporters in arrival order, their Merkle root, and the number of all votes of
  that height as support_count. Iterating the groups in another order changes nothing.
\<close>

theorem build_quorum_result_spec:
  "(build_quorum_result L s c h = None \<longleftrightarrow>
      (\<forall>a \<in> set (get_attestations s c h).
         root_votes (get_attestations s c h) (att_state_root a) < cm_quorum_threshold s))
   \<and> (\<forall>qr. build_quorum_result L s c h = Some qr \<longrightarrow>
        cm_quorum_threshold s \<le> root_votes (get_attestations s c h) (qr_state_root qr)
      \<and> root_best (get_attestations s c h) (qr_state_root qr)
      \<and> quorum_fields L (get_attestations s c h) c h qr)
   \<and> (\<forall>gs. mset gs = mset (root_groups (get_attestations s c h)) \<longrightarrow>
        quorum_result_from L s c h gs = quorum_result_from L s c h (root_groups (get_attestations s c h)))"
proof (intro conjI)
  let ?as = "get_attestations s c h"
  show "\<forall>gs. mset gs = mset (root_groups ?as) \<longrightarrow>
      quorum_result_from L s c h gs = quorum_result_from L s c h (root_groups ?as)"
  proof (intro allI impI)
    fix gs assume "mset gs = mset (root_groups ?as)"
    from max_group_any_order [OF this]
    show "quorum_result_from L s c h gs = quorum_result_from L s c h (root_groups ?as)"
      by (simp only: quorum_result_from_def)
  qed
  show "\<forall>qr. build_quorum_result L s c h = Some qr \<longrightarrow>
        cm_quorum_threshold s \<le> root_votes ?as (qr_state_root qr) \<and> root_best ?as (qr_state_root qr)
      \<and> quorum_fields L ?as c h qr"
  proof (cases "?as = []")
    case False
    then show ?thesis using build_quorum_result_eq [of s c h L] by (auto split: if_splits)
  qed (simp add: build_quorum_result_def)
  show "build_quorum_result L s c h = None \<longleftrightarrow>
      (\<forall>a \<in> set ?as. root_votes ?as (att_state_root a) < cm_quorum_threshold s)"
  proof (cases "?as = []")
    case False
    then obtain q where q: "build_quorum_result L s c h =
        (if root_votes ?as (qr_state_root q) < cm_quorum_threshold s then None else Some q)"
      "qr_state_root q \<in> att_state_root ` set ?as" "root_best ?as (qr_state_root q)"
      using build_quorum_result_eq by blast
    have "root_votes ?as r \<le> root_votes ?as (qr_state_root q)" for r
      using q(3) unfolding root_best_def by (metis less_or_eq_imp_le)
    then show ?thesis using q(1,2) by (auto intro: order.strict_trans1)
  qed (simp add: build_quorum_result_def)
qed

definition votes_221 :: consensus where
  "votes_221 = \<lparr>cm_known_validators = [],
     cm_attestations = [((''btc'', 7), [demo_attestation ''a'' ''r'', demo_attestation ''b'' ''s'',
       demo_attestation ''c'' ''r''])], cm_slashing_proofs = [], cm_quorum_threshold = 2\<rparr>"

lemma get_votes_221: "get_attestations votes_221 ''btc'' 7 =
   [demo_attestation ''a'' ''r'', demo_attestation ''b'' ''s'', demo_attestation ''c'' ''r'']"
  by (simp add: get_attestations_def votes_221_def tbl_get_def)

lemma demo_attestation_root [simp]: "att_state_root (demo_attestation k r) = r"
  by (simp add: demo_attestation_def sign_state_root_def)

lemma build_quorum_result_spec_witness:
  "\<exists>qr. build_quorum_result demo_libs votes_221 ''btc'' 7 = Some qr \<and> qr_state_root qr = ''r''
     \<and> qr_support_count qr = 3 \<and> length (qr_supporting_attestations qr) = 2"
proof -
  have none: "build_quorum_result demo_libs votes_221 ''btc'' 7 \<noteq> None"
    using build_quorum_result_spec [of demo_libs votes_221 "''btc''" 7]
    by (simp add: get_votes_221 root_votes_def) (simp add: votes_221_def)
  then obtain qr where qr: "build_quorum_result demo_libs votes_221 ''btc'' 7 = Some qr" by blast
  then have best: "root_best (get_attestations votes_221 ''btc'' 7) (qr_state_root qr)"
    and f: "quorum_fields demo_libs (get_attestations votes_221 ''btc'' 7) ''btc'' 7 qr"
    using build_quorum_result_spec [of demo_libs votes_221 "''btc''" 7] by blast+
  from best have "qr_state_root qr = ''r''"
    unfolding root_best_def get_votes_221 root_votes_def
    by (auto dest: spec [of _ "''r''"] split: if_splits)
  then show ?thesis using f qr by (simp add: quorum_fields_def get_votes_221)
qed


section \<open>The Merkle root of a quorum\<close>

text \<open>
  The Merkle root does not depend on the order in which a node received the votes of
  different validators, so all nodes with the same set of votes publish the same root.
\<close>

theorem merkle_root_order_independent:
  assumes "mset as = mset bs" "distinct (map att_validator_pubkey as)"
  shows "compute_attestation_merkle_root L as = compute_attestation_merkle_root L bs"
proof -
  have "as = [] \<longleftrightarrow> bs = []" using assms(1) by auto
  then show ?thesis
    using sort_key_distinct_perm [OF assms] by (simp add: compute_attestation_merkle_root_def)
qed

lemma merkle_root_order_independent_witness:
  "compute_attestation_merkle_root demo_libs [demo_attestation ''a'' ''r'', demo_attestation ''b'' ''s'']
   = compute_attestation_merkle_root demo_libs [demo_attestation ''b'' ''s'', demo_attestation ''a'' ''r'']"
  by (rule merkle_root_order_independent)
    (simp_all add: demo_attestation_def sign_state_root_def demo_libs_def as_bytes_def hex_digit_def)


subsection \<open>The root binds the votes\<close>

fun level_inputs :: "bytes list \<Rightarrow> bytes list" where
  "level_inputs [] = []"
| "level_inputs [x] = [x @ x]"
| "level_inputs (x # y # r) = (x @ y) # level_inputs r"

lemma pair_level_inputs: "pair_level L xs = map (sha256 L) (level_inputs xs)"
  by (induction xs rule: level_inputs.induct) auto

lemma level_inputs_inj:
  "length xs = length ys \<Longrightarrow> \<forall>x \<in> set xs. length x = 32 \<Longrightarrow> \<forall>y \<in> set ys. length y = 32 \<Longrightarrow>
     level_inputs xs = level_inputs ys \<Longrightarrow> xs = ys"
proof (induction xs arbitrary: ys rule: level_inputs.induct)
  case (2 x)
  then show ?case by (cases ys) auto
next
  case (3 x y r)
  then obtain x' y' r' where ys: "ys = x' # y' # r'"
    by (metis length_Suc_conv length_Cons)
  then show ?case using 3 by auto
qed simp

function merkle_inputs :: "libs \<Rightarrow> bytes list \<Rightarrow> bytes list" where
  "merkle_inputs L level =
     (if length level > 1 then level_inputs level @ merkle_inputs L (pair_level L level) else [])"
  by pat_completeness auto
termination
  by (relation "measure (\<lambda>(_, level). length level)") (auto simp: length_pair_level)

declare merkle_inputs.simps [simp del]

lemma map_sha_inj:
  "\<not> hash_collision L S \<Longrightarrow> set xs \<subseteq> S \<Longrightarrow> set ys \<subseteq> S \<Longrightarrow> map (sha256 L) xs = map (sha256 L) ys \<Longrightarrow> xs = ys"
proof (induction xs arbitrary: ys)
  case (Cons x xs)
  then obtain y ys' where ys: "ys = y # ys'" by (cases ys) auto
  then have "x = y" using Cons.prems unfolding hash_collision_def by auto
  then show ?case using Cons ys by auto
qed simp

lemma merkle_levels_inj:
  assumes "sha256_len L" "\<not> hash_collision L S"
  shows "length xs = length ys \<Longrightarrow> \<forall>x \<in> set xs. length x = 32 \<Longrightarrow> \<forall>y \<in> set ys. length y = 32 \<Longrightarrow>
    set (merkle_inputs L xs) \<subseteq> S \<Longrightarrow> set (merkle_inputs L ys) \<subseteq> S \<Longrightarrow>
    merkle_levels L xs = merkle_levels L ys \<Longrightarrow> xs = ys"
proof (induction "length xs" arbitrary: xs ys rule: less_induct)
  case less
  show ?case
  proof (cases "length xs > 1")
    case False
    then show ?thesis using less.prems by (simp add: merkle_levels.simps [of L xs] merkle_levels.simps [of L ys])
  next
    case True
    have in_xs: "merkle_inputs L xs = level_inputs xs @ merkle_inputs L (pair_level L xs)"
      and in_ys: "merkle_inputs L ys = level_inputs ys @ merkle_inputs L (pair_level L ys)"
      using True less.prems(1) by (simp_all add: merkle_inputs.simps [of L xs] merkle_inputs.simps [of L ys])
    have len: "\<forall>x \<in> set (pair_level L zs). length x = 32" for zs
      using assms(1) by (auto simp: pair_level_inputs sha256_len_def)
    have "pair_level L xs = pair_level L ys"
    proof (rule less.hyps)
      show "merkle_levels L (pair_level L xs) = merkle_levels L (pair_level L ys)"
        using less.prems(1,6) True by (simp add: merkle_levels.simps [of L xs] merkle_levels.simps [of L ys])
    qed (use less.prems True len in_xs in_ys in \<open>auto simp: length_pair_level\<close>)
    then have "level_inputs xs = level_inputs ys"
      using less.prems(4,5) in_xs in_ys map_sha_inj [OF assms(2)] by (auto simp: pair_level_inputs)
    then show ?thesis using less.prems level_inputs_inj by blast
  qed
qed

definition short_attestation :: "attestation \<Rightarrow> bool" where
  "short_attestation a \<longleftrightarrow> short (att_chain a) \<and> short (att_block_hash a) \<and> short (att_state_root a)
     \<and> short (att_validator_pubkey a) \<and> short (att_signature_hex a)"

lemma attestation_leaf_input_inj:
  assumes "short_attestation a" "short_attestation b" "attestation_leaf_input a = attestation_leaf_input b"
  shows "a\<lparr>att_timestamp := 0\<rparr> = b\<lparr>att_timestamp := 0\<rparr>"
proof -
  have "lp_string (att_signature_hex a) = lp_string (att_signature_hex b)"
    "att_chain a = att_chain b \<and> att_block_height a = att_block_height b \<and> att_block_hash a = att_block_hash b
     \<and> att_state_root a = att_state_root b \<and> att_validator_pubkey a = att_validator_pubkey b"
    using assms by (auto simp: attestation_leaf_input_def short_attestation_def lp_cancel)
  moreover from this have "att_signature_hex a = att_signature_hex b"
    using assms by (intro lp_code.enc_inj) (auto simp: short_attestation_def)
  ultimately show ?thesis by (cases a, cases b) simp
qed

definition leaf_inputs :: "attestation list \<Rightarrow> bytes list" where
  "leaf_inputs as = map attestation_leaf_input (sort_key att_validator_pubkey as)"

definition merkle_preimages :: "libs \<Rightarrow> attestation list \<Rightarrow> bytes set" where
  "merkle_preimages L as = set (leaf_inputs as) \<union> set (merkle_inputs L (map (sha256 L) (leaf_inputs as)))"

lemma length_merkle_levels: "xs \<noteq> [] \<Longrightarrow> length (merkle_levels L xs) = 1"
proof (induction "length xs" arbitrary: xs rule: less_induct)
  case less
  show ?case
  proof (cases "length xs > 1")
    case True
    then have "length (merkle_levels L (pair_level L xs)) = 1"
      by (intro less.hyps) (auto simp: length_pair_level simp flip: length_0_conv)
    then show ?thesis using True by (simp add: merkle_levels.simps [of L xs])
  next
    case False
    then obtain a where "xs = [a]" using less.prems by (cases xs) auto
    then show ?thesis by (simp add: merkle_levels.simps [of L "[a]"])
  qed
qed

lemma timestamp_map_inj:
  "\<forall>a \<in> set as. short_attestation a \<Longrightarrow> \<forall>b \<in> set bs. short_attestation b \<Longrightarrow>
   map attestation_leaf_input as = map attestation_leaf_input bs \<Longrightarrow>
   map (\<lambda>a. a\<lparr>att_timestamp := 0\<rparr>) as = map (\<lambda>a. a\<lparr>att_timestamp := 0\<rparr>) bs"
proof (induction as arbitrary: bs)
  case (Cons a as)
  then obtain b bs' where "bs = b # bs'" by (cases bs) auto
  then show ?case using Cons attestation_leaf_input_inj [of a b] by simp
qed simp

text \<open>
  Binding: two equally long lists of votes with the same Merkle root are the same votes
  up to order and timestamps, or the two computations exhibit a collision of SHA-256. (For
  lists of different length this fails: an odd last leaf is paired with itself, see
  merkle_root_duplicates_last.)
\<close>

theorem merkle_root_binding:
  assumes L: "hex_roundtrip L" "sha256_len L"
    and short: "\<forall>a \<in> set as \<union> set bs. short_attestation a" and len: "length as = length bs"
    and eq: "compute_attestation_merkle_root L as = compute_attestation_merkle_root L bs"
  shows "map (\<lambda>a. a\<lparr>att_timestamp := 0\<rparr>) (sort_key att_validator_pubkey as)
           = map (\<lambda>a. a\<lparr>att_timestamp := 0\<rparr>) (sort_key att_validator_pubkey bs)
       \<or> hash_collision L (merkle_preimages L as \<union> merkle_preimages L bs)"
proof (cases "as = []")
  case True
  then show ?thesis using len by simp
next
  case False
  let ?S = "merkle_preimages L as \<union> merkle_preimages L bs"
  let ?h = "\<lambda>as. map (sha256 L) (leaf_inputs as)"
  show ?thesis
  proof (rule disjCI)
    assume nc: "\<not> hash_collision L ?S"
    have root: "compute_attestation_merkle_root L xs = hex_encode L (merkle_levels L (?h xs) ! 0)" if "xs \<noteq> []" for xs
      using that by (simp add: compute_attestation_merkle_root_def leaf_inputs_def comp_def)
    have "length (?h zs) = length zs" for zs by (simp add: leaf_inputs_def)
    then have ne: "bs \<noteq> []" "?h as \<noteq> []" "?h bs \<noteq> []"
      using False len by (metis length_0_conv)+
    have "merkle_levels L (?h as) ! 0 = merkle_levels L (?h bs) ! 0"
      using eq root [OF False] root [OF ne(1)] L(1) by (metis hex_roundtrip_def option.inject)
    then have lv: "merkle_levels L (?h as) = merkle_levels L (?h bs)"
      using length_merkle_levels ne(2,3) by (intro nth_equalityI) auto
    have "?h as = ?h bs"
      by (rule merkle_levels_inj [OF L(2) nc _ _ _ _ _ lv])
        (use len L(2) in \<open>auto simp: merkle_preimages_def leaf_inputs_def sha256_len_def\<close>)
    then have "leaf_inputs as = leaf_inputs bs"
      by (rule map_sha_inj [OF nc, rotated 2]) (auto simp: merkle_preimages_def)
    then show "map (\<lambda>a. a\<lparr>att_timestamp := 0\<rparr>) (sort_key att_validator_pubkey as)
           = map (\<lambda>a. a\<lparr>att_timestamp := 0\<rparr>) (sort_key att_validator_pubkey bs)"
      using short by (intro timestamp_map_inj) (auto simp: leaf_inputs_def)
  qed
qed

lemma merkle_root_binding_witness:
  "\<exists>a b. a \<noteq> b \<and> compute_attestation_merkle_root demo_libs [a] = compute_attestation_merkle_root demo_libs [b]
     \<and> (a\<lparr>att_timestamp := 0\<rparr> = b\<lparr>att_timestamp := 0\<rparr>
        \<or> hash_collision demo_libs (merkle_preimages demo_libs [a] \<union> merkle_preimages demo_libs [b]))"
proof -
  define a where "a = \<lparr>att_chain = ''btc'', att_block_height = 7, att_block_hash = ''h'', att_state_root = ''r'',
    att_validator_pubkey = ''v'', att_signature_hex = ''s'', att_timestamp = 0\<rparr>"
  define b where "b = a\<lparr>att_timestamp := 5\<rparr>"
  have ne: "a \<noteq> b" by (simp add: a_def b_def)
  have sh: "short_attestation a" by (simp add: a_def short_attestation_def short_def)
  then have "\<forall>x \<in> set [a] \<union> set [b]. short_attestation x" by (simp add: b_def short_attestation_def)
  moreover have eq: "compute_attestation_merkle_root demo_libs [a] = compute_attestation_merkle_root demo_libs [b]"
    by (simp add: compute_attestation_merkle_root_def attestation_leaf_input_def b_def)
  ultimately show ?thesis
    using merkle_root_binding [OF demo_libs_ok(2,1), of "[a]" "[b]"] ne eq by auto
qed

lemma merkle_root_duplicates_last:
  assumes "att_validator_pubkey a \<le> att_validator_pubkey b" "att_validator_pubkey b \<le> att_validator_pubkey c"
  shows "compute_attestation_merkle_root L [a, b, c] = compute_attestation_merkle_root L [a, b, c, c]"
  using assms
  by (simp add: compute_attestation_merkle_root_def merkle_levels.simps insort_key_def)

end
