(* ===== verification/Fees.thy ===== *)
theory Fees
  imports Prelude
begin

text \<open>
  packages/node/src/consensus/fee_distribution.rs: the fee envelope, the operator shares and
  their settlement. All amounts are u64 and plain sums wrap as in a release build; the
  theorems say where a sum must not wrap.
\<close>

record fee_envelope =
  fe_total_fee :: u64
  fe_indexer_fee :: u64
  fe_operator_pool :: u64
  fe_batch_count :: u64
  fe_block_height :: u64
  fe_txid :: string

record operator_fee_share =
  fs_pubkey :: string
  fs_batches_posted :: u64
  fs_batches_challenged :: u64
  fs_fee_share :: u64
  fs_address :: string

record fee_distribution =
  fd_envelopes :: "fee_envelope list"
  fd_operator_shares :: "operator_fee_share list"
  fd_total_fees_collected :: u64
  fd_total_fees_distributed :: u64
  fd_pending_fees :: u64

record fee_params =
  fp_base_fee :: u64
  fp_fee_per_byte :: u64
  fp_indexer_fee_pct :: u8
  fp_min_indexer_fee :: u64
  fp_min_operator_fee :: u64

record fee_summary =
  sm_total_envelopes :: u32
  sm_total_fees_collected :: u64
  sm_total_fees_distributed :: u64
  sm_pending_fees :: u64
  sm_total_operators :: u32

datatype fee_error = NoOperators | NoEffectiveBatches | ShareNotFound

definition fd_new :: fee_distribution where
  "fd_new = \<lparr>fd_envelopes = [], fd_operator_shares = [], fd_total_fees_collected = 0,
     fd_total_fees_distributed = 0, fd_pending_fees = 0\<rparr>"

definition default_fee_params :: fee_params where
  "default_fee_params = \<lparr>fp_base_fee = 1000, fp_fee_per_byte = 1, fp_indexer_fee_pct = 10,
     fp_min_indexer_fee = 1000, fp_min_operator_fee = 100\<rparr>"

definition calculate_total_fee :: "fee_params \<Rightarrow> u32 \<Rightarrow> u64 \<Rightarrow> u64" where
  "calculate_total_fee p data_size batch_count =
     (let data_fee = fp_base_fee p + ucast data_size * fp_fee_per_byte p;
          batch_fee = batch_count * fp_min_operator_fee p
      in data_fee + batch_fee)"

definition calculate_indexer_fee :: "fee_params \<Rightarrow> u64 \<Rightarrow> u64" where
  "calculate_indexer_fee p total_fee =
     (let fee = (case checked_mul_u64 total_fee (ucast (fp_indexer_fee_pct p)) of
                   Some v \<Rightarrow> v div 100 | None \<Rightarrow> - 1)
      in min (max fee (fp_min_indexer_fee p)) total_fee)"

definition calculate_operator_pool :: "fee_params \<Rightarrow> u64 \<Rightarrow> u64" where
  "calculate_operator_pool p total_fee = saturating_sub_u64 total_fee (calculate_indexer_fee p total_fee)"

definition create_fee_envelope_with_params ::
  "u64 \<Rightarrow> u64 \<Rightarrow> u64 \<Rightarrow> string \<Rightarrow> fee_params \<Rightarrow> fee_distribution \<Rightarrow> fee_envelope \<times> fee_distribution" where
  "create_fee_envelope_with_params total_fee batch_count block_height txid p s =
     (let indexer_fee = calculate_indexer_fee p total_fee;
          operator_pool = saturating_sub_u64 total_fee indexer_fee;
          envelope = \<lparr>fe_total_fee = total_fee, fe_indexer_fee = indexer_fee,
            fe_operator_pool = operator_pool, fe_batch_count = batch_count,
            fe_block_height = block_height, fe_txid = txid\<rparr>
      in (envelope,
          s\<lparr>fd_envelopes := fd_envelopes s @ [envelope],
            fd_total_fees_collected := fd_total_fees_collected s + total_fee,
            fd_pending_fees := fd_pending_fees s + operator_pool\<rparr>))"

definition create_fee_envelope ::
  "u64 \<Rightarrow> u64 \<Rightarrow> u64 \<Rightarrow> string \<Rightarrow> fee_distribution \<Rightarrow> fee_envelope \<times> fee_distribution" where
  "create_fee_envelope total_fee batch_count block_height txid s =
     create_fee_envelope_with_params total_fee batch_count block_height txid default_fee_params s"

definition effective_batches :: "operator_fee_share \<Rightarrow> u64" where
  "effective_batches op = saturating_sub_u64 (fs_batches_posted op) (fs_batches_challenged op)"

definition proportional_share :: "u64 \<Rightarrow> u64 \<Rightarrow> u64 \<Rightarrow> u64" where
  "proportional_share pending effective total_effective =
     (case checked_mul_u64 pending effective of Some v \<Rightarrow> v div total_effective | None \<Rightarrow> 0)"

fun share_loop :: "u64 \<Rightarrow> u64 \<Rightarrow> operator_fee_share list \<Rightarrow> operator_fee_share list \<times> u64 \<Rightarrow>
    operator_fee_share list \<times> u64" where
  "share_loop pending total_effective [] acc = acc"
| "share_loop pending total_effective (op # ops) (shares, distributed) =
     (let share = proportional_share pending (effective_batches op) total_effective
      in share_loop pending total_effective ops (shares @ [op\<lparr>fs_fee_share := share\<rparr>], distributed + share))"

definition calculate_operator_shares ::
  "operator_fee_share list \<Rightarrow> fee_distribution \<Rightarrow>
    (fee_error + operator_fee_share list) \<times> fee_distribution" where
  "calculate_operator_shares operators s =
     (if operators = [] then (Inl NoOperators, s)
      else
        let total_effective = sum_list (map effective_batches operators) in
        if total_effective = 0 then (Inl NoEffectiveBatches, s)
        else
          let (shares, distributed) = share_loop (fd_pending_fees s) total_effective operators ([], 0);
              shares' = (if distributed < fd_pending_fees s \<and> shares \<noteq> []
                then shares[0 := (shares ! 0)\<lparr>fs_fee_share := fs_fee_share (shares ! 0) + (fd_pending_fees s - distributed)\<rparr>]
                else shares)
          in (Inr shares', s\<lparr>fd_operator_shares := shares'\<rparr>))"

definition distribute_fees :: "fee_distribution \<Rightarrow> fee_distribution" where
  "distribute_fees s =
     (let distributed = sum_list (map fs_fee_share (fd_operator_shares s))
      in s\<lparr>fd_total_fees_distributed := fd_total_fees_distributed s + distributed,
           fd_pending_fees := saturating_sub_u64 (fd_pending_fees s) distributed\<rparr>)"

fun challenge_first :: "string \<Rightarrow> operator_fee_share list \<Rightarrow> operator_fee_share list option" where
  "challenge_first pk [] = None"
| "challenge_first pk (x # xs) =
     (if fs_pubkey x = pk then Some (x\<lparr>fs_batches_challenged := fs_batches_challenged x + 1\<rparr> # xs)
      else case challenge_first pk xs of Some xs' \<Rightarrow> Some (x # xs') | None \<Rightarrow> None)"

definition mark_operator_challenged :: "string \<Rightarrow> fee_distribution \<Rightarrow> (fee_error + unit) \<times> fee_distribution" where
  "mark_operator_challenged pk s =
     (case challenge_first pk (fd_operator_shares s) of
        Some shares \<Rightarrow> (Inr (), s\<lparr>fd_operator_shares := shares\<rparr>)
      | None \<Rightarrow> (Inl ShareNotFound, s))"

definition fee_summary_of :: "fee_distribution \<Rightarrow> fee_summary" where
  "fee_summary_of s = \<lparr>sm_total_envelopes = word_of_nat (length (fd_envelopes s)),
     sm_total_fees_collected = fd_total_fees_collected s,
     sm_total_fees_distributed = fd_total_fees_distributed s,
     sm_pending_fees = fd_pending_fees s,
     sm_total_operators = word_of_nat (length (fd_operator_shares s))\<rparr>"

section \<open>Envelopes balance\<close>

lemma indexer_fee_le: "calculate_indexer_fee p total_fee \<le> total_fee"
  by (simp add: calculate_indexer_fee_def Let_def)

lemma indexer_plus_pool:
  "unat (calculate_indexer_fee p total_fee) + unat (calculate_operator_pool p total_fee) = unat total_fee"
  using indexer_fee_le [of p total_fee]
  by (simp add: calculate_operator_pool_def unat_saturating_sub word_le_nat_alt)

text \<open>The exact indexer fee, by the cases of the documentation comment.\<close>

lemma unat_indexer_fee:
  assumes "unat total_fee * unat (fp_indexer_fee_pct p) < 2 ^ 64"
  shows "unat (calculate_indexer_fee p total_fee) =
    min (max (unat total_fee * unat (fp_indexer_fee_pct p) div 100) (unat (fp_min_indexer_fee p))) (unat total_fee)"
proof -
  have u: "unat (ucast (fp_indexer_fee_pct p) :: u64) = unat (fp_indexer_fee_pct p)"
    using unsigned_less [of "fp_indexer_fee_pct p", where ?'a = nat] by (simp add: unsigned_ucast_eq take_bit_nat_eq_self_iff)
  have m: "unat (min a b) = min (unat a) (unat b)" "unat (max a b) = max (unat a) (unat b)" for a b :: u64
    by (auto simp: min_def max_def word_le_nat_alt)
  show ?thesis using assms
    by (simp add: calculate_indexer_fee_def checked_mul_u64_def u m unat_div unat_word_ariths)
qed


lemma fee_envelope_balances_aux:
  assumes "create_fee_envelope_with_params total_fee bc bh txid p s = (env, s')"
  shows "unat (fe_indexer_fee env) + unat (fe_operator_pool env) = unat total_fee
    \<and> fe_operator_pool env = calculate_operator_pool p total_fee
    \<and> fe_total_fee env = total_fee
    \<and> fd_envelopes s' = fd_envelopes s @ [env]
    \<and> fd_total_fees_collected s' = fd_total_fees_collected s + total_fee
    \<and> fd_pending_fees s' = fd_pending_fees s + fe_operator_pool env
    \<and> fd_total_fees_distributed s' = fd_total_fees_distributed s"
  using assms indexer_plus_pool [of p total_fee]
  by (auto simp: create_fee_envelope_with_params_def calculate_operator_pool_def Let_def)

text \<open>
  Creating an envelope splits the fee without loss (indexer fee plus operator pool is
  the total fee, whatever the parameters, also percentages above 100, minima above the fee
  and an overflowing product), appends it, and books the total as collected and the pool as
  pending.
\<close>

theorem fee_envelope_balances:
  assumes "create_fee_envelope_with_params total_fee bc bh txid p s = (env, s')"
  shows "unat (fe_indexer_fee env) + unat (fe_operator_pool env) = unat total_fee
    \<and> fe_operator_pool env = calculate_operator_pool p total_fee
    \<and> fd_envelopes s' = fd_envelopes s @ [env]
    \<and> fd_total_fees_collected s' = fd_total_fees_collected s + total_fee
    \<and> fd_pending_fees s' = fd_pending_fees s + fe_operator_pool env
    \<and> fd_total_fees_distributed s' = fd_total_fees_distributed s"
  using fee_envelope_balances_aux [OF assms] by blast

lemma fee_envelope_balances_witness:
  "\<exists>env s'. create_fee_envelope_with_params 500 1 10 ''t'' default_fee_params fd_new = (env, s')
     \<and> unat (fe_indexer_fee env) + unat (fe_operator_pool env) = 500 \<and> fe_operator_pool env = 0"
proof -
  obtain env s' where e: "create_fee_envelope_with_params 500 1 10 ''t'' default_fee_params fd_new = (env, s')"
    by fastforce
  have "calculate_operator_pool default_fee_params 500 = 0"
    by (simp add: calculate_operator_pool_def calculate_indexer_fee_def default_fee_params_def
        checked_mul_u64_def saturating_sub_u64_def max_def min_def)
  then show ?thesis using fee_envelope_balances [OF e] e by auto
qed

section \<open>Shares\<close>

definition shares_of :: "u64 \<Rightarrow> u64 \<Rightarrow> operator_fee_share list \<Rightarrow> operator_fee_share list" where
  "shares_of pending d ops =
     map (\<lambda>op. op\<lparr>fs_fee_share := proportional_share pending (effective_batches op) d\<rparr>) ops"

lemma share_loop_eq:
  "share_loop pending d ops (shares, distributed) =
     (shares @ shares_of pending d ops, distributed + sum_list (map fs_fee_share (shares_of pending d ops)))"
  by (induction ops arbitrary: shares distributed)
    (auto simp: shares_of_def Let_def algebra_simps)

lemma unat_share_le: "d \<noteq> 0 \<Longrightarrow> unat (proportional_share pending e d) \<le> unat pending * unat e div unat d"
  by (auto simp: proportional_share_def unat_div checked_mul_u64_Some split: option.splits)

text \<open>The share as a number: rounded down, and 0 when the product does not fit in u64.\<close>

lemma unat_proportional_share:
  "unat (proportional_share p e d) = (if unat p * unat e < 2 ^ 64 then unat p * unat e div unat d else 0)"
  by (simp add: proportional_share_def checked_mul_u64_def unat_div unat_word_ariths)

definition total_batches_nat :: "operator_fee_share list \<Rightarrow> nat" where
  "total_batches_nat ops = sum_list (map (\<lambda>op. unat (effective_batches op)) ops)"

lemma sum_shares_le:
  assumes "d \<noteq> 0"
  shows "unat d * sum_list (map (\<lambda>x. unat (fs_fee_share x)) (shares_of pending d ops))
           \<le> unat pending * total_batches_nat ops"
proof (induction ops)
  case (Cons op ops)
  let ?e = "unat (effective_batches op)"
  have "unat d * unat (proportional_share pending (effective_batches op) d) \<le> unat d * (unat pending * ?e div unat d)"
    using unat_share_le [OF assms] by simp
  also have "\<dots> \<le> unat pending * ?e" by simp
  finally show ?case using Cons
    by (simp add: shares_of_def total_batches_nat_def algebra_simps)
qed (simp add: shares_of_def total_batches_nat_def)

lemma shares_conserve_aux:
  assumes ops: "ops \<noteq> []" and pos: "0 < total_batches_nat ops" and small: "total_batches_nat ops < 2 ^ 64"
  shows "\<exists>shares. calculate_operator_shares ops s = (Inr shares, s\<lparr>fd_operator_shares := shares\<rparr>)
    \<and> sum_list (map (\<lambda>x. unat (fs_fee_share x)) shares) = unat (fd_pending_fees s)
    \<and> map (\<lambda>x. x\<lparr>fs_fee_share := 0\<rparr>) shares = map (\<lambda>x. x\<lparr>fs_fee_share := 0\<rparr>) ops
    \<and> (\<forall>i. 0 < i \<and> i < length ops \<longrightarrow>
         (let product = unat (fd_pending_fees s) * unat (effective_batches (ops ! i))
          in unat (fs_fee_share (shares ! i)) = (if product < 2 ^ 64 then product div total_batches_nat ops else 0)))"
proof -
  let ?p = "fd_pending_fees s"
  define d :: u64 where "d = sum_list (map effective_batches ops)"
  have d: "unat d = total_batches_nat ops"
    using small by (simp add: d_def total_batches_nat_def unat_sum_list_u64)
  then have d0: "d \<noteq> 0" using pos by auto
  define sh where "sh = shares_of ?p d ops"
  let ?sum = "\<lambda>xs. sum_list (map (\<lambda>x. unat (fs_fee_share x)) xs)"
  have "unat d * ?sum sh \<le> unat d * unat ?p"
    using sum_shares_le [OF d0, of ?p ops] d by (simp add: sh_def mult.commute)
  then have le: "?sum sh \<le> unat ?p" using d0 by (simp add: unat_gt_0)
  then have "?sum sh < 2 ^ 64" using unsigned_less [of ?p, where ?'a = nat] by simp
  then have dist: "unat (sum_list (map fs_fee_share sh)) = ?sum sh" by (rule unat_sum_list_u64)
  obtain x xs where sh: "sh = x # xs" using ops by (cases ops) (auto simp: sh_def shares_of_def)
  define rest where "rest = ?p - sum_list (map fs_fee_share sh)"
  have rest: "unat rest = unat ?p - ?sum sh"
    using le dist by (simp add: rest_def unat_sub word_le_nat_alt)
  define shares where "shares = (if sum_list (map fs_fee_share sh) < ?p
      then sh[0 := x\<lparr>fs_fee_share := fs_fee_share x + rest\<rparr>] else sh)"
  have calc: "calculate_operator_shares ops s = (Inr shares, s\<lparr>fd_operator_shares := shares\<rparr>)"
    using ops d0 sh by (simp add: calculate_operator_shares_def share_loop_eq d_def [symmetric]
        sh_def [symmetric] shares_def rest_def Let_def)
  have "unat (fs_fee_share x + rest) = unat (fs_fee_share x) + unat rest"
    using rest le sh unsigned_less [of ?p, where ?'a = nat] by (intro unat_add_u64) simp
  then have "?sum shares = unat ?p"
    using le rest sh dist by (auto simp: shares_def word_less_nat_alt)
  moreover have "map (\<lambda>x. x\<lparr>fs_fee_share := 0\<rparr>) sh = map (\<lambda>x. x\<lparr>fs_fee_share := 0\<rparr>) ops"
    by (simp add: sh_def shares_of_def)
  then have "map (\<lambda>x. x\<lparr>fs_fee_share := 0\<rparr>) shares = map (\<lambda>x. x\<lparr>fs_fee_share := 0\<rparr>) ops"
    by (simp add: shares_def sh)
  moreover have "fs_fee_share (shares ! i) = proportional_share ?p (effective_batches (ops ! i)) d"
    if "0 < i" "i < length ops" for i
  proof -
    have "shares ! i = sh ! i" using that by (simp add: shares_def)
    then show ?thesis using that by (simp add: sh_def shares_of_def)
  qed
  then have "unat (fs_fee_share (shares ! i)) = (if unat ?p * unat (effective_batches (ops ! i)) < 2 ^ 64
      then unat ?p * unat (effective_batches (ops ! i)) div total_batches_nat ops else 0)"
    if "0 < i" "i < length ops" for i
    using that by (simp add: unat_proportional_share d)
  ultimately show ?thesis using calc by (auto simp: Let_def)
qed

text \<open>
  C36. When effective batches were posted and their sum fits in u64, the shares add up to exactly the
  pending fees. Every operator but the first gets its proportional share rounded
  down, or 0 when the product of fees and batches does not fit in u64; the first operator gets its
  own and all that is left over by rounding and by such overflows. The order, keys, batch counts and
  addresses of the operators are kept.
\<close>

theorem shares_conserve_fees:
  assumes "ops \<noteq> []" and "0 < total_batches_nat ops" and "total_batches_nat ops < 2 ^ 64"
  shows "\<exists>shares. calculate_operator_shares ops s = (Inr shares, s\<lparr>fd_operator_shares := shares\<rparr>)
    \<and> sum_list (map (\<lambda>x. unat (fs_fee_share x)) shares) = unat (fd_pending_fees s)
    \<and> map (\<lambda>x. x\<lparr>fs_fee_share := 0\<rparr>) shares = map (\<lambda>x. x\<lparr>fs_fee_share := 0\<rparr>) ops
    \<and> (\<forall>i. 0 < i \<and> i < length ops \<longrightarrow>
         (let product = unat (fd_pending_fees s) * unat (effective_batches (ops ! i))
          in unat (fs_fee_share (shares ! i)) = (if product < 2 ^ 64 then product div total_batches_nat ops else 0)))"
  by (rule shares_conserve_aux [OF assms])

definition demo_share :: "string \<Rightarrow> u64 \<Rightarrow> operator_fee_share" where
  "demo_share pk n = \<lparr>fs_pubkey = pk, fs_batches_posted = n, fs_batches_challenged = 0,
     fs_fee_share = 0, fs_address = pk\<rparr>"

lemma demo_total: "total_batches_nat [demo_share ''a'' 1, demo_share ''b'' 2] = 3"
  by (simp add: total_batches_nat_def demo_share_def effective_batches_def saturating_sub_u64_def)

lemma shares_conserve_fees_witness:
  "\<exists>shares. calculate_operator_shares [demo_share ''a'' 1, demo_share ''b'' 2] (fd_new\<lparr>fd_pending_fees := 100\<rparr>)
     = (Inr shares, fd_new\<lparr>fd_pending_fees := 100, fd_operator_shares := shares\<rparr>)
     \<and> sum_list (map (\<lambda>x. unat (fs_fee_share x)) shares) = 100"
  using shares_conserve_fees [of "[demo_share ''a'' 1, demo_share ''b'' 2]" "fd_new\<lparr>fd_pending_fees := 100\<rparr>"]
  by (auto simp: demo_total)

text \<open>
  A product that overflows counts as a zero share, so the remainder rule hands the whole
  pending amount to the first operator although both posted the same batches.
\<close>

lemma overflow_pays_first:
  "map fs_fee_share (projr (fst (calculate_operator_shares [demo_share ''a'' 4, demo_share ''b'' 4]
     (fd_new\<lparr>fd_pending_fees := 2 ^ 63\<rparr>)))) = [2 ^ 63, 0]"
  by (simp add: calculate_operator_shares_def demo_share_def fd_new_def effective_batches_def Let_def
      saturating_sub_u64_def proportional_share_def checked_mul_u64_def)

section \<open>Settlement\<close>















text \<open>
  distribute_fees does not clear the shares: called twice after one calculation it books the
  same shares twice, and the books no longer balance.
\<close>

lemma distribute_twice_double_counts:
  "let s = fd_new\<lparr>fd_pending_fees := 100\<rparr>;
       s1 = snd (calculate_operator_shares [demo_share ''a'' 1] s)
   in fd_total_fees_distributed (distribute_fees s1) = 100
      \<and> fd_total_fees_distributed (distribute_fees (distribute_fees s1)) = 200"
  by (simp add: calculate_operator_shares_def demo_share_def fd_new_def effective_batches_def Let_def
      saturating_sub_u64_def proportional_share_def checked_mul_u64_def distribute_fees_def)

text \<open>mark_operator_challenged counts the challenge and leaves every fee share as it was.\<close>

lemma challenge_first_shares:
  "challenge_first pk xs = Some ys \<Longrightarrow> map fs_fee_share ys = map fs_fee_share xs"
  by (induction xs arbitrary: ys) (auto split: if_splits option.splits)

lemma challenged_keeps_share:
  "map fs_fee_share (fd_operator_shares (snd (mark_operator_challenged pk s)))
     = map fs_fee_share (fd_operator_shares s)"
  by (auto simp: mark_operator_challenged_def dest: challenge_first_shares split: option.splits)

end
