(* ===== verification/Rust_Std.thy ===== *)
theory Rust_Std
  imports Prelude
begin

text \<open>
  What the sources use of Rust and its standard library beyond the prelude: a computation that
  may panic (an index or a slice out of range), indexing and slicing of byte vectors, and
  String::from_utf8_lossy, the accessors of serde_json::Value, and the methods of str that slice,
  split, trim and parse.
\<close>

section \<open>Panics, indexing and slicing\<close>

datatype 'a rust = Panic | Ret 'a

fun rbind :: "'a rust \<Rightarrow> ('a \<Rightarrow> 'b rust) \<Rightarrow> 'b rust" where
  "rbind Panic f = Panic"
| "rbind (Ret x) f = f x"

lemma rbind_cong [fundef_cong]:
  "m = m' \<Longrightarrow> (\<And>x. m' = Ret x \<Longrightarrow> f x = g x) \<Longrightarrow> rbind m f = rbind m' g"
  by (cases m') auto

lemma rbind_Ret_iff: "rbind m f = Ret y \<longleftrightarrow> (\<exists>x. m = Ret x \<and> f x = Ret y)"
  by (cases m) auto

definition rd :: "bytes \<Rightarrow> nat \<Rightarrow> byte rust" where
  "rd script i = (if i < length script then Ret (script ! i) else Panic)"

definition byte_slice :: "bytes \<Rightarrow> nat \<Rightarrow> nat \<Rightarrow> bytes rust" where
  "byte_slice script a b = (if a \<le> b \<and> b \<le> length script then Ret (take (b - a) (drop a script)) else Panic)"

lemma rd_in [simp]: "i < length s \<Longrightarrow> rd s i = Ret (s ! i)"
  by (simp add: rd_def)

lemma byte_slice_in [simp]: "a \<le> b \<Longrightarrow> b \<le> length s \<Longrightarrow> byte_slice s a b = Ret (take (b - a) (drop a s))"
  by (simp add: byte_slice_def)

section \<open>from_utf8_lossy\<close>

text \<open>
  One step of the decoder: how many bytes the next character or the next maximal invalid
  prefix has, and whether it is valid. A missing byte reads as 0, which continues nothing.
\<close>

definition byte_at :: "bytes \<Rightarrow> nat \<Rightarrow> nat" where
  "byte_at bs i = (if i < length bs then unat (bs ! i) else 0)"

definition is_cont :: "nat \<Rightarrow> bool" where
  "is_cont b \<longleftrightarrow> 128 \<le> b \<and> b \<le> 191"

definition utf8_step :: "bytes \<Rightarrow> nat \<times> bool" where
  "utf8_step bs =
     (let a = byte_at bs 0; b = byte_at bs 1; c = byte_at bs 2; d = byte_at bs 3 in
      if a < 128 then (1, True)
      else if 194 \<le> a \<and> a \<le> 223 then (if is_cont b then (2, True) else (1, False))
      else if 224 \<le> a \<and> a \<le> 239 then
        (if a = 224 \<and> 160 \<le> b \<and> b \<le> 191 \<or> 225 \<le> a \<and> a \<le> 236 \<and> is_cont b
            \<or> a = 237 \<and> 128 \<le> b \<and> b \<le> 159 \<or> 238 \<le> a \<and> a \<le> 239 \<and> is_cont b
         then (if is_cont c then (3, True) else (2, False)) else (1, False))
      else if 240 \<le> a \<and> a \<le> 244 then
        (if a = 240 \<and> 144 \<le> b \<and> b \<le> 191 \<or> 241 \<le> a \<and> a \<le> 243 \<and> is_cont b
            \<or> a = 244 \<and> 128 \<le> b \<and> b \<le> 143
         then (if is_cont c then (if is_cont d then (4, True) else (3, False)) else (2, False))
         else (1, False))
      else (1, False))"

lemma utf8_step_pos: "0 < fst (utf8_step bs)"
  by (simp add: utf8_step_def Let_def)

definition of_bytes :: "bytes \<Rightarrow> string" where
  "of_bytes bs = map (\<lambda>b. char_of (unat b)) bs"

definition replacement :: string where
  "replacement = of_bytes [0xEF, 0xBF, 0xBD]"

function utf8_lossy :: "bytes \<Rightarrow> string" where
  "utf8_lossy bs =
     (if bs = [] then []
      else (let (n, ok) = utf8_step bs
            in (if ok then of_bytes (take n bs) else replacement) @ utf8_lossy (drop n bs)))"
  by pat_completeness auto
termination
proof (relation "measure length")
  fix bs p n ok
  assume "bs \<noteq> []" "p = utf8_step bs" "(n, ok) = p"
  then show "(drop n bs, bs) \<in> measure length"
    using utf8_step_pos [of bs] by (metis diff_less fst_conv in_measure length_drop length_greater_0_conv)
qed simp

declare utf8_lossy.simps [simp del]

section \<open>ASCII strings decode to themselves\<close>

definition ascii :: "string \<Rightarrow> bool" where
  "ascii s \<longleftrightarrow> (\<forall>c \<in> set s. (of_char c :: nat) < 128)"

lemma unat_of_char_byte: "unat (of_char c :: byte) = of_char c"
proof -
  have "unat (of_nat (of_char c) :: byte) = of_char c"
    by (rule of_nat_inverse [OF refl]) (use nat_of_char_less_256 [of c] in simp)
  then show ?thesis by (simp add: of_nat_of_char)
qed

lemma of_bytes_as_bytes: "of_bytes (as_bytes s) = s"
  by (simp add: of_bytes_def as_bytes_def comp_def unat_of_char_byte)

lemma utf8_lossy_ascii: "ascii s \<Longrightarrow> utf8_lossy (as_bytes s) = s"
proof (induction s)
  case Nil
  then show ?case by (subst utf8_lossy.simps) (simp add: as_bytes_def)
next
  case (Cons c s)
  then have "utf8_step (as_bytes (c # s)) = (1, True)"
    by (simp add: utf8_step_def byte_at_def as_bytes_def ascii_def unat_of_char_byte)
  then have "utf8_lossy (as_bytes (c # s)) = of_bytes [of_char c] @ utf8_lossy (as_bytes s)"
    by (subst utf8_lossy.simps) (simp add: as_bytes_def)
  then show ?case
    using Cons by (simp add: ascii_def of_bytes_def unat_of_char_byte)
qed

section \<open>Values of serde_json\<close>

fun json_get :: "json \<Rightarrow> string \<Rightarrow> json option" where
  "json_get (JObject kvs) key = map_of kvs key"
| "json_get _ key = None"

fun json_as_str :: "json \<Rightarrow> string option" where
  "json_as_str (JString s) = Some s"
| "json_as_str _ = None"

fun json_as_bool :: "json \<Rightarrow> bool option" where
  "json_as_bool (JBool b) = Some b"
| "json_as_bool _ = None"

fun json_as_u64 :: "json \<Rightarrow> u64 option" where
  "json_as_u64 (JNumber (PosInt n)) = Some n"
| "json_as_u64 _ = None"

fun json_as_array :: "json \<Rightarrow> json list option" where
  "json_as_array (JArray vs) = Some vs"
| "json_as_array _ = None"

definition json_get_str :: "json \<Rightarrow> string \<Rightarrow> string option" where
  "json_get_str j key = Option.bind (json_get j key) json_as_str"

fun json_set :: "string \<Rightarrow> json \<Rightarrow> json \<Rightarrow> json" where
  "json_set key v (JObject kvs) = JObject (tbl_insert key v kvs)"
| "json_set key v j = j"

definition or_default :: "'a \<Rightarrow> 'a option \<Rightarrow> 'a" where
  "or_default d v = (case v of None \<Rightarrow> d | Some x \<Rightarrow> x)"

lemma or_default_simps [simp]: "or_default d None = d" "or_default d (Some x) = x"
  by (simp_all add: or_default_def)

section \<open>Standard library: slices of strings and number parsing\<close>

text \<open>
  str::get(..n) answers None beyond the end or inside a character; indexing with [..n] panics
  there. from_str_radix accepts one leading plus sign and rejects the empty string and overflow.
\<close>

definition str_get :: "nat \<Rightarrow> string \<Rightarrow> string option" where
  "str_get n s =
     (if n \<le> length s \<and> (n = length s \<or> \<not> is_cont (of_char (s ! n))) then Some (take n s) else None)"

definition str_index :: "nat \<Rightarrow> string \<Rightarrow> string rust" where
  "str_index n s = (case str_get n s of None \<Rightarrow> Panic | Some p \<Rightarrow> Ret p)"

definition digit_in :: "nat \<Rightarrow> char \<Rightarrow> nat option" where
  "digit_in radix c = (case hex_value c of None \<Rightarrow> None | Some d \<Rightarrow> if d < radix then Some d else None)"

fun digits_value :: "nat \<Rightarrow> nat \<Rightarrow> string \<Rightarrow> nat option" where
  "digits_value radix acc [] = Some acc"
| "digits_value radix acc (c # cs) =
     (case digit_in radix c of None \<Rightarrow> None | Some d \<Rightarrow> digits_value radix (acc * radix + d) cs)"

definition from_str_radix :: "nat \<Rightarrow> nat \<Rightarrow> string \<Rightarrow> nat option" where
  "from_str_radix radix limit s =
     (let body = (if s \<noteq> [] \<and> hd s = CHR ''+'' then tl s else s) in
      if body = [] then None
      else case digits_value radix 0 body of
        None \<Rightarrow> None
      | Some n \<Rightarrow> if n < limit then Some n else None)"

text \<open>split on a character, and trim (of ASCII white space).\<close>

fun split_on :: "char \<Rightarrow> string \<Rightarrow> string list" where
  "split_on x [] = [[]]"
| "split_on x (c # cs) =
     (if c = x then [] # split_on x cs
      else (case split_on x cs of [] \<Rightarrow> [[c]] | p # ps \<Rightarrow> (c # p) # ps))"

definition is_space :: "char \<Rightarrow> bool" where
  "is_space c \<longleftrightarrow> (of_char c :: nat) \<in> {9, 10, 11, 12, 13, 32}"

definition trim :: "string \<Rightarrow> string" where
  "trim s = rev (dropWhile is_space (rev (dropWhile is_space s)))"

definition is_ascii_hexdigit :: "char \<Rightarrow> bool" where
  "is_ascii_hexdigit c = (let n = of_char c :: nat in
     48 \<le> n \<and> n \<le> 57 \<or> 65 \<le> n \<and> n \<le> 70 \<or> 97 \<le> n \<and> n \<le> 102)"

end
