(* ===== verification/Operators.thy ===== *)
theory Operators
  imports Rust_Std
begin

text \<open>
  packages/node/src/consensus/operator_set.rs: bonded operators, their status machine and
  the bond accounting. The f64 uptime is computed with the IEEE operations in the record
  float_ops, an argument of the two functions that use it; nothing else depends on it.
\<close>

record 'f float_ops =
  fl_of_u64 :: "u64 \<Rightarrow> 'f"
  fl_of_nat :: "nat \<Rightarrow> 'f"
  fl_add :: "'f \<Rightarrow> 'f \<Rightarrow> 'f"
  fl_mul :: "'f \<Rightarrow> 'f \<Rightarrow> 'f"
  fl_div :: "'f \<Rightarrow> 'f \<Rightarrow> 'f"
  fl_sum_start :: 'f
  fl_zero :: 'f
  fl_100 :: 'f

datatype operator_status = Active | Unbonding | Slashed | Exited

record 'f operator =
  op_pubkey :: string
  op_address :: string
  op_bond_amount :: u64
  op_bond_utxo :: "string option"
  op_status :: operator_status
  op_registered_at :: u64
  op_unbond_started_at :: "u64 option"
  op_last_batch_block :: "u64 option"
  op_last_batch_root :: "string option"
  op_total_batches :: u64
  op_missed_batches :: u64
  op_uptime_pct :: 'f

record operator_set_config =
  oc_min_operators :: u32
  oc_max_operators :: u32
  oc_honest_threshold :: u32
  oc_min_bond :: u64
  oc_unbond_delay :: u32
  oc_challenge_window :: u32
  oc_batch_interval :: u32

definition default_operator_set_config :: operator_set_config where
  "default_operator_set_config = \<lparr>oc_min_operators = 3, oc_max_operators = 10,
     oc_honest_threshold = 2, oc_min_bond = 100000000, oc_unbond_delay = 60,
     oc_challenge_window = 10, oc_batch_interval = 5\<rparr>"

record 'f operator_set =
  os_config :: operator_set_config
  os_operators :: "'f operator list"
  os_total_bond :: u64
  os_total_tvl :: u64

record 'f operator_set_metrics =
  om_total_operators :: u32
  om_active_operators :: u32
  om_total_bond :: u64
  om_total_tvl :: u64
  om_total_batches :: u64
  om_total_missed :: u64
  om_average_uptime :: 'f
  om_has_quorum :: bool
  om_bond_adequate :: bool

datatype operator_error =
    BondBelowMinimum u64 u64
  | InvalidOperatorPubkey nat
  | AlreadyRegistered
  | MaximumReached
  | OperatorNotFound
  | NotActive
  | NotUnbonding
  | NoUnbondStart
  | UnbondDelayNotMet u64

definition operator_set_new :: "operator_set_config \<Rightarrow> 'f operator_set" where
  "operator_set_new c = \<lparr>os_config = c, os_operators = [], os_total_bond = 0, os_total_tvl = 0\<rparr>"

definition register_operator ::
  "'f float_ops \<Rightarrow> string \<Rightarrow> string \<Rightarrow> u64 \<Rightarrow> string \<Rightarrow> u64 \<Rightarrow> 'f operator_set \<Rightarrow>
    (operator_error + unit) \<times> 'f operator_set" where
  "register_operator F pubkey address bond_amount bond_utxo block_height s =
     (if bond_amount < oc_min_bond (os_config s) then (Inl (BondBelowMinimum bond_amount (oc_min_bond (os_config s))), s)
      else if length pubkey \<noteq> 66 \<or> \<not> list_all is_ascii_hexdigit pubkey then
        (Inl (InvalidOperatorPubkey (length pubkey)), s)
      else if list_ex (\<lambda>op. op_pubkey op = pubkey) (os_operators s) then (Inl AlreadyRegistered, s)
      else if unat (oc_max_operators (os_config s)) \<le> length (os_operators s) then (Inl MaximumReached, s)
      else (Inr (),
        s\<lparr>os_operators := os_operators s @
            [\<lparr>op_pubkey = pubkey, op_address = address, op_bond_amount = bond_amount,
              op_bond_utxo = Some bond_utxo, op_status = Active, op_registered_at = block_height,
              op_unbond_started_at = None, op_last_batch_block = None, op_last_batch_root = None,
              op_total_batches = 0, op_missed_batches = 0, op_uptime_pct = fl_100 F\<rparr>],
          os_total_bond := os_total_bond s + bond_amount\<rparr>))"

text \<open>iter_mut().find: the first operator with the key, and its replacement in place.\<close>

definition find_operator :: "string \<Rightarrow> 'f operator list \<Rightarrow> 'f operator option" where
  "find_operator pubkey ops = find (\<lambda>op. op_pubkey op = pubkey) ops"

fun update_operator :: "string \<Rightarrow> ('f operator \<Rightarrow> 'f operator) \<Rightarrow> 'f operator list \<Rightarrow> 'f operator list" where
  "update_operator pubkey f [] = []"
| "update_operator pubkey f (op # ops) =
     (if op_pubkey op = pubkey then f op # ops else op # update_operator pubkey f ops)"

definition unbond_operator :: "string \<Rightarrow> u64 \<Rightarrow> 'f operator_set \<Rightarrow> (operator_error + unit) \<times> 'f operator_set" where
  "unbond_operator pubkey block_height s =
     (case find_operator pubkey (os_operators s) of
        None \<Rightarrow> (Inl OperatorNotFound, s)
      | Some op \<Rightarrow>
          if op_status op \<noteq> Active then (Inl NotActive, s)
          else (Inr (), s\<lparr>os_operators := update_operator pubkey
                 (\<lambda>op. op\<lparr>op_status := Unbonding, op_unbond_started_at := Some block_height\<rparr>) (os_operators s)\<rparr>))"

definition exit_operator :: "string \<Rightarrow> u64 \<Rightarrow> 'f operator_set \<Rightarrow> (operator_error + unit) \<times> 'f operator_set" where
  "exit_operator pubkey block_height s =
     (case find_operator pubkey (os_operators s) of
        None \<Rightarrow> (Inl OperatorNotFound, s)
      | Some op \<Rightarrow>
          if op_status op \<noteq> Unbonding then (Inl NotUnbonding, s)
          else case op_unbond_started_at op of
            None \<Rightarrow> (Inl NoUnbondStart, s)
          | Some started \<Rightarrow>
              let ready = started + ucast (oc_unbond_delay (os_config s)) in
              if block_height < ready then (Inl (UnbondDelayNotMet (ready - block_height)), s)
              else (Inr (), s\<lparr>os_operators := update_operator pubkey (\<lambda>op. op\<lparr>op_status := Exited\<rparr>) (os_operators s),
                              os_total_bond := os_total_bond s - op_bond_amount op\<rparr>))"

definition slash_operator :: "string \<Rightarrow> 'f operator_set \<Rightarrow> (operator_error + u64) \<times> 'f operator_set" where
  "slash_operator pubkey s =
     (case find_operator pubkey (os_operators s) of
        None \<Rightarrow> (Inl OperatorNotFound, s)
      | Some op \<Rightarrow>
          if op_status op \<noteq> Active then (Inl NotActive, s)
          else (Inr (op_bond_amount op),
                s\<lparr>os_operators := update_operator pubkey (\<lambda>op. op\<lparr>op_status := Slashed\<rparr>) (os_operators s),
                  os_total_bond := os_total_bond s - op_bond_amount op\<rparr>))"

definition record_batch :: "string \<Rightarrow> u64 \<Rightarrow> string \<Rightarrow> 'f operator_set \<Rightarrow> (operator_error + unit) \<times> 'f operator_set" where
  "record_batch pubkey block_height state_root s =
     (case find_operator pubkey (os_operators s) of
        None \<Rightarrow> (Inl OperatorNotFound, s)
      | Some op \<Rightarrow>
          if op_status op \<noteq> Active then (Inl NotActive, s)
          else (Inr (), s\<lparr>os_operators := update_operator pubkey
                 (\<lambda>op. op\<lparr>op_last_batch_block := Some block_height, op_last_batch_root := Some state_root,
                         op_total_batches := op_total_batches op + 1\<rparr>) (os_operators s)\<rparr>))"

definition missed_update :: "'f float_ops \<Rightarrow> 'f operator \<Rightarrow> 'f operator" where
  "missed_update F op =
     (let op' = op\<lparr>op_missed_batches := op_missed_batches op + 1\<rparr>;
          total_expected = op_total_batches op' + op_missed_batches op'
      in if 0 < total_expected
         then op'\<lparr>op_uptime_pct := fl_mul F (fl_div F (fl_of_u64 F (op_total_batches op')) (fl_of_u64 F total_expected)) (fl_100 F)\<rparr>
         else op')"

definition record_missed_batch :: "'f float_ops \<Rightarrow> string \<Rightarrow> 'f operator_set \<Rightarrow> (operator_error + unit) \<times> 'f operator_set" where
  "record_missed_batch F pubkey s =
     (case find_operator pubkey (os_operators s) of
        None \<Rightarrow> (Inl OperatorNotFound, s)
      | Some op \<Rightarrow> (Inr (), s\<lparr>os_operators := update_operator pubkey (missed_update F) (os_operators s)\<rparr>))"

definition active_operators :: "'f operator_set \<Rightarrow> 'f operator list" where
  "active_operators s = filter (\<lambda>op. op_status op = Active) (os_operators s)"

definition has_quorum :: "'f operator_set \<Rightarrow> bool" where
  "has_quorum s \<longleftrightarrow> unat (oc_honest_threshold (os_config s)) \<le> length (active_operators s)"

definition get_operator :: "'f operator_set \<Rightarrow> string \<Rightarrow> 'f operator option" where
  "get_operator s pubkey = find_operator pubkey (os_operators s)"

definition update_tvl :: "u64 \<Rightarrow> 'f operator_set \<Rightarrow> 'f operator_set" where
  "update_tvl tvl s = s\<lparr>os_total_tvl := tvl\<rparr>"

definition is_bond_adequate :: "'f operator_set \<Rightarrow> bool" where
  "is_bond_adequate s =
     (if os_total_tvl s = 0 then True
      else case checked_mul_u64 (os_total_tvl s) 10 of
             Some required \<Rightarrow> required \<le> os_total_bond s
           | None \<Rightarrow> False)"

definition operator_metrics :: "'f float_ops \<Rightarrow> 'f operator_set \<Rightarrow> 'f operator_set_metrics" where
  "operator_metrics F s =
     (let ops = os_operators s;
          avg_uptime = (if ops \<noteq> [] then
              fl_div F (foldl (fl_add F) (fl_sum_start F) (map op_uptime_pct ops)) (fl_of_nat F (length ops))
            else fl_zero F)
      in \<lparr>om_total_operators = word_of_nat (length ops),
          om_active_operators = word_of_nat (length (active_operators s)),
          om_total_bond = os_total_bond s, om_total_tvl = os_total_tvl s,
          om_total_batches = sum_list (map op_total_batches ops),
          om_total_missed = sum_list (map op_missed_batches ops),
          om_average_uptime = avg_uptime, om_has_quorum = has_quorum s,
          om_bond_adequate = is_bond_adequate s\<rparr>)"

section \<open>Commands and the status machine\<close>

datatype operator_cmd =
    CRegister string string u64 string u64
  | CUnbond string u64
  | CExit string u64
  | CSlash string
  | CBatch string u64 string
  | CMissed string
  | CTvl u64

fun operator_cmd_step :: "'f float_ops \<Rightarrow> operator_cmd \<Rightarrow> 'f operator_set \<Rightarrow> 'f operator_set" where
  "operator_cmd_step F (CRegister pk addr bond utxo h) s = snd (register_operator F pk addr bond utxo h s)"
| "operator_cmd_step F (CUnbond pk h) s = snd (unbond_operator pk h s)"
| "operator_cmd_step F (CExit pk h) s = snd (exit_operator pk h s)"
| "operator_cmd_step F (CSlash pk) s = snd (slash_operator pk s)"
| "operator_cmd_step F (CBatch pk h root) s = snd (record_batch pk h root s)"
| "operator_cmd_step F (CMissed pk) s = snd (record_missed_batch F pk s)"
| "operator_cmd_step F (CTvl tvl) s = update_tvl tvl s"

definition operator_run :: "'f float_ops \<Rightarrow> operator_cmd list \<Rightarrow> 'f operator_set \<Rightarrow> 'f operator_set" where
  "operator_run F cmds s = fold (operator_cmd_step F) cmds s"

text \<open>
  The reference machine: the status of the operator pk, with its unbonding height, after one command.
  Only three commands that name pk move it, and an exit only at its own height, which must have
  reached the recorded start plus the delay (in u64, where the sum wraps).
\<close>

fun next_status :: "u64 \<Rightarrow> string \<Rightarrow> operator_cmd \<Rightarrow> operator_status \<times> u64 option \<Rightarrow> operator_status \<times> u64 option" where
  "next_status delay pk (CUnbond k h) (Active, u) = (if k = pk then (Unbonding, Some h) else (Active, u))"
| "next_status delay pk (CSlash k) (Active, u) = (if k = pk then (Slashed, u) else (Active, u))"
| "next_status delay pk (CExit k h) (Unbonding, Some started) =
     (if k = pk \<and> started + delay \<le> h then (Exited, Some started) else (Unbonding, Some started))"
| "next_status delay pk cmd st = st"

fun_cases next_status_exited: "next_status delay pk cmd st = (Exited, u)"
fun_cases next_status_unbonding: "next_status delay pk cmd st = (Unbonding, u)"

definition status_of :: "'f operator_set \<Rightarrow> string \<Rightarrow> (operator_status \<times> u64 option) option" where
  "status_of s pk = map_option (\<lambda>op. (op_status op, op_unbond_started_at op)) (find_operator pk (os_operators s))"

lemma find_operator_update:
  assumes "\<And>op. op_pubkey (f op) = op_pubkey op"
  shows "find_operator pk (update_operator pk' f ops) =
    (if pk = pk' then map_option f (find_operator pk ops) else find_operator pk ops)"
  by (induction ops) (auto simp: find_operator_def assms)

lemma find_operator_append:
  "find_operator pk (ops @ [op]) =
     (case find_operator pk ops of Some x \<Rightarrow> Some x | None \<Rightarrow> if op_pubkey op = pk then Some op else None)"
  by (induction ops) (auto simp: find_operator_def)

lemma find_operator_key: "find_operator pk ops = Some op \<Longrightarrow> op_pubkey op = pk \<and> op \<in> set ops"
  by (auto simp: find_operator_def find_Some_iff)

lemma missed_update_fields [simp]:
  "op_pubkey (missed_update F op) = op_pubkey op" "op_status (missed_update F op) = op_status op"
  "op_unbond_started_at (missed_update F op) = op_unbond_started_at op"
  "op_bond_amount (missed_update F op) = op_bond_amount op"
  by (simp_all add: missed_update_def Let_def)


section \<open>Invariant\<close>

definition bonded :: "'f operator \<Rightarrow> bool" where
  "bonded op \<longleftrightarrow> op_status op = Active \<or> op_status op = Unbonding"

definition bond_weight :: "'f operator \<Rightarrow> u64" where
  "bond_weight op = (if bonded op then op_bond_amount op else 0)"

definition operator_ok :: "operator_set_config \<Rightarrow> 'f operator \<Rightarrow> bool" where
  "operator_ok c op \<longleftrightarrow> oc_min_bond c \<le> op_bond_amount op \<and> length (op_pubkey op) = 66
     \<and> list_all is_ascii_hexdigit (op_pubkey op)
     \<and> (op_status op = Unbonding \<or> op_status op = Exited \<longleftrightarrow> op_unbond_started_at op \<noteq> None)"

text \<open>
  Keys are unique and well formed, at most max_operators were admitted, every bond meets the
  minimum, the unbonding height is recorded exactly for unbonding and exited operators, and
  total_bond is the (u64) sum of the bonds still locked.
\<close>

definition operators_ok :: "'f operator_set \<Rightarrow> bool" where
  "operators_ok s \<longleftrightarrow> distinct (map op_pubkey (os_operators s))
     \<and> length (os_operators s) \<le> unat (oc_max_operators (os_config s))
     \<and> (\<forall>op \<in> set (os_operators s). operator_ok (os_config s) op)
     \<and> os_total_bond s = sum_list (map bond_weight (os_operators s))"

lemma keys_update_operator:
  "(\<And>op. op_pubkey (f op) = op_pubkey op) \<Longrightarrow> map op_pubkey (update_operator pk f ops) = map op_pubkey ops"
  by (induction ops) auto

lemma length_update_operator [simp]: "length (update_operator pk f ops) = length ops"
  by (induction ops) auto

lemma set_update_operator:
  "find_operator pk ops = Some op \<Longrightarrow> set (update_operator pk f ops) \<subseteq> insert (f op) (set ops)"
  by (induction ops) (auto simp: find_operator_def split: if_splits)

lemma sum_update_operator:
  "find_operator pk ops = Some op \<Longrightarrow>
     sum_list (map w (update_operator pk f ops)) = sum_list (map w ops) - w op + (w (f op) :: u64)"
  by (induction ops) (auto simp: find_operator_def split: if_splits)

lemma operators_ok_update:
  assumes ok: "operators_ok s" and f: "find_operator pk (os_operators s) = Some op"
    and key: "\<And>op. op_pubkey (g op) = op_pubkey op"
    and good: "operator_ok (os_config s) (g op)"
    and total: "b = os_total_bond s - bond_weight op + bond_weight (g op)"
  shows "operators_ok (s\<lparr>os_operators := update_operator pk g (os_operators s), os_total_bond := b\<rparr>)"
proof -
  have "set (update_operator pk g (os_operators s)) \<subseteq> insert (g op) (set (os_operators s))"
    by (rule set_update_operator [OF f])
  then show ?thesis
    using ok good total
    by (auto simp: operators_ok_def keys_update_operator [OF key] sum_update_operator [OF f])
qed

lemma operators_ok_update_same:
  assumes "operators_ok s" "find_operator pk (os_operators s) = Some op"
    "\<And>op. op_pubkey (g op) = op_pubkey op" "operator_ok (os_config s) (g op)" "bond_weight (g op) = bond_weight op"
  shows "operators_ok (s\<lparr>os_operators := update_operator pk g (os_operators s)\<rparr>)"
  using operators_ok_update [OF assms(1-4) refl] assms(5) by simp

lemma operator_ok_found: "operators_ok s \<Longrightarrow> find_operator pk (os_operators s) = Some op \<Longrightarrow> operator_ok (os_config s) op"
  using find_operator_key by (fastforce simp: operators_ok_def)

lemma list_ex_key: "list_ex (\<lambda>op. op_pubkey op = pk) ops \<longleftrightarrow> pk \<in> op_pubkey ` set ops"
  by (auto simp: list_ex_iff)

lemma operators_ok_register: "operators_ok s \<Longrightarrow> operators_ok (snd (register_operator F pk addr bond utxo h s))"
  by (auto simp: register_operator_def operators_ok_def list_ex_key operator_ok_def bond_weight_def bonded_def)

lemma operators_ok_step:
  assumes ok: "operators_ok s"
  shows "operators_ok (operator_cmd_step F cmd s)"
proof (cases cmd)
  case (CRegister pk addr bond utxo h)
  then show ?thesis by (simp add: ok operators_ok_register)
next
  case (CUnbond pk h)
  then show ?thesis using ok operator_ok_found [OF ok]
    by (auto simp: unbond_operator_def operator_ok_def bond_weight_def bonded_def
        intro!: operators_ok_update_same split: option.splits)
next
  case (CExit pk h)
  then show ?thesis using ok operator_ok_found [OF ok]
    by (auto simp: exit_operator_def operator_ok_def bond_weight_def bonded_def Let_def
        intro!: operators_ok_update split: option.splits)
next
  case (CSlash pk)
  show ?thesis
  proof (cases "find_operator pk (os_operators s)")
    case None
    then show ?thesis using ok CSlash by (simp add: slash_operator_def)
  next
    case (Some op)
    then show ?thesis using ok CSlash operator_ok_found [OF ok Some]
      by (auto simp: slash_operator_def operator_ok_def bond_weight_def bonded_def intro!: operators_ok_update)
  qed
next
  case (CBatch pk h root)
  show ?thesis
  proof (cases "find_operator pk (os_operators s)")
    case None
    then show ?thesis using ok CBatch by (simp add: record_batch_def)
  next
    case (Some op)
    then show ?thesis using ok CBatch operator_ok_found [OF ok Some]
      by (auto simp: record_batch_def operator_ok_def bond_weight_def bonded_def intro!: operators_ok_update_same)
  qed
next
  case (CMissed pk)
  then show ?thesis using ok operator_ok_found [OF ok]
    by (auto simp: record_missed_batch_def operator_ok_def bond_weight_def bonded_def
        intro!: operators_ok_update_same split: option.splits)
next
  case (CTvl tvl)
  then show ?thesis using ok by (simp add: update_tvl_def operators_ok_def)
qed

lemma operators_ok_run: "operators_ok s \<Longrightarrow> operators_ok (operator_run F cmds s)"
  by (induction cmds arbitrary: s) (auto simp: operator_run_def operators_ok_step)

text \<open>
  C12. In every reachable operator set the invariant holds; in particular total_bond is
  exactly the bonds of the active and unbonding operators, also as natural numbers as long
  as these bonds together stay below 2 to the 64 (so no subtraction ever underflows).
\<close>

theorem operator_set_reachable_ok:
  defines "locked \<equiv> (\<lambda>s. sum_list (map (\<lambda>op. unat (bond_weight op)) (os_operators s)))"
  shows "operators_ok (operator_run F cmds (operator_set_new c))
    \<and> (locked (operator_run F cmds (operator_set_new c)) < 2 ^ 64 \<longrightarrow>
         unat (os_total_bond (operator_run F cmds (operator_set_new c)))
           = locked (operator_run F cmds (operator_set_new c)))"
proof -
  have ok: "operators_ok (operator_run F cmds (operator_set_new c))"
    by (rule operators_ok_run) (simp add: operators_ok_def operator_set_new_def)
  then show ?thesis by (simp add: locked_def operators_ok_def unat_sum_list_u64)
qed

definition demo_floats :: "nat float_ops" where
  "demo_floats = \<lparr>fl_of_u64 = unat, fl_of_nat = (\<lambda>n. n), fl_add = (+), fl_mul = (*), fl_div = (div),
     fl_sum_start = 0, fl_zero = 0, fl_100 = 100\<rparr>"

definition demo_pubkey :: string where
  "demo_pubkey = replicate 66 (CHR ''a'')"

lemma demo_register:
  "operator_run demo_floats [CRegister demo_pubkey ''addr'' 200000000 ''t:0'' 5] (operator_set_new default_operator_set_config)
   = \<lparr>os_config = default_operator_set_config,
      os_operators = [\<lparr>op_pubkey = demo_pubkey, op_address = ''addr'', op_bond_amount = 200000000,
        op_bond_utxo = Some ''t:0'', op_status = Active, op_registered_at = 5, op_unbond_started_at = None,
        op_last_batch_block = None, op_last_batch_root = None, op_total_batches = 0, op_missed_batches = 0,
        op_uptime_pct = 100\<rparr>], os_total_bond = 200000000, os_total_tvl = 0\<rparr>"
  by (simp add: operator_run_def register_operator_def operator_set_new_def default_operator_set_config_def
      demo_pubkey_def list_all_iff is_ascii_hexdigit_def demo_floats_def)

lemma operator_set_reachable_ok_witness:
  "unat (os_total_bond (operator_run demo_floats [CRegister demo_pubkey ''addr'' 200000000 ''t:0'' 5]
     (operator_set_new default_operator_set_config))) = 200000000"
  using operator_set_reachable_ok [of demo_floats "[CRegister demo_pubkey ''addr'' 200000000 ''t:0'' 5]"
      default_operator_set_config]
  unfolding demo_register by (simp add: bond_weight_def bonded_def)

section \<open>Status transitions\<close>

lemma config_step: "os_config (operator_cmd_step F cmd s) = os_config s"
  by (cases cmd) (auto simp: register_operator_def unbond_operator_def exit_operator_def slash_operator_def
      record_batch_def record_missed_batch_def update_tvl_def Let_def split: option.splits)

lemma status_update:
  assumes "\<And>op. op_pubkey (f op) = op_pubkey op"
  shows "status_of (s\<lparr>os_operators := update_operator pk' f ops\<rparr>) pk =
    (if pk = pk' then map_option (\<lambda>op. (op_status (f op), op_unbond_started_at (f op))) (find_operator pk ops)
     else map_option (\<lambda>op. (op_status op, op_unbond_started_at op)) (find_operator pk ops))"
  by (simp add: status_of_def find_operator_update [OF assms] option.map_comp comp_def)

lemma status_update_bond:
  "status_of (s\<lparr>os_operators := ops, os_total_bond := b\<rparr>) pk = status_of (s\<lparr>os_operators := ops\<rparr>) pk"
  by (simp add: status_of_def)

lemma status_some:
  "status_of s pk = Some st \<longleftrightarrow>
     (\<exists>op. find_operator pk (os_operators s) = Some op \<and> st = (op_status op, op_unbond_started_at op))"
  by (auto simp: status_of_def)

lemmas status_cmd = unbond_operator_def exit_operator_def slash_operator_def record_batch_def
  record_missed_batch_def update_tvl_def

lemma status_cmd_step:
  assumes "status_of s pk = Some st"
  shows "status_of (operator_cmd_step F cmd s) pk = Some (next_status (ucast (oc_unbond_delay (os_config s))) pk cmd st)"
proof -
  obtain op where op: "find_operator pk (os_operators s) = Some op"
    "st = (op_status op, op_unbond_started_at op)"
    using assms by (auto simp: status_some)
  note status = status_update status_update_bond
  show ?thesis
  proof (cases cmd)
    case (CRegister pk' addr bond utxo h)
    then show ?thesis using op
      by (auto simp: register_operator_def status_of_def find_operator_append)
  next
    case (CUnbond pk' h)
    then show ?thesis using op assms
      by (cases "op_status op") (auto simp: status_cmd status split: option.splits)
  next
    case (CExit pk' h)
    then show ?thesis using op assms
      by (cases "op_status op"; cases "op_unbond_started_at op")
        (auto simp: status_cmd status Let_def not_less split: option.splits)
  next
    case (CSlash pk')
    then show ?thesis using op assms
      by (cases "op_status op") (auto simp: status_cmd status split: option.splits)
  next
    case (CBatch pk' h root)
    then show ?thesis using op assms by (auto simp: status_cmd status split: option.splits)
  next
    case (CMissed pk')
    then show ?thesis using op assms by (auto simp: status_cmd status split: option.splits)
  next
    case (CTvl tvl)
    then show ?thesis using assms by (auto simp: status_cmd status_of_def)
  qed
qed

lemma status_run:
  "status_of s pk = Some st \<Longrightarrow> status_of (operator_run F cmds s) pk
     = Some (fold (next_status (ucast (oc_unbond_delay (os_config s))) pk) cmds st)"
proof (induction cmds arbitrary: s st)
  case (Cons cmd cmds)
  from Cons.IH [OF status_cmd_step [OF Cons.prems, of F cmd]] show ?case
    by (simp add: operator_run_def config_step)
qed (simp add: operator_run_def)

lemma status_final: "fst st = Exited \<or> fst st = Slashed \<Longrightarrow> fold (next_status delay pk) cmds st = st"
proof (induction cmds)
  case (Cons cmd cmds)
  have "next_status delay pk cmd st = st"
    using Cons.prems by (cases "(delay, pk, cmd, st)" rule: next_status.cases) auto
  then show ?case using Cons by simp
qed simp

text \<open>Where an unbonding height comes from, and what an exit needs.\<close>

lemma unbonds_by_command:
  "next_status delay pk cmd st = (Unbonding, Some b) \<Longrightarrow> st = (Unbonding, Some b) \<or> cmd = CUnbond pk b"
  by (auto elim: next_status_unbonding split: if_splits)

lemma exits_by_command:
  "next_status delay pk cmd st = (Exited, u) \<Longrightarrow>
     st = (Exited, u) \<or> (\<exists>b h. u = Some b \<and> cmd = CExit pk h \<and> b + delay \<le> h \<and> st = (Unbonding, Some b))"
  by (auto elim: next_status_exited split: if_splits)

lemma status_unbonding:
  "fold (next_status delay pk) cmds st = (Unbonding, Some b) \<Longrightarrow> st = (Unbonding, Some b) \<or> CUnbond pk b \<in> set cmds"
proof (induction cmds rule: rev_induct)
  case (snoc cmd cmds)
  then show ?case using unbonds_by_command [of delay pk cmd "fold (next_status delay pk) cmds st" b] by auto
qed simp

lemma status_exited:
  "fold (next_status delay pk) cmds st = (Exited, u) \<Longrightarrow> st = (Exited, u)
     \<or> (\<exists>b h. u = Some b \<and> CExit pk h \<in> set cmds \<and> b + delay \<le> h \<and> (st = (Unbonding, Some b) \<or> CUnbond pk b \<in> set cmds))"
proof (induction cmds rule: rev_induct)
  case (snoc cmd cmds)
  let ?st = "fold (next_status delay pk) cmds st"
  have "next_status delay pk cmd ?st = (Exited, u)" using snoc.prems by simp
  from exits_by_command [OF this] show ?case
  proof
    assume "?st = (Exited, u)"
    from snoc.IH [OF this] show ?thesis by auto
  next
    assume "\<exists>b h. u = Some b \<and> cmd = CExit pk h \<and> b + delay \<le> h \<and> ?st = (Unbonding, Some b)"
    then obtain b h where "u = Some b" "cmd = CExit pk h" "b + delay \<le> h" "?st = (Unbonding, Some b)" by blast
    with status_unbonding [OF this(4)] show ?thesis by auto
  qed
qed simp

text \<open>
  C37. Once registered, an operator stays in the set, and its status after any commands is exactly
  what the reference machine next_status makes of them: active to unbonding, active to slashed, and
  unbonding to exited, the last only by an exit command for this operator at a height that has
  reached the recorded start of the unbonding plus unbond_delay (added in u64); slashed and exited
  are final.
\<close>

theorem operator_status_machine:
  assumes "status_of s pk = Some st"
  defines "delay \<equiv> ucast (oc_unbond_delay (os_config s))"
  shows "status_of (operator_run F cmds s) pk = Some (fold (next_status delay pk) cmds st)
    \<and> (fst st = Exited \<or> fst st = Slashed \<longrightarrow> status_of (operator_run F cmds s) pk = Some st)
    \<and> (\<forall>u. status_of (operator_run F cmds s) pk = Some (Exited, u) \<and> fst st \<noteq> Exited \<longrightarrow>
        (\<exists>b h. u = Some b \<and> CExit pk h \<in> set cmds \<and> b + delay \<le> h
           \<and> (st = (Unbonding, Some b) \<or> CUnbond pk b \<in> set cmds)))"
proof -
  have run: "status_of (operator_run F cmds s) pk = Some (fold (next_status delay pk) cmds st)"
    unfolding delay_def by (rule status_run [OF assms(1)])
  have "\<exists>b h. u = Some b \<and> CExit pk h \<in> set cmds \<and> b + delay \<le> h \<and> (st = (Unbonding, Some b) \<or> CUnbond pk b \<in> set cmds)"
    if "fold (next_status delay pk) cmds st = (Exited, u)" "fst st \<noteq> Exited" for u
    using status_exited [OF that(1)] that(2) by auto
  then show ?thesis using run status_final [of st delay pk cmds] by simp
qed

lemma operator_status_machine_witness:
  "status_of (operator_run demo_floats [CUnbond demo_pubkey 10, CExit demo_pubkey 20]
     (operator_run demo_floats [CRegister demo_pubkey ''addr'' 200000000 ''t:0'' 5]
        (operator_set_new default_operator_set_config))) demo_pubkey = Some (Unbonding, Some 10)
   \<and> status_of (operator_run demo_floats [CUnbond demo_pubkey 10, CExit demo_pubkey 20, CExit demo_pubkey 70]
     (operator_run demo_floats [CRegister demo_pubkey ''addr'' 200000000 ''t:0'' 5]
        (operator_set_new default_operator_set_config))) demo_pubkey = Some (Exited, Some 10)"
proof -
  let ?s = "operator_run demo_floats [CRegister demo_pubkey ''addr'' 200000000 ''t:0'' 5]
        (operator_set_new default_operator_set_config)"
  have st: "status_of ?s demo_pubkey = Some (Active, None)"
    unfolding demo_register by (simp add: status_of_def find_operator_def)
  have d: "ucast (oc_unbond_delay (os_config ?s)) = (60 :: u64)"
    unfolding demo_register by (simp add: default_operator_set_config_def)
  note run = operator_status_machine [OF st, unfolded d, THEN conjunct1, of demo_floats]
  show ?thesis unfolding run by simp
qed

text \<open>A fraud proof that arrives after the operator started to unbond cannot slash it.\<close>

lemma unbonding_not_slashable:
  "find_operator pk (os_operators s) = Some op \<Longrightarrow> op_status op = Unbonding \<Longrightarrow>
     slash_operator pk s = (Inl NotActive, s)"
  by (simp add: slash_operator_def)

end
