(* ===== verification/Store.thy ===== *)
theory Store
  imports Types Merkle_Tree
begin

text \<open>
  packages/node/src/storage/db.rs: the redb tables of StateStore with the in-memory sparse
  Merkle tree over the objects. Each write transaction is one state update. Tables hold the
  records themselves: the serde_json round trip of a stored record is the identity, and disk
  errors are left out, so a read of a present key always succeeds.
\<close>

record store =
  st_objects :: "(string, smart_object) table"
  st_seals :: "(string, string) table"
  st_transitions :: "(string, state_transition) table"
  st_blocks :: "(string, block_record) table"
  st_chain_meta :: "(string, u64) table"
  st_undo_logs :: "(u64, undo_log) table"
  st_bridge_transfers :: "(string, bridge_transfer) table"
  st_minted_proofs :: "(string, string) table"
  st_wasm :: "(string, bytes) table"
  st_smt :: smt

definition block_key :: "string \<Rightarrow> u64 \<Rightarrow> string" where
  "block_key chain height = chain @ '':'' @ dec_padded 20 (unat height)"

definition hash_key :: "libs \<Rightarrow> string \<Rightarrow> bytes" where
  "hash_key L key = sha256 L (as_bytes key)"

definition object_input :: "libs \<Rightarrow> smart_object \<Rightarrow> bytes" where
  "object_input L obj =
     as_bytes (obj_object_id obj) @ as_bytes (obj_code_hash obj) @ as_bytes (obj_seal obj)
     @ u64_be (obj_satoshis obj) @ as_bytes (obj_owner obj) @ json_to_vec L (obj_state_data obj)"

definition hash_object :: "libs \<Rightarrow> smart_object \<Rightarrow> bytes" where
  "hash_object L obj = sha256 L (object_input L obj)"

text \<open>The loop of open and of the rebuild after a rollback, over the objects in key order.\<close>

definition rebuild_smt :: "libs \<Rightarrow> (string \<times> smart_object) list \<Rightarrow> smt" where
  "rebuild_smt L objs = fold (\<lambda>(oid, obj). smt_update L (hash_key L oid) (hash_object L obj)) objs (smt_new L)"

definition store_open :: "libs \<Rightarrow> store \<Rightarrow> store" where
  "store_open L disk = disk\<lparr>st_smt := rebuild_smt L (st_objects disk)\<rparr>"

definition empty_store :: "libs \<Rightarrow> store" where
  "empty_store L = \<lparr>st_objects = [], st_seals = [], st_transitions = [], st_blocks = [],
     st_chain_meta = [], st_undo_logs = [], st_bridge_transfers = [], st_minted_proofs = [],
     st_wasm = [], st_smt = smt_new L\<rparr>"

definition save_object :: "libs \<Rightarrow> smart_object \<Rightarrow> store \<Rightarrow> store" where
  "save_object L obj s =
     (let seals1 = (case tbl_get (st_objects s) (obj_object_id obj) of
            Some prev \<Rightarrow> if obj_seal prev \<noteq> obj_seal obj then tbl_remove (obj_seal prev) (st_seals s) else st_seals s
          | None \<Rightarrow> st_seals s)
      in s\<lparr>st_objects := tbl_insert (obj_object_id obj) obj (st_objects s),
           st_seals := tbl_insert (obj_seal obj) (obj_object_id obj) seals1,
           st_smt := smt_update L (hash_key L (obj_object_id obj)) (hash_object L obj) (st_smt s)\<rparr>)"

definition get_object :: "store \<Rightarrow> string \<Rightarrow> smart_object option" where
  "get_object s object_id = tbl_get (st_objects s) object_id"

definition get_object_by_seal :: "store \<Rightarrow> string \<Rightarrow> smart_object option" where
  "get_object_by_seal s seal =
     (case tbl_get (st_seals s) seal of
        Some obj_id \<Rightarrow> get_object s obj_id
      | None \<Rightarrow> None)"

definition get_all_objects :: "store \<Rightarrow> smart_object list" where
  "get_all_objects s = map snd (st_objects s)"

definition save_transition :: "state_transition \<Rightarrow> store \<Rightarrow> store" where
  "save_transition t s = s\<lparr>st_transitions := tbl_insert (str_txid t) t (st_transitions s)\<rparr>"

definition get_transitions_for_object :: "store \<Rightarrow> string \<Rightarrow> state_transition list" where
  "get_transitions_for_object s object_id =
     sort_key str_block_height
       (filter (\<lambda>t. str_object_id t = object_id) (map snd (st_transitions s)))"

definition save_block :: "block_record \<Rightarrow> store \<Rightarrow> store" where
  "save_block b s = s\<lparr>st_blocks := tbl_insert (block_key (blk_chain b) (blk_block_height b)) b (st_blocks s)\<rparr>"

definition get_block :: "store \<Rightarrow> string \<Rightarrow> u64 \<Rightarrow> block_record option" where
  "get_block s chain height = tbl_get (st_blocks s) (block_key chain height)"

definition last_block_key :: "string \<Rightarrow> string" where
  "last_block_key chain = chain @ ''_last_block''"

definition get_last_sync_block :: "store \<Rightarrow> string \<Rightarrow> u64" where
  "get_last_sync_block s chain =
     (case tbl_get (st_chain_meta s) (last_block_key chain) of Some h \<Rightarrow> h | None \<Rightarrow> 0)"

definition set_last_sync_block :: "string \<Rightarrow> u64 \<Rightarrow> store \<Rightarrow> store" where
  "set_last_sync_block chain height s =
     s\<lparr>st_chain_meta := tbl_insert (last_block_key chain) height (st_chain_meta s)\<rparr>"

definition current_state_root :: "libs \<Rightarrow> store \<Rightarrow> string \<times> store" where
  "current_state_root L s =
     (let (root, t) = smt_root (st_smt s) in (hex_encode L root, s\<lparr>st_smt := t\<rparr>))"

definition get_state_proof :: "libs \<Rightarrow> store \<Rightarrow> string \<Rightarrow> inclusion_proof option" where
  "get_state_proof L s object_id = get_proof L (st_smt s) (hash_key L object_id)"

definition save_undo_log :: "undo_log \<Rightarrow> store \<Rightarrow> store" where
  "save_undo_log u s = s\<lparr>st_undo_logs := tbl_insert (undo_id u) u (st_undo_logs s)\<rparr>"

section \<open>Rollback\<close>

text \<open>
  sort_by with descending block heights is a stable sort; redb iterates the undo table in
  ascending id order, so logs of one height are undone in ascending id order.
\<close>

definition logs_above :: "string \<Rightarrow> u64 \<Rightarrow> (u64, undo_log) table \<Rightarrow> (u64 \<times> undo_log) list" where
  "logs_above chain target_height t =
     sort_key (\<lambda>(_, log). - int (unat (undo_block_height log)))
       (filter (\<lambda>(_, log). undo_chain log = chain \<and> target_height < undo_block_height log) t)"

definition drop_current_seal :: "undo_log \<Rightarrow> store \<Rightarrow> store" where
  "drop_current_seal log s =
     (case tbl_get (st_objects s) (undo_object_id log) of
        Some existing \<Rightarrow> s\<lparr>st_seals := tbl_remove (obj_seal existing) (st_seals s)\<rparr>
      | None \<Rightarrow> s)"

definition restored_object :: "u64 \<Rightarrow> undo_log \<Rightarrow> smart_object option" where
  "restored_object target_height log =
     (case (undo_prev_code_hash log, undo_prev_seal log, undo_prev_satoshis log, undo_prev_owner log,
            undo_prev_state_data log) of
        (Some code_hash, Some seal, Some sats, Some owner, Some state) \<Rightarrow>
          Some \<lparr>obj_object_id = undo_object_id log, obj_code_hash = code_hash, obj_seal = seal,
            obj_satoshis = sats, obj_owner = owner, obj_state_data = state,
            obj_created_at_block = (case undo_prev_created_at_block log of Some h \<Rightarrow> h | None \<Rightarrow> 0),
            obj_updated_at_block = (case undo_prev_updated_at_block log of Some h \<Rightarrow> h | None \<Rightarrow> target_height)\<rparr>
      | _ \<Rightarrow> None)"

definition undo_one :: "u64 \<Rightarrow> undo_log \<Rightarrow> store \<Rightarrow> store" where
  "undo_one target_height log s =
     (if undo_action log = ''CREATE'' then
        (let s1 = drop_current_seal log s
         in s1\<lparr>st_objects := tbl_remove (undo_object_id log) (st_objects s1)\<rparr>)
      else if undo_action log = ''UPDATE'' then
        (let s1 = drop_current_seal log s
         in case restored_object target_height log of
              Some prev \<Rightarrow>
                s1\<lparr>st_objects := tbl_insert (undo_object_id log) prev (st_objects s1),
                   st_seals := tbl_insert (obj_seal prev) (undo_object_id log) (st_seals s1)\<rparr>
            | None \<Rightarrow> s1)
      else s)"

definition stale_block_keys :: "string \<Rightarrow> u64 \<Rightarrow> (string, block_record) table \<Rightarrow> string list" where
  "stale_block_keys chain target_height t =
     map fst (filter (\<lambda>(k, rec). starts_with (chain @ '':'') k \<and> target_height < blk_block_height rec) t)"

definition stale_txids :: "u64 \<Rightarrow> (string, state_transition) table \<Rightarrow> string list" where
  "stale_txids target_height t = map fst (filter (\<lambda>(_, rec). target_height < str_block_height rec) t)"

definition rollback_to_block :: "libs \<Rightarrow> string \<Rightarrow> u64 \<Rightarrow> store \<Rightarrow> nat \<times> store" where
  "rollback_to_block L chain target_height s =
     (let logs = logs_above chain target_height (st_undo_logs s);
          s1 = fold (\<lambda>(_, log). undo_one target_height log) logs s;
          s2 = s1\<lparr>st_undo_logs := fold tbl_remove (map fst logs) (st_undo_logs s1),
                  st_blocks := fold tbl_remove (stale_block_keys chain target_height (st_blocks s1)) (st_blocks s1),
                  st_transitions := fold tbl_remove (stale_txids target_height (st_transitions s1)) (st_transitions s1),
                  st_chain_meta := tbl_insert (last_block_key chain) target_height (st_chain_meta s1)\<rparr>
      in (length logs,
          s2\<lparr>st_smt := rebuild_smt L (map (\<lambda>obj. (obj_object_id obj, obj)) (get_all_objects s2))\<rparr>))"

section \<open>Bridge and WASM tables\<close>

definition save_bridge_transfer :: "bridge_transfer \<Rightarrow> store \<Rightarrow> store" where
  "save_bridge_transfer t s = s\<lparr>st_bridge_transfers := tbl_insert (bt_id t) t (st_bridge_transfers s)\<rparr>"

definition get_bridge_transfer :: "store \<Rightarrow> string \<Rightarrow> bridge_transfer option" where
  "get_bridge_transfer s transfer_id = tbl_get (st_bridge_transfers s) transfer_id"

definition get_all_bridge_transfers :: "store \<Rightarrow> bridge_transfer list" where
  "get_all_bridge_transfers s = map snd (st_bridge_transfers s)"

definition get_all_minted_proofs :: "store \<Rightarrow> (string \<times> string) list" where
  "get_all_minted_proofs s = st_minted_proofs s"

definition check_and_insert_minted_proof :: "string \<Rightarrow> string \<Rightarrow> store \<Rightarrow> bool \<times> store" where
  "check_and_insert_minted_proof object_id transfer_id s =
     (case tbl_get (st_minted_proofs s) object_id of
        Some existing \<Rightarrow> (False, s)
      | None \<Rightarrow> (True, s\<lparr>st_minted_proofs := tbl_insert object_id transfer_id (st_minted_proofs s)\<rparr>))"

definition get_minted_proof :: "store \<Rightarrow> string \<Rightarrow> string option" where
  "get_minted_proof s object_id = tbl_get (st_minted_proofs s) object_id"

datatype wasm_error = WasmHashMismatch string string

definition save_wasm :: "libs \<Rightarrow> string \<Rightarrow> bytes \<Rightarrow> store \<Rightarrow> (wasm_error + unit) \<times> store" where
  "save_wasm L code_hash wasm_bytes s =
     (let computed = hex_encode L (sha256 L wasm_bytes) in
      if computed \<noteq> code_hash then (Inl (WasmHashMismatch code_hash computed), s)
      else (Inr (), s\<lparr>st_wasm := tbl_insert code_hash wasm_bytes (st_wasm s)\<rparr>))"

definition get_wasm :: "store \<Rightarrow> string \<Rightarrow> bytes option" where
  "get_wasm s code_hash = tbl_get (st_wasm s) code_hash"


section \<open>The block key\<close>

text \<open>
  Blocks of different chains or heights never share a key: the twenty digits of the
  height can be read off the end of the key, whatever characters the chain name has.
\<close>

theorem block_key_injective: "block_key c h = block_key c' h' \<longleftrightarrow> c = c' \<and> h = h'"
proof
  assume eq: "block_key c h = block_key c' h'"
  then have "length c = length c'"
    by (metis block_key_def add_right_cancel length_append length_dec_padded_u64)
  with eq have "c = c'" "dec_padded 20 (unat h) = dec_padded 20 (unat h')"
    by (simp_all add: block_key_def)
  then show "c = c' \<and> h = h'" using dec_padded_inj by (auto simp: word_unat_eq_iff)
qed simp

section \<open>The store commits to its objects\<close>

definition object_updates :: "libs \<Rightarrow> (string \<times> smart_object) list \<Rightarrow> (bytes \<times> bytes) list" where
  "object_updates L t = map (\<lambda>(oid, obj). (hash_key L oid, hash_object L obj)) t"

lemma rebuild_smt_updates: "rebuild_smt L t = apply_updates L (object_updates L t) (smt_new L)"
proof -
  have "fold (\<lambda>(oid, obj). smt_update L (hash_key L oid) (hash_object L obj)) t m =
      apply_updates L (object_updates L t) m" for m
    by (induction t arbitrary: m) (auto simp: apply_updates_def object_updates_def)
  then show ?thesis by (simp add: rebuild_smt_def)
qed

text \<open>
  What the commitment needs of the hash: no two of these object ids share a key hash and no
  object hashes to zero, which the tree would take for a deletion.
\<close>

definition hash_ok :: "libs \<Rightarrow> (string \<times> smart_object) list \<Rightarrow> bool" where
  "hash_ok L t \<longleftrightarrow> sha256_len L \<and> inj_on (hash_key L) (fst ` set t)
     \<and> (\<forall>(oid, obj) \<in> set t. hash_object L obj \<noteq> zeros32)"

lemma object_updates_ok: "sha256_len L \<Longrightarrow> updates_ok (object_updates L t)"
  by (induction t) (auto simp: updates_ok_def object_updates_def sha256_len_def key_ok_def hash_key_def hash_object_def)

lemma updates_content_snoc: "updates_content (ops @ [(k, v)]) = spec_update k v (updates_content ops)"
  by (simp add: updates_content_def)

lemma object_content:
  assumes "hash_ok L t" "distinct (map fst t)"
  shows "updates_content (object_updates L t) k = Some v \<longleftrightarrow>
    (\<exists>oid obj. (oid, obj) \<in> set t \<and> k = hash_key L oid \<and> v = hash_object L obj)"
  using assms
proof (induction t arbitrary: k v rule: rev_induct)
  case Nil
  then show ?case by (simp add: updates_content_def object_updates_def)
next
  case (snoc x t)
  obtain oid obj where x: "x = (oid, obj)" by fastforce
  have ok: "hash_ok L t" "distinct (map fst t)" and nz: "hash_object L obj \<noteq> zeros32" and new: "oid \<notin> fst ` set t"
    and inj: "inj_on (hash_key L) (insert oid (fst ` set t))"
    using snoc.prems by (auto simp: hash_ok_def x)
  have upd: "updates_content (object_updates L (t @ [x])) =
      (updates_content (object_updates L t))(hash_key L oid := Some (hash_object L obj))"
    using nz by (simp add: object_updates_def x updates_content_snoc spec_update_def)
  have other: "hash_key L oid' \<noteq> hash_key L oid" if "(oid', obj') \<in> set t" for oid' obj'
    using that inj new by (metis fst_conv image_eqI inj_onD insertCI)
  show ?case
    unfolding upd using snoc.IH [OF ok] by (auto simp: x) (use other in metis)+
qed

lemma content_insert:
  assumes "hash_ok L (tbl_insert oid obj t)" "tbl_ok t" "hash_ok L t"
  shows "updates_content (object_updates L (tbl_insert oid obj t)) =
    (updates_content (object_updates L t))(hash_key L oid := Some (hash_object L obj))"
proof (rule ext)
  fix k
  have d: "distinct (map fst (tbl_insert oid obj t))" "distinct (map fst t)"
    using assms(2) tbl_ok_insert [OF assms(2), of oid obj] by (simp_all add: tbl_ok_def)
  have mem: "(oid', x) \<in> set (tbl_insert oid obj t) \<longleftrightarrow> (if oid' = oid then x = obj else (oid', x) \<in> set t)" for oid' x
    using tbl_ok_get [of "tbl_insert oid obj t" oid' x] tbl_ok_get [OF assms(2), of oid' x]
      tbl_get_Some_in [of "tbl_insert oid obj t" oid' x] tbl_get_Some_in [of t oid' x] tbl_ok_insert [OF assms(2)]
    by (auto split: if_splits)
  have inj: "hash_key L oid' = hash_key L oid \<longleftrightarrow> oid' = oid" if "(oid', x) \<in> set t" for oid' x
    using assms(1) that unfolding hash_ok_def fst_set_tbl_insert
    by (metis fst_conv image_eqI inj_onD insertCI)
  let ?l = "updates_content (object_updates L (tbl_insert oid obj t)) k"
  let ?r = "((updates_content (object_updates L t))(hash_key L oid := Some (hash_object L obj))) k"
  have "?l = Some v \<longleftrightarrow> ?r = Some v" for v
  proof (cases "k = hash_key L oid")
    case True
    have "?l = Some v \<longleftrightarrow> v = hash_object L obj"
    proof
      assume "?l = Some v"
      then obtain oid' x where "(oid', x) \<in> set (tbl_insert oid obj t)" "k = hash_key L oid'" "v = hash_object L x"
        using object_content [OF assms(1) d(1)] by blast
      then show "v = hash_object L obj" using True inj mem by (metis (full_types))
    next
      assume "v = hash_object L obj"
      moreover have "(oid, obj) \<in> set (tbl_insert oid obj t)" by (simp add: mem)
      ultimately show "?l = Some v" using True object_content [OF assms(1) d(1)] by blast
    qed
    then show ?thesis using True by auto
  next
    case False
    then show ?thesis
      using object_content [OF assms(1) d(1), of k v] object_content [OF assms(3) d(2), of k v]
      by (auto simp: mem split: if_splits)
  qed
  then show "?l = ?r" by (metis not_None_eq)
qed

text \<open>
  The invariant: the object table is keyed by the ids of its records, the seal table is
  exactly the index of the current seals (so no two objects share a seal), the tree holds
  exactly the hashes of the objects, and every WASM blob sits under its own hash.
\<close>

definition keyed :: "(string, smart_object) table \<Rightarrow> bool" where
  "keyed t \<longleftrightarrow> tbl_ok t \<and> (\<forall>oid obj. tbl_get t oid = Some obj \<longrightarrow> obj_object_id obj = oid)"

definition seal_index :: "store \<Rightarrow> bool" where
  "seal_index s \<longleftrightarrow> tbl_ok (st_seals s) \<and>
     (\<forall>sl oid. tbl_get (st_seals s) sl = Some oid \<longleftrightarrow>
        (\<exists>obj. tbl_get (st_objects s) oid = Some obj \<and> obj_seal obj = sl))"

definition committed :: "libs \<Rightarrow> store \<Rightarrow> bool" where
  "committed L s \<longleftrightarrow> hash_ok L (st_objects s) \<and> smt_ok L (st_smt s)
     \<and> smt_get (st_smt s) = updates_content (object_updates L (st_objects s))"

definition wasm_ok :: "libs \<Rightarrow> store \<Rightarrow> bool" where
  "wasm_ok L s \<longleftrightarrow> (\<forall>h b. tbl_get (st_wasm s) h = Some b \<longrightarrow> h = hex_encode L (sha256 L b))"

definition store_ok :: "libs \<Rightarrow> store \<Rightarrow> bool" where
  "store_ok L s \<longleftrightarrow> keyed (st_objects s) \<and> seal_index s \<and> committed L s \<and> wasm_ok L s
     \<and> tbl_ok (st_undo_logs s)"

text \<open>A save is admissible when its seal is not held by another object and the hash is good.\<close>

definition can_save :: "libs \<Rightarrow> smart_object \<Rightarrow> store \<Rightarrow> bool" where
  "can_save L obj s \<longleftrightarrow> hash_ok L (tbl_insert (obj_object_id obj) obj (st_objects s))
     \<and> (\<forall>oid. tbl_get (st_seals s) (obj_seal obj) = Some oid \<longrightarrow> oid = obj_object_id obj)"

lemma save_object_tables:
  "st_objects (save_object L obj s) = tbl_insert (obj_object_id obj) obj (st_objects s)"
  "st_undo_logs (save_object L obj s) = st_undo_logs s"
  "st_wasm (save_object L obj s) = st_wasm s"
  "st_smt (save_object L obj s) = smt_update L (hash_key L (obj_object_id obj)) (hash_object L obj) (st_smt s)"
  by (simp_all add: save_object_def Let_def)

text \<open>What every write of an object keeps, whatever the object.\<close>

locale object_kept =
  fixes L :: libs and P :: "store \<Rightarrow> bool"
  assumes kept_object: "P s \<Longrightarrow> P (save_object L ob s)"

interpretation block_writes: object_kept L "\<lambda>s. (st_blocks s, st_chain_meta s) = v" for L v
  by unfold_locales (simp add: save_object_def Let_def)

lemma save_object_seal_index:
  assumes idx: "seal_index s" and free: "\<forall>oid. tbl_get (st_seals s) (obj_seal obj) = Some oid \<longrightarrow> oid = obj_object_id obj"
  shows "seal_index (save_object L obj s)"
proof -
  let ?seals1 = "case tbl_get (st_objects s) (obj_object_id obj) of
            Some prev \<Rightarrow> if obj_seal prev \<noteq> obj_seal obj then tbl_remove (obj_seal prev) (st_seals s) else st_seals s
          | None \<Rightarrow> st_seals s"
  have seals: "st_seals (save_object L obj s) = tbl_insert (obj_seal obj) (obj_object_id obj) ?seals1"
    by (simp add: save_object_def Let_def)
  have ok: "tbl_ok ?seals1" using idx by (auto simp: seal_index_def split: option.splits)
  have get: "tbl_get ?seals1 sl = (if sl \<noteq> obj_seal obj \<and> (\<exists>prev. tbl_get (st_objects s) (obj_object_id obj) = Some prev \<and> obj_seal prev = sl)
      then None else tbl_get (st_seals s) sl)" for sl
    by (auto split: option.splits)
  have idx': "tbl_get (st_seals s) sl = Some oid \<longleftrightarrow> (\<exists>obj. tbl_get (st_objects s) oid = Some obj \<and> obj_seal obj = sl)" for sl oid
    using idx by (simp add: seal_index_def)
  show ?thesis
    unfolding seal_index_def seals
  proof (intro conjI allI)
    show "tbl_ok (tbl_insert (obj_seal obj) (obj_object_id obj) ?seals1)" using ok by blast
    fix sl oid
    show "tbl_get (tbl_insert (obj_seal obj) (obj_object_id obj) ?seals1) sl = Some oid \<longleftrightarrow>
       (\<exists>x. tbl_get (st_objects (save_object L obj s)) oid = Some x \<and> obj_seal x = sl)"
      unfolding tbl_get_insert get save_object_tables
      using free idx' [of sl oid] idx' [of "obj_seal obj" oid] idx' [of sl "obj_object_id obj"] by auto
  qed
qed

lemma save_object_ok:
  assumes ok: "store_ok L s" and can: "can_save L obj s"
  shows "store_ok L (save_object L obj s)"
proof -
  have h: "hash_ok L (tbl_insert (obj_object_id obj) obj (st_objects s))" using can by (simp add: can_save_def)
  then have nz: "hash_object L obj \<noteq> zeros32" and len: "sha256_len L"
    using tbl_get_Some_in [of "tbl_insert (obj_object_id obj) obj (st_objects s)" "obj_object_id obj" obj]
    by (auto simp: hash_ok_def)
  have "keyed (st_objects (save_object L obj s))"
    using ok by (auto simp: save_object_tables store_ok_def keyed_def)
  moreover have "seal_index (save_object L obj s)"
    using ok can by (intro save_object_seal_index) (auto simp: store_ok_def can_save_def)
  moreover have "committed L (save_object L obj s)"
    using ok h nz len content_insert [OF h]
    by (auto simp: committed_def store_ok_def keyed_def save_object_tables smt_get_update spec_update_def
        hash_key_def hash_object_def key_ok_def sha256_len_def intro!: smt_update_ok)
  ultimately show ?thesis
    using ok by (simp add: store_ok_def save_object_tables wasm_ok_def)
qed

lemma committed_root: "committed L s \<Longrightarrow>
    fst (smt_root (st_smt s)) = fst (smt_root (rebuild_smt L (st_objects s)))"
proof -
  assume c: "committed L s"
  then have len: "sha256_len L" by (simp add: committed_def hash_ok_def)
  show ?thesis
    unfolding rebuild_smt_updates
  proof (rule smt_com.same_content_same_root)
    show "smt_ok L (st_smt s)" using c by (simp add: committed_def)
    show "smt_ok L (apply_updates L (object_updates L (st_objects s)) (smt_new L))"
      by (rule apply_updates_ok [OF object_updates_ok [OF len]])
    show "smt_get (st_smt s) = smt_get (apply_updates L (object_updates L (st_objects s)) (smt_new L))"
      using c by (simp add: committed_def apply_updates_get)
  qed
qed


section \<open>Every history of writes\<close>

datatype store_op =
    SaveObject smart_object
  | SaveTransition state_transition
  | SaveBlock block_record
  | SetSync string u64
  | SaveUndo undo_log
  | SaveTransfer bridge_transfer
  | CheckMint string string
  | SaveWasm string bytes
  | ReadRoot

fun store_step :: "libs \<Rightarrow> store_op \<Rightarrow> store \<Rightarrow> store" where
  "store_step L (SaveObject obj) s = save_object L obj s"
| "store_step L (SaveTransition t) s = save_transition t s"
| "store_step L (SaveBlock b) s = save_block b s"
| "store_step L (SetSync c h) s = set_last_sync_block c h s"
| "store_step L (SaveUndo u) s = save_undo_log u s"
| "store_step L (SaveTransfer t) s = save_bridge_transfer t s"
| "store_step L (CheckMint i t) s = snd (check_and_insert_minted_proof i t s)"
| "store_step L (SaveWasm h b) s = snd (save_wasm L h b s)"
| "store_step L ReadRoot s = snd (current_state_root L s)"

fun admissible :: "libs \<Rightarrow> store_op list \<Rightarrow> store \<Rightarrow> bool" where
  "admissible L [] s \<longleftrightarrow> True"
| "admissible L (SaveObject obj # ops) s \<longleftrightarrow> can_save L obj s \<and> admissible L ops (save_object L obj s)"
| "admissible L (op # ops) s \<longleftrightarrow> admissible L ops (store_step L op s)"

lemma store_ok_other:
  assumes "store_ok L s" "st_objects s' = st_objects s" "st_seals s' = st_seals s"
    "st_smt s' = st_smt s" "st_wasm s' = st_wasm s" "st_undo_logs s' = st_undo_logs s"
  shows "store_ok L s'"
  using assms by (simp add: store_ok_def seal_index_def committed_def wasm_ok_def)

lemma store_ok_root: "store_ok L s \<Longrightarrow> store_ok L (snd (current_state_root L s))"
proof -
  assume ok: "store_ok L s"
  have "smt_get (snd (smt_root (st_smt s))) = smt_get (st_smt s)"
    by (rule ext) (simp add: smt_root_def smt_get_def Let_def)
  then show ?thesis
    using ok smt_root_ok [of L "st_smt s"]
    by (simp add: current_state_root_def store_ok_def seal_index_def committed_def wasm_ok_def case_prod_beta)
qed

lemma store_ok_step:
  assumes ok: "store_ok L s" and adm: "admissible L (op # ops) s"
  shows "store_ok L (store_step L op s) \<and> admissible L ops (store_step L op s)"
proof (cases op)
  case (SaveObject obj)
  then show ?thesis using assms by (simp add: save_object_ok)
next
  case (SaveTransition t)
  then show ?thesis using assms by (auto simp: save_transition_def intro: store_ok_other)
next
  case (SaveBlock b)
  then show ?thesis using assms by (auto simp: save_block_def intro: store_ok_other)
next
  case (SetSync c h)
  then show ?thesis using assms by (auto simp: set_last_sync_block_def intro: store_ok_other)
next
  case (SaveUndo u)
  then show ?thesis using assms
    by (auto simp: save_undo_log_def store_ok_def seal_index_def committed_def wasm_ok_def)
next
  case (SaveTransfer t)
  then show ?thesis using assms by (auto simp: save_bridge_transfer_def intro: store_ok_other)
next
  case (CheckMint i t)
  then show ?thesis using assms
    by (auto simp: check_and_insert_minted_proof_def intro: store_ok_other split: option.splits)
next
  case (SaveWasm h b)
  then show ?thesis using assms
    by (auto simp: save_wasm_def store_ok_def seal_index_def committed_def wasm_ok_def Let_def)
next
  case ReadRoot
  then show ?thesis using assms by (simp add: store_ok_root)
qed

lemma store_ok_run: "store_ok L s \<Longrightarrow> admissible L ops s \<Longrightarrow> store_ok L (fold (store_step L) ops s)"
proof (induction ops arbitrary: s)
  case (Cons op ops)
  then show ?case using store_ok_step [of L s op ops] by simp
qed simp

lemma store_ok_empty: "sha256_len L \<Longrightarrow> store_ok L (empty_store L)"
  by (auto simp: store_ok_def keyed_def seal_index_def committed_def wasm_ok_def empty_store_def hash_ok_def
      smt_new_ok smt_com.new_content updates_content_def object_updates_def)

lemma root_after_reopen:
  assumes "store_ok L s"
  shows "fst (current_state_root L (store_open L s)) = fst (current_state_root L s)"
proof -
  have "committed L s" using assms by (simp add: store_ok_def)
  from committed_root [OF this] show ?thesis
    by (simp add: current_state_root_def store_open_def case_prod_beta)
qed

text \<open>
  C38. From an empty database, every history of writes in which each saved object brings a
  seal no other object holds and a usable hash keeps the invariant: objects under their own
  ids, the seal index exact and injective, blobs under their hash, and the in-memory tree in
  step with the tables. So a node that restarts and rebuilds the tree from disk reports the
  state root it reported before.
\<close>

theorem store_history_ok:
  assumes "sha256_len L" "admissible L ops (empty_store L)"
  shows "store_ok L (fold (store_step L) ops (empty_store L))
    \<and> fst (current_state_root L (store_open L (fold (store_step L) ops (empty_store L))))
      = fst (current_state_root L (fold (store_step L) ops (empty_store L)))"
  using store_ok_run [OF store_ok_empty [OF assms(1)] assms(2)] root_after_reopen by blast

definition demo_object :: "string \<Rightarrow> string \<Rightarrow> smart_object" where
  "demo_object oid seal = \<lparr>obj_object_id = oid, obj_code_hash = ''wasm_default'', obj_seal = seal,
     obj_satoshis = 1, obj_owner = ''alice'', obj_state_data = JNull, obj_created_at_block = 1,
     obj_updated_at_block = 1\<rparr>"

lemma demo_hash_object: "oid = CHR ''a'' # r \<Longrightarrow> hash_object demo_libs (demo_object oid seal) \<noteq> zeros32"
proof
  assume "oid = CHR ''a'' # r" "hash_object demo_libs (demo_object oid seal) = zeros32"
  then have "hd (hash_object demo_libs (demo_object oid seal)) = hd zeros32" by simp
  then show False
    using \<open>oid = CHR ''a'' # r\<close>
    by (simp add: hash_object_def object_input_def demo_object_def demo_libs_def as_bytes_def zeros32_def hd_take)
qed

lemma demo_hash_key: "hash_key demo_libs ''a1'' \<noteq> hash_key demo_libs ''a2''"
  by (simp add: hash_key_def demo_libs_def as_bytes_def eval_nat_numeral)

lemma demo_admissible:
  "admissible demo_libs [SaveObject (demo_object ''a1'' ''t:0''), SaveObject (demo_object ''a2'' ''t:1'')]
     (empty_store demo_libs)"
proof -
  have o1: "hash_ok demo_libs [(''a1'', demo_object ''a1'' ''t:0'')]"
    by (simp add: hash_ok_def demo_hash_object)
  have o2: "hash_ok demo_libs [(''a1'', demo_object ''a1'' ''t:0''), (''a2'', demo_object ''a2'' ''t:1'')]"
    using demo_hash_key by (simp add: hash_ok_def demo_hash_object)
  have f: "obj_object_id (demo_object i sl) = i" "obj_seal (demo_object i sl) = sl" for i sl
    by (simp_all add: demo_object_def)
  show ?thesis using o1 o2
    by (simp add: can_save_def f empty_store_def save_object_def tbl_get_def)
qed

lemma store_history_ok_witness:
  "store_ok demo_libs (fold (store_step demo_libs)
     [SaveObject (demo_object ''a1'' ''t:0''), SaveObject (demo_object ''a2'' ''t:1'')] (empty_store demo_libs))"
  using store_history_ok [OF demo_libs_ok(1) demo_admissible] by blast

text \<open>
  The state proof of a stored object verifies: it carries the current root, the hash of
  the object, and passes verify_proof_static; an unknown id has no proof.
\<close>

theorem state_proof_correct:
  assumes ok: "store_ok L s" and hex: "hex_roundtrip L"
  shows "(\<forall>obj. get_object s oid = Some obj \<longrightarrow>
           (\<exists>p. get_state_proof L s oid = Some p \<and> prf_verified p
              \<and> prf_root_hex p = fst (current_state_root L s)
              \<and> prf_value_hex p = hex_encode L (hash_object L obj)
              \<and> verify_proof_static L (fst (smt_root (st_smt s))) (hash_key L oid) (hash_object L obj) (prf_proof_path p)))
    \<and> (inj_on (hash_key L) (insert oid (fst ` set (st_objects s))) \<and> get_object s oid = None \<longrightarrow>
         get_state_proof L s oid = None)"
proof -
  have c: "hash_ok L (st_objects s)" "smt_ok L (st_smt s)" "sha256_len L"
    "smt_get (st_smt s) = updates_content (object_updates L (st_objects s))"
    and k: "tbl_ok (st_objects s)"
    using ok by (auto simp: store_ok_def committed_def hash_ok_def keyed_def)
  have d: "distinct (map fst (st_objects s))" using k by (simp add: tbl_ok_def)
  note content = object_content [OF c(1) d]
  note proof_eq = get_proof_complete_aux [OF c(2) hex c(3)]
  have "smt_get (st_smt s) (hash_key L oid) = Some (hash_object L obj)" if "get_object s oid = Some obj" for obj
  proof -
    have "(oid, obj) \<in> set (st_objects s)" using that by (simp add: get_object_def tbl_get_Some_in)
    then show ?thesis unfolding c(4) content by blast
  qed
  moreover have "smt_get (st_smt s) (hash_key L oid) = None"
    if "inj_on (hash_key L) (insert oid (fst ` set (st_objects s)))" "get_object s oid = None"
  proof (rule ccontr)
    assume "smt_get (st_smt s) (hash_key L oid) \<noteq> None"
    then obtain oid' obj where m: "(oid', obj) \<in> set (st_objects s)" "hash_key L oid = hash_key L oid'"
      using content c(4) by auto
    then have "oid = oid'" using that(1) by (metis fst_conv image_eqI inj_onD insertCI)
    then show False using m(1) that(2) tbl_ok_get [OF k] by (auto simp: get_object_def)
  qed
  ultimately show ?thesis
    using proof_eq verify_own_proof [OF c(2) hex c(3)]
    by (auto simp: get_state_proof_def current_state_root_def case_prod_beta)
qed


lemma state_proof_correct_witness:
  "\<exists>s p. get_object s ''a1'' \<noteq> None \<and> get_state_proof demo_libs s ''a1'' = Some p \<and> prf_verified p"
proof -
  let ?s = "fold (store_step demo_libs)
     [SaveObject (demo_object ''a1'' ''t:0''), SaveObject (demo_object ''a2'' ''t:1'')] (empty_store demo_libs)"
  have ok: "store_ok demo_libs ?s"
    by (rule store_ok_run [OF store_ok_empty demo_admissible]) simp
  have get: "get_object ?s ''a1'' = Some (demo_object ''a1'' ''t:0'')"
    by (simp add: get_object_def save_object_def demo_object_def empty_store_def tbl_get_def)
  then show ?thesis
    using state_proof_correct [OF ok demo_libs_ok(2), of "''a1''"] by fastforce
qed

section \<open>Rollback restores the state\<close>

text \<open>
  A tracked write, as the block processor performs it: an undo log with the state the object
  has now (CREATE when it does not exist), then the new version of the object.
\<close>

definition undo_for :: "u64 \<Rightarrow> string \<Rightarrow> u64 \<Rightarrow> string \<Rightarrow> smart_object option \<Rightarrow> undo_log" where
  "undo_for uid chain height oid prev =
     \<lparr>undo_id = uid, undo_chain = chain, undo_block_height = height, undo_object_id = oid,
      undo_action = (if prev = None then ''CREATE'' else ''UPDATE''),
      undo_prev_code_hash = map_option obj_code_hash prev,
      undo_prev_seal = map_option obj_seal prev,
      undo_prev_satoshis = map_option obj_satoshis prev,
      undo_prev_owner = map_option obj_owner prev,
      undo_prev_state_data = map_option obj_state_data prev,
      undo_prev_updated_at_block = map_option obj_updated_at_block prev,
      undo_prev_created_at_block = map_option obj_created_at_block prev\<rparr>"

type_synonym tracked = "u64 \<times> u64 \<times> smart_object"

definition write_id :: "tracked \<Rightarrow> u64" where "write_id w = fst w"
definition write_height :: "tracked \<Rightarrow> u64" where "write_height w = fst (snd w)"
definition write_object :: "tracked \<Rightarrow> smart_object" where "write_object w = snd (snd w)"

definition log_for :: "string \<Rightarrow> tracked \<Rightarrow> store \<Rightarrow> undo_log" where
  "log_for chain w s = undo_for (write_id w) chain (write_height w) (obj_object_id (write_object w))
     (get_object s (obj_object_id (write_object w)))"

definition tracked_write :: "libs \<Rightarrow> string \<Rightarrow> tracked \<Rightarrow> store \<Rightarrow> store" where
  "tracked_write L chain w s = save_object L (write_object w) (save_undo_log (log_for chain w s) s)"

fun write_logs :: "libs \<Rightarrow> string \<Rightarrow> tracked list \<Rightarrow> store \<Rightarrow> (u64 \<times> undo_log) list" where
  "write_logs L chain [] s = []"
| "write_logs L chain (w # ws) s =
     (write_id w, log_for chain w s) # write_logs L chain ws (tracked_write L chain w s)"

definition restores :: "u64 \<Rightarrow> undo_log \<Rightarrow> smart_object option \<Rightarrow> bool" where
  "restores th log v \<longleftrightarrow> (if v = None then undo_action log = ''CREATE''
     else undo_action log = ''UPDATE'' \<and> restored_object th log = v)"

lemma log_for_restores:
  "keyed (st_objects s) \<Longrightarrow> restores th (log_for chain w s) (get_object s (obj_object_id (write_object w)))"
  by (cases "get_object s (obj_object_id (write_object w))")
    (auto simp: restores_def log_for_def undo_for_def restored_object_def keyed_def get_object_def)

lemma log_for_fields [simp]:
  "undo_id (log_for chain w s) = write_id w" "undo_chain (log_for chain w s) = chain"
  "undo_block_height (log_for chain w s) = write_height w"
  "undo_object_id (log_for chain w s) = obj_object_id (write_object w)"
  by (simp_all add: log_for_def undo_for_def)

lemma tracked_write_tables [simp]:
  "st_objects (tracked_write L chain w s) =
     tbl_insert (obj_object_id (write_object w)) (write_object w) (st_objects s)"
  "st_undo_logs (tracked_write L chain w s) = tbl_insert (write_id w) (log_for chain w s) (st_undo_logs s)"
  by (simp_all add: tracked_write_def save_object_tables save_undo_log_def)

lemma keyed_tracked: "keyed (st_objects s) \<Longrightarrow> keyed (st_objects (tracked_write L chain w s))"
  by (auto simp: keyed_def)

lemma write_logs_map:
  "map fst (write_logs L chain ws s) = map write_id ws"
  "map (undo_block_height \<circ> snd) (write_logs L chain ws s) = map write_height ws"
  "map (undo_object_id \<circ> snd) (write_logs L chain ws s) = map (obj_object_id \<circ> write_object) ws"
  by (induction ws arbitrary: s) auto

lemma write_logs_chain: "(u, log) \<in> set (write_logs L chain ws s) \<Longrightarrow> undo_chain log = chain"
  by (induction ws arbitrary: s) auto

lemma write_logs_height: "(u, log) \<in> set (write_logs L chain ws s) \<Longrightarrow> undo_block_height log \<in> write_height ` set ws"
  by (induction ws arbitrary: s) auto

lemma undo_table_after:
  "st_undo_logs (fold (tracked_write L chain) ws s) =
     fold (\<lambda>(k, v). tbl_insert k v) (write_logs L chain ws s) (st_undo_logs s)"
  by (induction ws arbitrary: s) auto

text \<open>The first log of an object in a list of logs.\<close>

definition find_log :: "string \<Rightarrow> (u64 \<times> undo_log) list \<Rightarrow> (u64 \<times> undo_log) option" where
  "find_log oid logs = find (\<lambda>(_, log). undo_object_id log = oid) logs"

lemma unwritten_kept:
  "x \<notin> (obj_object_id \<circ> write_object) ` set ws \<Longrightarrow> get_object (fold (tracked_write L chain) ws s) x = get_object s x"
  by (induction ws arbitrary: s) (auto simp: get_object_def)

lemma keyed_writes: "keyed (st_objects s) \<Longrightarrow> keyed (st_objects (fold (tracked_write L chain) ws s))"
  by (induction ws arbitrary: s) (auto intro: keyed_tracked)

subsection \<open>The undo loop\<close>

lemma undo_one_object:
  assumes "restores th log v"
  shows "tbl_get (st_objects (undo_one th log s)) x =
    (if x = undo_object_id log then v else tbl_get (st_objects s) x)"
  using assms
  by (auto simp: undo_one_def restores_def drop_current_seal_def Let_def split: option.splits if_splits)

lemma undo_one_ok: "tbl_ok (st_objects s) \<Longrightarrow> tbl_ok (st_objects (undo_one th log s))"
  by (auto simp: undo_one_def drop_current_seal_def Let_def split: option.splits)

definition undo_all :: "u64 \<Rightarrow> (u64 \<times> undo_log) list \<Rightarrow> store \<Rightarrow> store" where
  "undo_all th logs s = fold (\<lambda>(_, log). undo_one th log) logs s"

lemma undo_all_snoc: "undo_all th (logs @ [(u, log)]) s = undo_one th log (undo_all th logs s)"
  by (simp add: undo_all_def)

lemma undo_all_ok: "tbl_ok (st_objects s) \<Longrightarrow> tbl_ok (st_objects (undo_all th logs s))"
  by (induction logs rule: rev_induct) (auto simp: undo_all_snoc undo_one_ok, simp add: undo_all_def)

text \<open>Only the last log of an object counts: it decides what the object is in the end.\<close>

lemma undo_all_last:
  assumes "\<forall>(u, log) \<in> set logs. \<exists>v. restores th log v"
  shows "case find_log x (rev logs) of
      Some (u, log) \<Rightarrow> restores th log (tbl_get (st_objects (undo_all th logs s)) x)
    | None \<Rightarrow> tbl_get (st_objects (undo_all th logs s)) x = tbl_get (st_objects s) x"
  using assms
proof (induction logs rule: rev_induct)
  case Nil
  then show ?case by (simp add: find_log_def undo_all_def)
next
  case (snoc e logs)
  obtain u log where e: "e = (u, log)" by fastforce
  then obtain v where v: "restores th log v" using snoc.prems by auto
  show ?case
  proof (cases "undo_object_id log = x")
    case True
    then show ?thesis using v by (simp add: e find_log_def undo_all_snoc undo_one_object [OF v])
  next
    case False
    then show ?thesis
      using snoc 
      by (auto simp: e find_log_def undo_all_snoc undo_one_object [OF v] split: option.splits prod.splits)
  qed
qed

lemma restores_unique: "restores th log v \<Longrightarrow> restores th log w \<Longrightarrow> v = w"
  by (auto simp: restores_def split: if_splits)


subsection \<open>The order of the logs\<close>

text \<open>
  Logs are undone by descending height and, at one height, by ascending id. So of two writes the
  one at the lower height is undone later, and at one height the one with the greater id.
\<close>

definition height_key :: "u64 \<times> undo_log \<Rightarrow> int" where
  "height_key p = - int (unat (undo_block_height (snd p)))"

definition undone_after :: "tracked \<Rightarrow> tracked \<Rightarrow> bool" where
  "undone_after v w \<longleftrightarrow> write_height v < write_height w \<or> write_height v = write_height w \<and> write_id w < write_id v"

definition undone_last :: "tracked list \<Rightarrow> string \<Rightarrow> nat \<Rightarrow> bool" where
  "undone_last ws x k \<longleftrightarrow> k < length ws \<and> obj_object_id (write_object (ws ! k)) = x
     \<and> (\<forall>j < length ws. j \<noteq> k \<and> obj_object_id (write_object (ws ! j)) = x \<longrightarrow> undone_after (ws ! k) (ws ! j))"

definition undone_in_reverse :: "tracked list \<Rightarrow> bool" where
  "undone_in_reverse ws \<longleftrightarrow>
     sorted_wrt (\<lambda>v w. obj_object_id (write_object v) = obj_object_id (write_object w) \<longrightarrow> undone_after v w) ws"

lemma find_filter: "find P xs = (case filter P xs of [] \<Rightarrow> None | x # _ \<Rightarrow> Some x)"
  by (induction xs) auto

lemma find_rev: "find P (rev xs) = (if filter P xs = [] then None else Some (last (filter P xs)))"
  by (cases "filter P xs" rule: rev_cases) (simp_all add: find_filter flip: rev_filter)

text \<open>The last element of a stable sort: the greatest key and, of those, the last in the list.\<close>

lemma last_sort_key:
  fixes ys :: "('a :: linorder \<times> 'b) list" and key :: "'a \<times> 'b \<Rightarrow> 'c :: linorder"
  assumes srt: "sorted_wrt (\<lambda>p q. fst p < fst q) ys" and e: "e \<in> set ys"
    and max: "\<And>y. y \<in> set ys \<Longrightarrow> y \<noteq> e \<Longrightarrow> key y < key e \<or> key y = key e \<and> fst y < fst e"
  shows "last (sort_key key ys) = e"
proof (rule ccontr)
  let ?zs = "sort_key key ys" and ?P = "\<lambda>y. key y = key e"
  assume ne: "last ?zs \<noteq> e"
  have in_zs: "e \<in> set ?zs" using e by simp
  then obtain us z where us: "?zs = us @ [z]" by (cases ?zs rule: rev_cases) auto
  have z: "z \<in> set ys" by (metis us in_set_conv_decomp set_sort)
  have "sorted (map key ?zs)" by simp
  then have "key e \<le> key z" using in_zs unfolding us by (auto simp: sorted_append)
  then have zk: "key z = key e" "fst z < fst e" using max [OF z] ne us by auto
  have f: "filter ?P ys = filter ?P us @ [z]"
    using sort_key_stable [of key "key e" ys] zk(1) us by simp
  have "sorted_wrt (\<lambda>p q. fst p < fst q) (filter ?P us @ [z])"
    using sorted_wrt_filter [OF srt, of ?P] unfolding f .
  then have "\<forall>p \<in> set (filter ?P us). fst p < fst z" unfolding sorted_wrt_append by auto
  moreover have "e \<in> set (filter ?P us @ [z])" using e unfolding f [symmetric] by simp
  ultimately have "fst e \<le> fst z" by (metis Un_iff empty_iff insert_iff list.set(1,2) order_less_imp_le order_refl set_append)
  with zk(2) show False by simp
qed

lemma write_logs_length [simp]: "length (write_logs L chain ws s) = length ws"
  by (induction ws arbitrary: s) auto

lemma write_logs_nth:
  "k < length ws \<Longrightarrow> write_logs L chain ws s ! k
     = (write_id (ws ! k), log_for chain (ws ! k) (fold (tracked_write L chain) (take k ws) s))"
proof (induction ws arbitrary: s k)
  case (Cons w ws)
  then show ?case by (cases k) auto
qed simp

text \<open>Which log of an object is undone last, among the logs in the order of the undo table.\<close>

lemma find_log_last:
  assumes perm: "mset xs = mset (write_logs L chain ws s)" and srt: "sorted_wrt (\<lambda>p q. fst p < fst q) xs"
    and k: "undone_last ws x k"
  shows "find_log x (rev (sort_key height_key xs)) = Some (write_logs L chain ws s ! k)"
proof -
  let ?wl = "write_logs L chain ws s"
  let ?P = "\<lambda>(_ :: u64, log). undo_object_id log = x"
  have mem: "y \<in> set xs \<longleftrightarrow> (\<exists>j < length ws. y = ?wl ! j)" for y
    using perm by (metis in_set_conv_nth set_mset_mset write_logs_length)
  have kx: "k < length ws" "?P (?wl ! k)" using k by (auto simp: undone_last_def write_logs_nth)
  then have e: "?wl ! k \<in> set (filter ?P xs)" using mem by auto
  have "last (sort_key height_key (filter ?P xs)) = ?wl ! k"
  proof (rule last_sort_key [OF _ e])
    show "sorted_wrt (\<lambda>p q. fst p < fst q) (filter ?P xs)" by (rule sorted_wrt_filter [OF srt])
    fix y assume y: "y \<in> set (filter ?P xs)" "y \<noteq> ?wl ! k"
    then obtain j where j: "j < length ws" "y = ?wl ! j" "j \<noteq> k" using mem by auto
    then have "undone_after (ws ! k) (ws ! j)" using k y(1) by (auto simp: undone_last_def write_logs_nth)
    moreover have "height_key (?wl ! i) = - int (unat (write_height (ws ! i))) \<and> fst (?wl ! i) = write_id (ws ! i)"
      if "i < length ws" for i using that by (simp add: height_key_def write_logs_nth)
    ultimately show "height_key y < height_key (?wl ! k) \<or> height_key y = height_key (?wl ! k) \<and> fst y < fst (?wl ! k)"
      using j(1,2) kx(1) by (auto simp only: undone_after_def word_less_nat_alt)
  qed
  moreover have "filter ?P (sort_key height_key xs) = sort_key height_key (filter ?P xs)" by (simp add: filter_sort)
  moreover have "sort_key height_key (filter ?P xs) \<noteq> []" using e by (metis empty_iff empty_set set_sort)
  ultimately show ?thesis unfolding find_log_def find_rev by (simp only: if_False)
qed

lemma find_log_absent:
  assumes "mset xs = mset (write_logs L chain ws s)" "x \<notin> (obj_object_id \<circ> write_object) ` set ws"
  shows "find_log x (rev (sort_key height_key xs)) = None"
proof -
  have "undo_object_id log \<noteq> x" if "(u, log) \<in> set xs" for u log
  proof -
    have "(u, log) \<in> set (write_logs L chain ws s)" using that assms(1) by (metis set_mset_mset)
    then have "undo_object_id log \<in> set (map (undo_object_id \<circ> snd) (write_logs L chain ws s))" by force
    then show ?thesis using assms(2) by (auto simp: write_logs_map)
  qed
  then show ?thesis by (auto simp: find_log_def find_None_iff)
qed

text \<open>Where the writes of every object are undone in reverse, its first write is undone last.\<close>

lemma first_undone_last:
  assumes r: "undone_in_reverse ws" and x: "x \<in> (obj_object_id \<circ> write_object) ` set ws"
  obtains k where "undone_last ws x k" "\<forall>w \<in> set (take k ws). obj_object_id (write_object w) \<noteq> x"
proof -
  let ?at = "\<lambda>k. k < length ws \<and> obj_object_id (write_object (ws ! k)) = x"
  define k where "k = (LEAST k. ?at k)"
  obtain w where "w \<in> set ws" "obj_object_id (write_object w) = x" using x by auto
  then have "\<exists>k. ?at k" by (metis in_set_conv_nth)
  then have k: "?at k" unfolding k_def by (rule LeastI_ex)
  have first: "\<not> ?at j" if "j < k" for j using that unfolding k_def by (rule not_less_Least)
  have "undone_after (ws ! k) (ws ! j)" if "j < length ws" "j \<noteq> k" "obj_object_id (write_object (ws ! j)) = x" for j
  proof -
    have "k < j" using first [of j] that by linarith
    with r that k show ?thesis unfolding undone_in_reverse_def sorted_wrt_iff_nth_less by metis
  qed
  then have "undone_last ws x k" using k by (simp add: undone_last_def)
  moreover have "\<forall>w \<in> set (take k ws). obj_object_id (write_object w) \<noteq> x"
  proof
    fix w assume "w \<in> set (take k ws)"
    then obtain i where "i < length (take k ws)" "take k ws ! i = w" by (auto simp only: in_set_conv_nth)
    then have "i < k" "w = ws ! i" by simp_all
    with first [of i] k show "obj_object_id (write_object w) \<noteq> x" by auto
  qed
  ultimately show thesis by (rule that)
qed

text \<open>
  Histories: undo ids of their own, heights above the target. In a reorg_history the writes of
  each object are also undone in reverse.
\<close>

definition logged_history :: "string \<Rightarrow> u64 \<Rightarrow> tracked list \<Rightarrow> store \<Rightarrow> bool" where
  "logged_history chain th ws s \<longleftrightarrow>
     distinct (map write_id ws)
   \<and> (\<forall>w \<in> set ws. th < write_height w \<and> tbl_get (st_undo_logs s) (write_id w) = None)
   \<and> (\<forall>u log. tbl_get (st_undo_logs s) u = Some log \<and> undo_chain log = chain \<longrightarrow> undo_block_height log \<le> th)"

definition reorg_history :: "string \<Rightarrow> u64 \<Rightarrow> tracked list \<Rightarrow> store \<Rightarrow> bool" where
  "reorg_history chain th ws s \<longleftrightarrow> logged_history chain th ws s \<and> undone_in_reverse ws"

lemma reorg_logged:
  assumes "reorg_history chain th ws s"
  shows "logged_history chain th ws s" "undone_in_reverse ws"
  using assms unfolding reorg_history_def by blast+

lemma undo_table_logs:
  assumes h: "logged_history chain th ws s" and ok: "tbl_ok (st_undo_logs s)"
    and wl_def: "wl = write_logs L chain ws s" and t_def: "t = st_undo_logs (fold (tracked_write L chain) ws s)"
  shows "mset (filter (\<lambda>(_, log). undo_chain log = chain \<and> th < undo_block_height log) t) = mset wl"
    and "tbl_ok t"
    and "tbl_get t u = (case map_of wl u of Some log \<Rightarrow> Some log | None \<Rightarrow> tbl_get (st_undo_logs s) u)"
proof -
  have fst_wl: "map fst wl = map write_id ws" by (simp add: wl_def write_logs_map)
  then have d: "distinct (map fst wl)" using h by (simp add: logged_history_def)
  have t: "t = fold (\<lambda>(k, v). tbl_insert k v) wl (st_undo_logs s)"
    by (simp add: t_def wl_def undo_table_after)
  have "tbl_ok (fold (\<lambda>(k, v). tbl_insert k v) es m)" if "tbl_ok m" for es and m :: "(u64, undo_log) table"
    using that by (induction es arbitrary: m) auto
  then show tok: "tbl_ok t" using ok t by simp
  have get: "tbl_get t u = (case map_of wl u of Some log \<Rightarrow> Some log | None \<Rightarrow> tbl_get (st_undo_logs s) u)" for u
    using d by (simp add: t tbl.fold_put map_of_rev)
  then show "tbl_get t u = (case map_of wl u of Some log \<Rightarrow> Some log | None \<Rightarrow> tbl_get (st_undo_logs s) u)" .
  have mem: "(u, log) \<in> set t \<longleftrightarrow> tbl_get t u = Some log" for u log
    using tbl_ok_get [OF tok] tbl_get_Some_in by metis
  have above: "undo_chain log = chain \<and> th < undo_block_height log" if "(u, log) \<in> set wl" for u log
    using that h write_logs_chain write_logs_height unfolding wl_def logged_history_def by fastforce
  have "set (filter (\<lambda>(_, log). undo_chain log = chain \<and> th < undo_block_height log) t) = set wl"
  proof (intro set_eqI iffI)
    fix e assume e: "e \<in> set (filter (\<lambda>(_, log). undo_chain log = chain \<and> th < undo_block_height log) t)"
    obtain u log where ul: "e = (u, log)" by fastforce
    then have "tbl_get t u = Some log" "undo_chain log = chain" "th < undo_block_height log" using e mem by auto
    then have "map_of wl u = Some log"
      using h get [of u] by (auto simp: logged_history_def not_le [symmetric] split: option.splits)
    then show "e \<in> set wl" using ul map_of_SomeD by metis
  next
    fix e assume e: "e \<in> set wl"
    obtain u log where ul: "e = (u, log)" by fastforce
    then have "map_of wl u = Some log" using e d by simp
    then show "e \<in> set (filter (\<lambda>(_, log). undo_chain log = chain \<and> th < undo_block_height log) t)"
      using ul e above get [of u] mem by auto
  qed
  moreover have "distinct (filter (\<lambda>(_, log). undo_chain log = chain \<and> th < undo_block_height log) t)" "distinct wl"
    using tok d by (auto simp: tbl_ok_def distinct_map)
  ultimately show "mset (filter (\<lambda>(_, log). undo_chain log = chain \<and> th < undo_block_height log) t) = mset wl"
    using set_eq_iff_mset_eq_distinct by blast
qed


subsection \<open>The seal index through writes and undos\<close>

text \<open>own says which object a seal string belongs to, once and for all.\<close>

definition owned :: "(string \<Rightarrow> string) \<Rightarrow> store \<Rightarrow> bool" where
  "owned own s \<longleftrightarrow> (\<forall>oid obj. tbl_get (st_objects s) oid = Some obj \<longrightarrow> own (obj_seal obj) = oid)"

lemma tracked_write_seals:
  assumes "seal_index s" "owned own s" "own (obj_seal (write_object w)) = obj_object_id (write_object w)"
  shows "seal_index (tracked_write L chain w s) \<and> owned own (tracked_write L chain w s)"
proof
  have "seal_index (save_undo_log u s)" for u using assms(1) by (simp add: seal_index_def save_undo_log_def)
  moreover have "\<forall>oid. tbl_get (st_seals s) (obj_seal (write_object w)) = Some oid \<longrightarrow> oid = obj_object_id (write_object w)"
    using assms unfolding seal_index_def owned_def by metis
  ultimately show "seal_index (tracked_write L chain w s)"
    unfolding tracked_write_def
    by (intro save_object_seal_index) (blast, simp add: save_undo_log_def)
  show "owned own (tracked_write L chain w s)" using assms by (auto simp: owned_def)
qed

definition restores_owned :: "(string \<Rightarrow> string) \<Rightarrow> u64 \<Rightarrow> undo_log \<Rightarrow> bool" where
  "restores_owned own th log \<longleftrightarrow>
     (\<exists>v. restores th log v \<and> (\<forall>obj. v = Some obj \<longrightarrow> own (obj_seal obj) = undo_object_id log))"

lemma writes_seals:
  assumes "seal_index s" "owned own s" "keyed (st_objects s)"
    "\<forall>w \<in> set ws. own (obj_seal (write_object w)) = obj_object_id (write_object w)"
  shows "seal_index (fold (tracked_write L chain) ws s) \<and> owned own (fold (tracked_write L chain) ws s)
    \<and> keyed (st_objects (fold (tracked_write L chain) ws s))
    \<and> (\<forall>(u, log) \<in> set (write_logs L chain ws s). restores_owned own th log)"
  using assms
proof (induction ws arbitrary: s)
  case (Cons w ws)
  let ?s' = "tracked_write L chain w s"
  have "restores_owned own th (log_for chain w s)"
    using log_for_restores [OF Cons.prems(3), of th chain w] Cons.prems(2)
    by (auto simp: restores_owned_def owned_def get_object_def)
  moreover have "seal_index ?s' \<and> owned own ?s'"
    by (rule tracked_write_seals) (use Cons.prems in auto)
  ultimately show ?case
    using Cons.IH [of ?s'] Cons.prems keyed_tracked [OF Cons.prems(3)] by simp
qed simp

lemma drop_seal_get:
  assumes idx: "seal_index s"
  shows "tbl_ok (st_seals (drop_current_seal log s))"
    and "tbl_get (st_seals (drop_current_seal log s)) sl = Some oid \<longleftrightarrow>
      oid \<noteq> undo_object_id log \<and> tbl_get (st_seals s) sl = Some oid"
proof -
  have i: "tbl_get (st_seals s) sl = Some oid \<longleftrightarrow> (\<exists>obj. tbl_get (st_objects s) oid = Some obj \<and> obj_seal obj = sl)" for sl oid
    using idx by (auto simp: seal_index_def)
  show "tbl_ok (st_seals (drop_current_seal log s))"
    using idx by (auto simp: seal_index_def drop_current_seal_def split: option.splits)
  show "tbl_get (st_seals (drop_current_seal log s)) sl = Some oid \<longleftrightarrow>
      oid \<noteq> undo_object_id log \<and> tbl_get (st_seals s) sl = Some oid"
  proof (cases "tbl_get (st_objects s) (undo_object_id log)")
    case None
    then show ?thesis using i [of sl oid] by (auto simp: drop_current_seal_def)
  next
    case (Some e)
    then have "tbl_get (st_seals s) sl = Some (undo_object_id log) \<longleftrightarrow> obj_seal e = sl" by (simp add: i)
    then show ?thesis using Some by (auto simp: drop_current_seal_def)
  qed
qed

lemma undo_one_seals:
  assumes idx: "seal_index s" and own: "owned own s" and r: "restores_owned own th log"
  shows "seal_index (undo_one th log s) \<and> owned own (undo_one th log s)"
proof -
  obtain v where v: "restores th log v" "\<forall>obj. v = Some obj \<longrightarrow> own (obj_seal obj) = undo_object_id log"
    using r by (auto simp: restores_owned_def)
  let ?x = "undo_object_id log"
  have i: "tbl_get (st_seals s) sl = Some oid \<longleftrightarrow> (\<exists>obj. tbl_get (st_objects s) oid = Some obj \<and> obj_seal obj = sl)" for sl oid
    using idx by (auto simp: seal_index_def)
  let ?sd = "st_seals (drop_current_seal log s)"
  have sd: "st_seals (undo_one th log s) = (case v of None \<Rightarrow> ?sd | Some obj \<Rightarrow> tbl_insert (obj_seal obj) ?x ?sd)"
    using v(1) by (auto simp: undo_one_def restores_def Let_def split: option.splits if_splits)
  note sd_ok = drop_seal_get(1) [OF idx, of log] and sd_get = drop_seal_get(2) [OF idx, of log]
  have "owned own (undo_one th log s)"
    using own v by (auto simp: owned_def undo_one_object [OF v(1)])
  moreover have "seal_index (undo_one th log s)"
    unfolding seal_index_def sd undo_one_object [OF v(1)]
  proof (intro conjI allI)
    show "tbl_ok (case v of None \<Rightarrow> ?sd | Some obj \<Rightarrow> tbl_insert (obj_seal obj) ?x ?sd)"
      using sd_ok by (auto split: option.splits)
    fix sl oid
    show "tbl_get (case v of None \<Rightarrow> ?sd | Some obj \<Rightarrow> tbl_insert (obj_seal obj) ?x ?sd) sl = Some oid \<longleftrightarrow>
      (\<exists>obj. (if oid = ?x then v else tbl_get (st_objects s) oid) = Some obj \<and> obj_seal obj = sl)"
    proof (cases v)
      case None
      then show ?thesis using sd_get [of sl oid] i [of sl oid] by simp
    next
      case (Some prev)
      have no: "sl \<noteq> obj_seal prev" if "oid \<noteq> ?x" "tbl_get (st_seals s) sl = Some oid"
        using that own v(2) Some i [of sl oid] unfolding owned_def by metis
      show ?thesis
      proof (cases "oid = ?x")
        case True
        then show ?thesis using Some sd_get [of sl oid] by auto
      next
        case False
        then show ?thesis using Some no sd_get [of sl oid] i [of sl oid] by auto
      qed
    qed
  qed
  ultimately show ?thesis by blast
qed

lemma undo_all_seals:
  assumes "seal_index s" "owned own s" "\<forall>(u, log) \<in> set logs. restores_owned own th log"
  shows "seal_index (undo_all th logs s) \<and> owned own (undo_all th logs s)"
  using assms
proof (induction logs rule: rev_induct)
  case Nil
  then show ?case by (simp add: undo_all_def)
next
  case (snoc e logs)
  obtain u log where e: "e = (u, log)" by fastforce
  have "seal_index (undo_all th logs s) \<and> owned own (undo_all th logs s)"
    using snoc by simp
  then show ?case
    using undo_one_seals [of "undo_all th logs s" own th log] snoc.prems(3)
    by (simp add: e undo_all_snoc)
qed

lemma undo_all_logs: "st_undo_logs (undo_all th logs s) = st_undo_logs s"
  by (induction logs rule: rev_induct)
    (auto simp: undo_all_snoc undo_one_def drop_current_seal_def Let_def split: option.splits,
     simp add: undo_all_def)

lemma seal_index_determined:
  assumes "seal_index s" "seal_index s'" "st_objects s = st_objects s'"
  shows "st_seals s = st_seals s'"
proof (rule tbl_ext)
  show "tbl_get (st_seals s) = tbl_get (st_seals s')"
  proof
    fix sl
    have "tbl_get (st_seals s) sl = Some oid \<longleftrightarrow> tbl_get (st_seals s') sl = Some oid" for oid
      using assms by (simp add: seal_index_def)
    then show "tbl_get (st_seals s) sl = tbl_get (st_seals s') sl" by (metis not_None_eq)
  qed
qed (use assms in \<open>auto simp: seal_index_def\<close>)

lemma keyed_pairs: "keyed t \<Longrightarrow> map (\<lambda>obj. (obj_object_id obj, obj)) (map snd t) = t"
proof -
  assume k: "keyed t"
  have "obj_object_id obj = oid" if "(oid, obj) \<in> set t" for oid obj
    using that k tbl_ok_get [of t oid obj] by (auto simp: keyed_def)
  then show ?thesis by (auto simp: comp_def intro!: map_idI)
qed

subsection \<open>The theorem\<close>

text \<open>
  The undo loop of rollback_to_block on the logs of a history: every object ends as it was before
  the write whose log is undone last, and the seal index stays exact.
\<close>

lemma rollback_undone:
  assumes ok: "store_ok L s" and h: "logged_history chain th ws s" and own: "owned own s"
    and seals: "\<forall>w \<in> set ws. own (obj_seal (write_object w)) = obj_object_id (write_object w)"
    and s1: "s1 = fold (tracked_write L chain) ws s"
    and logs: "logs = logs_above chain th (st_undo_logs s1)"
  shows "mset logs = mset (write_logs L chain ws s)"
    and "tbl_ok (st_objects (undo_all th logs s1))" "seal_index (undo_all th logs s1)"
    and "x \<notin> (obj_object_id \<circ> write_object) ` set ws \<Longrightarrow> tbl_get (st_objects (undo_all th logs s1)) x = get_object s x"
    and "undone_last ws x k \<Longrightarrow>
      tbl_get (st_objects (undo_all th logs s1)) x = get_object (fold (tracked_write L chain) (take k ws) s) x"
proof -
  let ?wl = "write_logs L chain ws s"
  have k: "keyed (st_objects s)" and idx: "seal_index s" and uok: "tbl_ok (st_undo_logs s)"
    using ok by (auto simp: store_ok_def)
  have w: "seal_index s1 \<and> owned own s1 \<and> keyed (st_objects s1)
      \<and> (\<forall>(u, log) \<in> set ?wl. restores_owned own th log)"
    unfolding s1 using writes_seals [OF idx own k seals] by blast
  have key: "(\<lambda>(_, log). - int (unat (undo_block_height log))) = height_key"
    by (auto simp: fun_eq_iff height_key_def)
  let ?xs = "filter (\<lambda>(_, log). undo_chain log = chain \<and> th < undo_block_height log) (st_undo_logs s1)"
  note table = undo_table_logs [OF h uok refl s1 [THEN arg_cong [where f = st_undo_logs]]]
  have perm: "mset ?xs = mset ?wl" by (rule table(1))
  have "sorted_wrt (<) (map fst (st_undo_logs s1))" using table(2) by (simp add: tbl_ok_def strict_sorted_iff)
  then have srt: "sorted_wrt (\<lambda>p q. fst p < fst q) ?xs" by (intro sorted_wrt_filter) (simp add: sorted_wrt_map)
  have l: "logs = sort_key height_key ?xs" unfolding logs logs_above_def key ..
  show m: "mset logs = mset ?wl" using perm by (simp add: l)
  then have in_logs: "set logs = set ?wl" by (metis set_mset_mset)
  have rs: "\<forall>(u, log) \<in> set logs. \<exists>v. restores th log v"
    using w in_logs by (auto simp: restores_owned_def)
  show "tbl_ok (st_objects (undo_all th logs s1))" using w by (intro undo_all_ok) (simp add: keyed_def)
  show "seal_index (undo_all th logs s1)" using w in_logs undo_all_seals by blast
  show "tbl_get (st_objects (undo_all th logs s1)) x = get_object s x"
    if "x \<notin> (obj_object_id \<circ> write_object) ` set ws"
  proof -
    have "find_log x (rev logs) = None" unfolding l by (rule find_log_absent [OF perm that])
    then show ?thesis
      using undo_all_last [OF rs, where x = x and s = s1] unwritten_kept [OF that, of L chain s]
      by (simp add: s1 get_object_def)
  qed
  show "tbl_get (st_objects (undo_all th logs s1)) x = get_object (fold (tracked_write L chain) (take k ws) s) x"
    if u: "undone_last ws x k"
  proof -
    have kx: "k < length ws" "obj_object_id (write_object (ws ! k)) = x" using u by (simp_all add: undone_last_def)
    let ?sk = "fold (tracked_write L chain) (take k ws) s"
    have "restores th (log_for chain (ws ! k) ?sk) (tbl_get (st_objects (undo_all th logs s1)) x)"
      using undo_all_last [OF rs, where x = x and s = s1] find_log_last [OF perm srt u, folded l] kx
      by (simp add: write_logs_nth)
    moreover have "restores th (log_for chain (ws ! k) ?sk) (get_object ?sk x)"
      using log_for_restores [OF keyed_writes [OF k], of th chain "ws ! k"] kx by simp
    ultimately show ?thesis by (rule restores_unique)
  qed
qed

lemma rollback_objects:
  assumes ok: "store_ok L s" and h: "logged_history chain th ws s" and own: "owned own s"
    and seals: "\<forall>w \<in> set ws. own (obj_seal (write_object w)) = obj_object_id (write_object w)"
    and s1: "s1 = fold (tracked_write L chain) ws s"
    and logs: "logs = logs_above chain th (st_undo_logs s1)" and rev: "undone_in_reverse ws"
  shows "st_objects (undo_all th logs s1) = st_objects s"
    and "st_seals (undo_all th logs s1) = st_seals s"
proof -
  note u = rollback_undone [OF ok h own seals s1 logs]
  have "tbl_get (st_objects (undo_all th logs s1)) x = get_object s x" for x
  proof (cases "x \<in> (obj_object_id \<circ> write_object) ` set ws")
    case True
    from rev True obtain k where k: "undone_last ws x k" "\<forall>w \<in> set (take k ws). obj_object_id (write_object w) \<noteq> x"
      by (rule first_undone_last)
    then show ?thesis using u(5) [OF k(1)] unwritten_kept [of x "take k ws" L chain s] by auto
  qed (rule u(4))
  moreover have "tbl_ok (st_objects s)" "seal_index s" using ok by (simp_all add: store_ok_def keyed_def)
  ultimately show objs: "st_objects (undo_all th logs s1) = st_objects s"
    using u(2) by (intro tbl_ext) (auto simp: get_object_def fun_eq_iff)
  show "st_seals (undo_all th logs s1) = st_seals s"
    by (rule seal_index_determined [OF u(3) _ objs]) (use ok in \<open>simp add: store_ok_def\<close>)
qed

lemma fold_remove_ok: "tbl_ok t \<Longrightarrow> tbl_ok (fold tbl_remove ks t)"
  by (induction ks arbitrary: t) auto

text \<open>What rollback_to_block does to the undo table: exactly the logs of the history go.\<close>

lemma rollback_undo_table:
  assumes h: "logged_history chain th ws s" and uok: "tbl_ok (st_undo_logs s)"
    and s1: "s1 = fold (tracked_write L chain) ws s" and m: "mset logs = mset (write_logs L chain ws s)"
  shows "fold tbl_remove (map fst logs) (st_undo_logs s1) = st_undo_logs s"
proof (intro tbl_ext fold_remove_ok)
  let ?wl = "write_logs L chain ws s"
  note table = undo_table_logs [OF h uok refl s1 [THEN arg_cong [where f = st_undo_logs]]]
  show "tbl_ok (st_undo_logs s1)" "tbl_ok (st_undo_logs s)" by (rule table(2), rule uok)
  have "tbl_get (fold tbl_remove (map fst logs) (st_undo_logs s1)) u = tbl_get (st_undo_logs s) u" for u
  proof -
    have "fst ` set logs = fst ` set ?wl" using m by (metis set_mset_mset)
    moreover have "fst ` set ?wl = write_id ` set ws"
      using write_logs_map(1) [of L chain ws s] by (metis set_map)
    ultimately have logs: "u \<in> set (map fst logs) \<longleftrightarrow> u \<in> write_id ` set ws"
      and none: "u \<notin> write_id ` set ws \<Longrightarrow> map_of ?wl u = None"
      by (simp_all add: map_of_eq_None_iff)
    show ?thesis
    proof (cases "u \<in> write_id ` set ws")
      case True
      then show ?thesis using logs h by (auto simp: tbl.fold_del logged_history_def)
    next
      case False
      then show ?thesis using table(3) [of u] logs none by (simp add: tbl.fold_del)
    qed
  qed
  then show "tbl_get (fold tbl_remove (map fst logs) (st_undo_logs s1)) = tbl_get (st_undo_logs s)" by (simp add: fun_eq_iff)
qed

lemma rollback_parts:
  assumes r: "rollback_to_block L chain th s1 = (n, s')" and logs: "logs = logs_above chain th (st_undo_logs s1)"
  shows "n = length logs" "st_objects s' = st_objects (undo_all th logs s1)" "st_seals s' = st_seals (undo_all th logs s1)"
    "st_undo_logs s' = fold tbl_remove (map fst logs) (st_undo_logs s1)" "get_last_sync_block s' chain = th"
    "st_smt s' = rebuild_smt L (map (\<lambda>obj. (obj_object_id obj, obj)) (map snd (st_objects s')))"
  using r by (auto simp: rollback_to_block_def Let_def logs undo_all_def [symmetric] undo_all_logs
      get_last_sync_block_def get_all_objects_def)

lemma rollback_in_reverse:
  assumes ok: "store_ok L s" and h: "logged_history chain th ws s" and own: "owned own s"
    and seals: "\<forall>w \<in> set ws. own (obj_seal (write_object w)) = obj_object_id (write_object w)"
    and r: "rollback_to_block L chain th (fold (tracked_write L chain) ws s) = (n, s')" and rev: "undone_in_reverse ws"
  shows "st_objects s' = st_objects s \<and> st_seals s' = st_seals s
    \<and> fst (current_state_root L s') = fst (current_state_root L s)"
proof -
  note core = rollback_objects [OF ok h own seals refl refl rev] and parts = rollback_parts [OF r refl]
  have "keyed (st_objects s)" "committed L s" using ok by (simp_all add: store_ok_def)
  then have "fst (current_state_root L s') = fst (current_state_root L s)"
    using parts(6) core(1) parts(2) keyed_pairs committed_root
    by (simp add: current_state_root_def case_prod_beta)
  then show ?thesis using parts core by simp
qed

lemma rollback_always:
  assumes ok: "store_ok L s" and h: "logged_history chain th ws s" and own: "owned own s"
    and seals: "\<forall>w \<in> set ws. own (obj_seal (write_object w)) = obj_object_id (write_object w)"
    and r: "rollback_to_block L chain th (fold (tracked_write L chain) ws s) = (n, s')"
  shows "n = length ws \<and> st_undo_logs s' = st_undo_logs s \<and> get_last_sync_block s' chain = th \<and> seal_index s'"
proof -
  note u = rollback_undone [OF ok h own seals refl refl] and parts = rollback_parts [OF r refl]
  have "n = length ws" using parts(1) u(1) by (metis mset_eq_length write_logs_length)
  moreover have "st_undo_logs s' = st_undo_logs s"
    unfolding parts(4) by (rule rollback_undo_table [OF h _ refl u(1)]) (use ok in \<open>simp add: store_ok_def\<close>)
  moreover have "seal_index s'" using u(3) parts(2,3) by (simp add: seal_index_def)
  ultimately show ?thesis using parts(5) by simp
qed

lemma rollback_restores_aux:
  assumes ok: "store_ok L s" and h: "reorg_history chain th ws s" and own: "owned own s"
    and seals: "\<forall>w \<in> set ws. own (obj_seal (write_object w)) = obj_object_id (write_object w)"
    and r: "rollback_to_block L chain th (fold (tracked_write L chain) ws s) = (n, s')"
  shows "n = length ws \<and> st_objects s' = st_objects s \<and> st_seals s' = st_seals s
    \<and> st_undo_logs s' = st_undo_logs s \<and> get_last_sync_block s' chain = th
    \<and> fst (current_state_root L s') = fst (current_state_root L s)"
  using rollback_always [OF ok reorg_logged(1) [OF h] own seals r]
    rollback_in_reverse [OF ok reorg_logged(1) [OF h] own seals r reorg_logged(2) [OF h]] by simp



text \<open>
  The order matters. Two writes to one object at the same height are undone in
  ascending id order, here the older log first: an object created and updated in block 5
  survives the rollback to block 4, in its intermediate version.
\<close>

lemma rollback_result_objects:
  "st_objects (snd (rollback_to_block L chain th s)) =
     st_objects (undo_all th (logs_above chain th (st_undo_logs s)) s)"
  by (simp add: rollback_to_block_def Let_def undo_all_def)

lemma same_height_rollback_wrong:
  "tbl_get (st_objects (snd (rollback_to_block demo_libs ''btc'' 4
     (fold (tracked_write demo_libs ''btc'')
       [(1, 5, demo_object ''a1'' ''t:0''), (2, 5, demo_object ''a1'' ''t:1'')] (empty_store demo_libs))))) ''a1''
   = Some (demo_object ''a1'' ''t:0'')"
proof -
  let ?w1 = "(1, 5, demo_object ''a1'' ''t:0'') :: tracked" and ?w2 = "(2, 5, demo_object ''a1'' ''t:1'') :: tracked"
  let ?s1 = "tracked_write demo_libs ''btc'' ?w1 (empty_store demo_libs)"
  let ?l1 = "log_for ''btc'' ?w1 (empty_store demo_libs)" and ?l2 = "log_for ''btc'' ?w2 ?s1"
  have f: "obj_object_id (demo_object oid sl) = oid" for oid sl by (simp add: demo_object_def)
  have k: "keyed (st_objects (empty_store demo_libs))" by (simp add: empty_store_def keyed_def)
  have r1: "restores 4 ?l1 None"
    using log_for_restores [OF k, of 4 "''btc''" ?w1] by (simp add: get_object_def empty_store_def)
  have r2: "restores 4 ?l2 (Some (demo_object ''a1'' ''t:0''))"
    using log_for_restores [OF keyed_tracked [OF k], of 4 "''btc''" ?w2 demo_libs "''btc''" ?w1]
    by (simp add: get_object_def write_object_def f)
  have logs: "logs_above ''btc'' 4 (st_undo_logs (tracked_write demo_libs ''btc'' ?w2 ?s1)) = [(1, ?l1), (2, ?l2)]"
    by (simp add: logs_above_def write_id_def write_height_def empty_store_def)
  have two: "fold (tracked_write demo_libs ''btc'') [?w1, ?w2] (empty_store demo_libs)
      = tracked_write demo_libs ''btc'' ?w2 ?s1" by simp
  show ?thesis
    unfolding rollback_result_objects two logs
    by (simp add: undo_all_def undo_one_object [OF r1] undo_one_object [OF r2] write_object_def f)
qed

text \<open>A rollback of one chain deletes the transitions of every chain above the height.\<close>

lemma rollback_transitions_all_chains:
  "tbl_get (st_transitions s) txid = Some t \<Longrightarrow> tbl_ok (st_transitions s) \<Longrightarrow> th < str_block_height t \<Longrightarrow>
     tbl_get (st_transitions (snd (rollback_to_block L chain th s))) txid = None"
proof -
  assume t: "tbl_get (st_transitions s) txid = Some t" and ok: "tbl_ok (st_transitions s)" and h: "th < str_block_height t"
  have "st_transitions (undo_all th logs s) = st_transitions s" for logs
    by (induction logs rule: rev_induct)
      (auto simp: undo_all_snoc undo_one_def drop_current_seal_def Let_def split: option.splits,
       simp add: undo_all_def)
  moreover have "txid \<in> set (stale_txids th (st_transitions s))"
    using tbl_get_Some_in [OF t] h by (force simp: stale_txids_def)
  ultimately show ?thesis
    by (simp add: rollback_to_block_def Let_def undo_all_def [symmetric] tbl.fold_del)
qed

end
