(* ===== verification/Parser.thy ===== *)
theory Parser
  imports Types Rust_Std
begin

text \<open>
  packages/node/src/scanner/parser.rs. Indexing and slicing go through rd and byte_slice of
  Rust_Std, which answer Panic out of range as Rust does, so that the absence of panics is a
  theorem and not built into the model.
\<close>

section \<open>The envelope parser\<close>

datatype chunk_step = Chunk nat nat | SkipOp nat | StopParse

definition read_chunk_header :: "bytes \<Rightarrow> nat \<Rightarrow> chunk_step rust" where
  "read_chunk_header script offset =
     rbind (rd script offset) (\<lambda>opb. let opc = unat opb in
       if 1 \<le> opc \<and> opc \<le> 75 then Ret (Chunk opc (offset + 1))
       else if opc = 76 then
         (if length script \<le> offset + 1 then Ret StopParse
          else rbind (rd script (offset + 1)) (\<lambda>b. Ret (Chunk (unat b) (offset + 2))))
       else if opc = 77 then
         (if length script \<le> offset + 2 then Ret StopParse
          else rbind (rd script (offset + 1)) (\<lambda>b0. rbind (rd script (offset + 2)) (\<lambda>b1.
            Ret (Chunk (from_le [b0, b1]) (offset + 3)))))
       else if opc = 78 then
         (if length script \<le> offset + 4 then Ret StopParse
          else rbind (rd script (offset + 1)) (\<lambda>b0. rbind (rd script (offset + 2)) (\<lambda>b1.
            rbind (rd script (offset + 3)) (\<lambda>b2. rbind (rd script (offset + 4)) (\<lambda>b3.
            Ret (Chunk (from_le [b0, b1, b2, b3]) (offset + 5)))))))
       else if opc = 0 then Ret (SkipOp (offset + 1))
       else Ret StopParse)"

lemma chunk_header_advances:
  "read_chunk_header script offset = Ret (Chunk n o') \<Longrightarrow> offset < o'"
  "read_chunk_header script offset = Ret (SkipOp o') \<Longrightarrow> offset < o'"
  by (auto simp: read_chunk_header_def rbind_Ret_iff Let_def split: if_splits)

text \<open>The payload loop returns whether OP_ENDIF was found and the payload read so far.\<close>

function payload_loop :: "bytes \<Rightarrow> nat \<Rightarrow> bytes \<Rightarrow> (bool \<times> bytes) rust" where
  "payload_loop script offset payload =
     (if offset < length script then
        rbind (rd script offset) (\<lambda>opb.
          if opb = 0x68 then Ret (True, payload)
          else rbind (read_chunk_header script offset) (\<lambda>st.
            case st of
              StopParse \<Rightarrow> Ret (False, payload)
            | SkipOp offset' \<Rightarrow> payload_loop script offset' payload
            | Chunk n offset' \<Rightarrow>
                if length script < offset' + n then Ret (False, payload)
                else rbind (byte_slice script offset' (offset' + n)) (\<lambda>c.
                  payload_loop script (offset' + n) (payload @ c))))
      else Ret (False, payload))"
  by pat_completeness auto
termination
  by (relation "measure (\<lambda>(script, offset, _). length script - offset)")
    (auto dest: chunk_header_advances)

declare payload_loop.simps [simp del]

definition read_version :: "bytes \<Rightarrow> nat \<Rightarrow> (u8 \<times> nat) option rust" where
  "read_version script offset =
     rbind (rd script offset) (\<lambda>ver_len.
       let offset1 = offset + 1 in
       if ver_len = 1 \<and> offset1 < length script then
         rbind (rd script offset1) (\<lambda>v. Ret (Some (v, offset1 + 1)))
       else if length script < offset1 + unat ver_len then Ret None
       else Ret (Some (1, offset1 + unat ver_len)))"

definition finish_envelope :: "libs \<Rightarrow> u8 \<Rightarrow> string \<Rightarrow> bool \<times> bytes \<Rightarrow> envelope option" where
  "finish_envelope L version content_type r =
     (case r of (found_endif, payload) \<Rightarrow>
        if \<not> found_endif then None
        else Some \<lparr>env_protocol = ''utxovm'', env_version = version, env_content_type = content_type,
          env_payload = payload,
          env_metadata = (if content_type = ''application/json'' then json_from_slice L payload else None)\<rparr>)"

definition parse_if_envelope :: "libs \<Rightarrow> bytes \<Rightarrow> nat \<Rightarrow> envelope option rust" where
  "parse_if_envelope L script start =
     (if length script < start + 10 then Ret None
      else rbind (rd script start) (\<lambda>b0. rbind (rd script (start + 1)) (\<lambda>b1.
        if b0 \<noteq> 0 \<or> b1 \<noteq> 0x63 then Ret None
        else rbind (rd script (start + 2)) (\<lambda>tag_len.
          let offset = start + 3 in
          if length script < offset + unat tag_len then Ret None
          else rbind (byte_slice script offset (offset + unat tag_len)) (\<lambda>tag.
            if tag \<noteq> as_bytes ''utxovm'' then Ret None
            else
              let offset = offset + unat tag_len in
              if length script \<le> offset then Ret None
              else rbind (read_version script offset) (\<lambda>ver.
                case ver of
                  None \<Rightarrow> Ret None
                | Some (version, offset) \<Rightarrow>
                    if length script \<le> offset then Ret None
                    else rbind (rd script offset) (\<lambda>ct_len.
                      let offset = offset + 1 in
                      if length script < offset + unat ct_len then Ret None
                      else rbind (byte_slice script offset (offset + unat ct_len)) (\<lambda>ct.
                        rbind (payload_loop script (offset + unat ct_len) []) (\<lambda>r.
                          Ret (finish_envelope L version (utf8_lossy ct) r))))))))))"

definition skip_push :: "bytes \<Rightarrow> nat \<Rightarrow> nat \<Rightarrow> nat" where
  "skip_push script offset push_len = offset + min push_len (length script - offset)"

text \<open>What the OP_RETURN branch calls skipping the push data prefix.\<close>

definition skip_op_return_prefix :: "bytes \<Rightarrow> nat rust" where
  "skip_op_return_prefix script =
     (if 1 < length script then
        rbind (rd script 1) (\<lambda>opb. let opc = unat opb in
          if 1 \<le> opc \<and> opc \<le> 75 then Ret (skip_push script 2 opc)
          else if opc = 76 then
            (if 2 < length script then rbind (rd script 2) (\<lambda>b. Ret (skip_push script 3 (unat b)))
             else Ret 2)
          else if opc = 77 then
            (if 3 < length script then
               rbind (rd script 2) (\<lambda>b0. rbind (rd script 3) (\<lambda>b1. Ret (skip_push script 4 (from_le [b0, b1]))))
             else Ret 2)
          else if opc = 78 then
            (if 5 < length script then
               rbind (rd script 2) (\<lambda>b0. rbind (rd script 3) (\<lambda>b1. rbind (rd script 4) (\<lambda>b2. rbind (rd script 5) (\<lambda>b3.
                 Ret (skip_push script 6 (from_le [b0, b1, b2, b3]))))))
             else Ret 2)
          else Ret 1)
      else Ret 1)"

definition find_signature :: "bytes \<Rightarrow> nat \<Rightarrow> nat option" where
  "find_signature script offset =
     find (\<lambda>i. script ! i = 0 \<and> script ! (i + 1) = 0x63) [offset..<length script - 1]"

lemma find_signature_bounds:
  "find_signature script offset = Some i \<Longrightarrow> offset \<le> i \<and> i + 1 < length script"
  by (auto simp: find_signature_def find_Some_iff)

function scan_loop :: "libs \<Rightarrow> bytes \<Rightarrow> nat \<Rightarrow> envelope option rust" where
  "scan_loop L script offset =
     (if offset + 8 < length script then
        (case find_signature script offset of
           None \<Rightarrow> Ret None
         | Some i \<Rightarrow> rbind (parse_if_envelope L script i) (\<lambda>r.
             case r of Some env \<Rightarrow> Ret (Some env) | None \<Rightarrow> scan_loop L script (i + 1)))
      else Ret None)"
  by pat_completeness auto
termination
  by (relation "measure (\<lambda>(_, script, offset). length script - offset)")
    (auto dest: find_signature_bounds)

declare scan_loop.simps [simp del]

definition parse_envelope :: "libs \<Rightarrow> bytes \<Rightarrow> envelope option rust" where
  "parse_envelope L script =
     (if length script < 10 then Ret None
      else rbind (parse_if_envelope L script 0) (\<lambda>r.
        case r of
          Some env \<Rightarrow> Ret (Some env)
        | None \<Rightarrow> rbind (rd script 0) (\<lambda>b0.
            if b0 = 0x6a then rbind (skip_op_return_prefix script) (\<lambda>offset. scan_loop L script offset)
            else Ret None)))"

section \<open>No panics\<close>

lemma rbind_no_panic: "m \<noteq> Panic \<Longrightarrow> (\<And>x. m = Ret x \<Longrightarrow> f x \<noteq> Panic) \<Longrightarrow> rbind m f \<noteq> Panic"
  by (cases m) auto

lemma read_chunk_header_no_panic: "offset < length script \<Longrightarrow> read_chunk_header script offset \<noteq> Panic"
  by (simp add: read_chunk_header_def Let_def)

lemma payload_loop_no_panic: "payload_loop script offset payload \<noteq> Panic"
proof (induction script offset payload rule: payload_loop.induct)
  case (1 script offset payload)
  show ?case
  proof (cases "offset < length script")
    case False
    then show ?thesis by (simp add: payload_loop.simps [of script offset])
  next
    case True
    then obtain st where st: "read_chunk_header script offset = Ret st"
      using read_chunk_header_no_panic by (cases "read_chunk_header script offset") auto
    show ?thesis
      using 1 True st
      by (subst payload_loop.simps) (auto split: chunk_step.splits)
  qed
qed

lemma read_version_no_panic: "offset < length script \<Longrightarrow> read_version script offset \<noteq> Panic"
  by (simp add: read_version_def Let_def)

lemma option_no_panic:
  "(x = None \<Longrightarrow> a \<noteq> Panic) \<Longrightarrow> (\<And>y. x = Some y \<Longrightarrow> f y \<noteq> Panic) \<Longrightarrow> (case x of None \<Rightarrow> a | Some y \<Rightarrow> f y) \<noteq> Panic"
  by (cases x) auto

lemma rd_no_panic: "i < length s \<Longrightarrow> rd s i \<noteq> Panic"
  by simp

lemma if_no_panic: "(c \<Longrightarrow> a \<noteq> Panic) \<Longrightarrow> (\<not> c \<Longrightarrow> b \<noteq> Panic) \<Longrightarrow> (if c then a else b) \<noteq> Panic"
  by simp

lemma slice_no_panic: "a \<le> b \<Longrightarrow> b \<le> length s \<Longrightarrow> byte_slice s a b \<noteq> Panic"
  by simp

lemma split_no_panic: "(\<And>a b. p = (a, b) \<Longrightarrow> f a b \<noteq> Panic) \<Longrightarrow> (case p of (a, b) \<Rightarrow> f a b) \<noteq> Panic"
  by (cases p) auto

lemmas no_panic = rbind_no_panic option_no_panic if_no_panic rd_no_panic slice_no_panic split_no_panic
  payload_loop_no_panic read_version_no_panic

lemma parse_if_envelope_no_panic: "parse_if_envelope L script start \<noteq> Panic"
  unfolding parse_if_envelope_def Let_def
  by (intro no_panic) auto

lemma skip_op_return_prefix_no_panic: "skip_op_return_prefix script \<noteq> Panic"
  by (simp add: skip_op_return_prefix_def Let_def)

lemma scan_loop_no_panic: "scan_loop L script offset \<noteq> Panic"
proof (induction L script offset rule: scan_loop.induct)
  case (1 L script offset)
  show ?case
    by (subst scan_loop.simps) (intro no_panic parse_if_envelope_no_panic, use 1 in auto)
qed

lemma parse_envelope_total: "parse_envelope L script \<noteq> Panic"
  unfolding parse_envelope_def
  by (intro no_panic parse_if_envelope_no_panic skip_op_return_prefix_no_panic scan_loop_no_panic) auto

text \<open>
  C39. No script makes the parser panic: every index and every byte_slice it takes is in range,
  for all byte strings. (Its loops terminate; they are total functions.)
\<close>

theorem parse_envelope_no_panic: "parse_envelope L script \<noteq> Panic"
  by (rule parse_envelope_total)

section \<open>Round trip\<close>

text \<open>The envelope format of the comment in parse_if_envelope, payload pushes of any size.\<close>

definition push_header :: "nat \<Rightarrow> bytes" where
  "push_header n =
     (if 1 \<le> n \<and> n \<le> 75 then [word_of_nat n]
      else if n < 256 then [76, word_of_nat n]
      else if n < 65536 then 77 # le_bytes 2 n
      else 78 # le_bytes 4 n)"

definition encode_chunk :: "bytes \<Rightarrow> bytes" where
  "encode_chunk c = push_header (length c) @ c"

definition encode_envelope :: "u8 \<Rightarrow> string \<Rightarrow> bytes list \<Rightarrow> bytes" where
  "encode_envelope version ct chunks =
     [0, 0x63, 6] @ as_bytes ''utxovm'' @ [1, version, word_of_nat (length ct)] @ as_bytes ct
     @ concat (map encode_chunk chunks) @ [0x68]"

lemma rd_append: "rd (pre @ ys) (length pre + k) = rd ys k"
  by (simp add: rd_def nth_append)

lemma rd_append0: "rd (pre @ ys) (length pre) = rd ys 0"
  using rd_append [of pre ys 0] by simp

lemma byte_slice_append: "byte_slice (pre @ ys) (length pre + a) (length pre + b) = byte_slice ys a b"
  by (simp add: byte_slice_def)

lemma le_bytes_2: "n < 65536 \<Longrightarrow> \<exists>a b. le_bytes 2 n = [a, b] \<and> from_le [a, b] = n"
proof -
  assume n: "n < 65536"
  have "length (le_bytes 2 n) = 2" by simp
  then obtain a b where e: "le_bytes 2 n = [a, b]"
    by (auto simp: length_Suc_conv eval_nat_numeral simp del: length_le_bytes)
  then show ?thesis using from_le_le_bytes [of 2 n] n by auto
qed

lemma le_bytes_4: "n < 2 ^ 32 \<Longrightarrow> \<exists>a b c d. le_bytes 4 n = [a, b, c, d] \<and> from_le [a, b, c, d] = n"
proof -
  assume n: "n < 2 ^ 32"
  have l: "length (le_bytes 4 n) = 4" by simp
  then obtain a b c d where e: "le_bytes 4 n = [a, b, c, d]"
    by (auto simp: length_Suc_conv eval_nat_numeral simp del: length_le_bytes)
  then show ?thesis using from_le_le_bytes [of 4 n] n by auto
qed

lemma read_encoded_header:
  assumes "length c < 2 ^ 32"
  shows "read_chunk_header (pre @ push_header (length c) @ c @ rest) (length pre)
    = Ret (Chunk (length c) (length pre + length (push_header (length c))))"
proof -
  let ?n = "length c"
  have rdk: "rd (pre @ ys) (length pre + k) = rd ys k" "rd (pre @ ys) (Suc (length pre)) = rd ys 1"
    "rd (pre @ ys) (Suc (Suc (length pre))) = rd ys 2" for ys k
    using rd_append [of pre ys k] rd_append [of pre ys 1] rd_append [of pre ys 2] by simp_all
  have cons: "rd (x # xs) k = (if k = 0 then Ret x else rd xs (k - 1))" for x xs k
    by (auto simp: rd_def nth_Cons')
  consider "1 \<le> ?n" "?n \<le> 75" | "?n < 256" "\<not> (1 \<le> ?n \<and> ?n \<le> 75)" | "256 \<le> ?n" "?n < 65536" | "65536 \<le> ?n"
    by linarith
  then show ?thesis
  proof cases
    case 1
    then have "unat (word_of_nat ?n :: byte) = ?n" by (simp add: unat_of_nat)
    then show ?thesis using 1
      by (simp add: read_chunk_header_def push_header_def rd_append0 cons del: rd_in)
  next
    case 2
    then have "unat (word_of_nat ?n :: byte) = ?n" by (simp add: unat_of_nat)
    then show ?thesis using 2
      by (auto simp: read_chunk_header_def push_header_def rd_append0 rdk cons simp del: rd_in)
  next
    case 3
    then obtain a b where ab: "le_bytes 2 ?n = [a, b]" "from_le [a, b] = ?n" using le_bytes_2 by blast
    then show ?thesis using 3
      by (simp add: read_chunk_header_def push_header_def rd_append0 rdk cons del: rd_in)
  next
    case 4
    then obtain a b d e where ab: "le_bytes 4 ?n = [a, b, d, e]" "from_le [a, b, d, e] = ?n"
      using le_bytes_4 assms by blast
    then show ?thesis using 4
      by (simp add: read_chunk_header_def push_header_def rd_append0 rdk cons del: rd_in)
  qed
qed

lemma push_header_hd: "\<exists>b bs. push_header n = b # bs \<and> b \<noteq> 0x68"
proof (cases "1 \<le> n \<and> n \<le> 75")
  case True
  then have "unat (word_of_nat n :: byte) = n" by (simp add: unat_of_nat)
  then have "(word_of_nat n :: byte) \<noteq> 0x68" using True by auto
  then show ?thesis using True by (simp add: push_header_def)
qed (auto simp: push_header_def)

lemma payload_loop_encoded:
  "\<forall>c \<in> set chunks. length c < 2 ^ 32 \<Longrightarrow>
   payload_loop (pre @ concat (map encode_chunk chunks) @ 0x68 # post) (length pre) acc
     = Ret (True, acc @ concat chunks)"
proof (induction chunks arbitrary: pre acc)
  case Nil
  then show ?case by (subst payload_loop.simps) (simp add: rd_def nth_append)
next
  case (Cons c cs)
  let ?h = "push_header (length c)"
  let ?rest = "concat (map encode_chunk cs) @ 0x68 # post"
  let ?script = "pre @ ?h @ c @ ?rest"
  obtain b bs where h: "?h = b # bs" "b \<noteq> 0x68" using push_header_hd by blast
  have r0: "rd ?script (length pre) = Ret b" by (simp add: h rd_def nth_append)
  have hd: "read_chunk_header ?script (length pre) = Ret (Chunk (length c) (length pre + length ?h))"
    using Cons.prems by (intro read_encoded_header) simp
  have sl: "byte_slice ?script (length pre + length ?h) (length pre + length ?h + length c) = Ret c"
    using byte_slice_append [of "pre @ ?h" "c @ ?rest" 0 "length c"] by (simp add: byte_slice_def)
  have lt: "length pre < length ?script" by (simp add: h)
  have "payload_loop ?script (length pre) acc
      = payload_loop ?script (length pre + length ?h + length c) (acc @ c)"
    using lt by (subst payload_loop.simps) (simp only: r0 hd sl rbind.simps if_True if_False h(2) chunk_step.case, simp)
  also have "\<dots> = payload_loop ((pre @ ?h @ c) @ ?rest) (length (pre @ ?h @ c)) (acc @ c)"
    by (simp add: add.assoc)
  also have "\<dots> = Ret (True, (acc @ c) @ concat cs)"
    by (rule Cons.IH) (use Cons.prems in simp)
  finally show ?case by (simp add: encode_chunk_def [of c])
qed

definition envelope_prefix :: "u8 \<Rightarrow> nat \<Rightarrow> bytes" where
  "envelope_prefix version n = [0, 0x63, 6, 117, 116, 120, 111, 118, 109, 1, version, word_of_nat n]"

lemma parse_if_prefix:
  assumes n: "length ct < 256" and rest: "rest \<noteq> []"
  shows "parse_if_envelope L (envelope_prefix v (length ct) @ ct @ rest) 0 =
    rbind (payload_loop ((envelope_prefix v (length ct) @ ct) @ rest) (length (envelope_prefix v (length ct) @ ct)) [])
      (\<lambda>r. Ret (finish_envelope L v (utf8_lossy ct) r))"
proof -
  let ?s = "envelope_prefix v (length ct) @ ct @ rest"
  have w: "unat (word_of_nat (length ct) :: byte) = length ct" using n by (simp add: unat_of_nat)
  have tag: "as_bytes ''utxovm'' = [117, 116, 120, 111, 118, 109]" by (simp add: as_bytes_def)
  have r: "rd ?s 0 = Ret 0" "rd ?s (Suc 0) = Ret 0x63" "rd ?s (Suc (Suc 0)) = Ret 6" "rd ?s 11 = Ret (word_of_nat (length ct))"
    by (simp_all add: rd_def envelope_prefix_def)
  have t: "byte_slice ?s 3 (3 + 6) = Ret [117, 116, 120, 111, 118, 109]"
    by (simp add: byte_slice_def envelope_prefix_def)
  have ver: "read_version ?s 9 = Ret (Some (v, 11))"
    by (simp add: read_version_def rd_def envelope_prefix_def)
  have sl: "byte_slice ?s 12 (12 + length ct) = Ret ct"
    by (simp add: byte_slice_def envelope_prefix_def)
  have len: "\<not> length ?s < 0 + 10" "\<not> length ?s < 0 + 3 + 6" "\<not> length ?s \<le> 9" "\<not> length ?s \<le> 11"
    "\<not> length ?s < 12 + length ct" "length (envelope_prefix v (length ct) @ ct) = 12 + length ct"
    by (simp_all add: envelope_prefix_def)
  show ?thesis
    unfolding parse_if_envelope_def Let_def tag
    using len t by (simp add: r ver sl w del: rd_in byte_slice_in)
qed

text \<open>
  C21. Round trip: an envelope written in the documented format (version byte, ASCII content
  type up to 255 bytes, payload cut into pushes of any size below 4 GiB, OP_ENDIF) is parsed
  back to the same version, content type and payload, whatever follows it in the script.
\<close>

theorem parse_encode_envelope:
  assumes "ascii ct" "length ct < 256" "\<forall>c \<in> set chunks. length c < 2 ^ 32"
  shows "parse_envelope L (encode_envelope version ct chunks @ post) =
    Ret (Some \<lparr>env_protocol = ''utxovm'', env_version = version, env_content_type = ct,
      env_payload = concat chunks,
      env_metadata = (if ct = ''application/json'' then json_from_slice L (concat chunks) else None)\<rparr>)"
proof -
  let ?rest = "concat (map encode_chunk chunks) @ 0x68 # post"
  let ?pre = "envelope_prefix version (length (as_bytes ct))"
  have s: "encode_envelope version ct chunks @ post = ?pre @ as_bytes ct @ ?rest"
    by (simp add: encode_envelope_def envelope_prefix_def as_bytes_def [of "''utxovm''"])
  have "payload_loop ((?pre @ as_bytes ct) @ ?rest) (length (?pre @ as_bytes ct)) []
      = Ret (True, [] @ concat chunks)"
    by (rule payload_loop_encoded [OF assms(3)])
  moreover have "parse_if_envelope L (?pre @ as_bytes ct @ ?rest) 0 =
    rbind (payload_loop ((?pre @ as_bytes ct) @ ?rest) (length (?pre @ as_bytes ct)) [])
      (\<lambda>r. Ret (finish_envelope L version (utf8_lossy (as_bytes ct)) r))"
    by (rule parse_if_prefix) (use assms(2) in simp_all)
  moreover have "\<not> length (?pre @ as_bytes ct @ ?rest) < 10" by (simp add: envelope_prefix_def)
  ultimately show ?thesis
    unfolding s parse_envelope_def by (simp add: finish_envelope_def utf8_lossy_ascii [OF assms(1)])
qed

lemma parse_encode_envelope_witness:
  "\<exists>env. parse_envelope demo_libs (encode_envelope 1 ''application/wasm'' [[0, 0x61, 0x73], replicate 300 7]) = Ret (Some env)
     \<and> env_payload env = [0, 0x61, 0x73] @ replicate 300 7"
  using parse_encode_envelope [of "''application/wasm''" "[[0, 0x61, 0x73], replicate 300 7]" demo_libs 1 "[]"]
  by (simp add: ascii_def)

text \<open>
  The OP_RETURN branch advances past the pushed data and not only past its length prefix: an
  envelope pushed whole by one direct push after OP_RETURN is never found.
\<close>

lemma op_return_skips_payload:
  assumes "1 \<le> length data" "length data \<le> 75"
  shows "parse_envelope L (0x6a # word_of_nat (length data) # data) = Ret None"
proof -
  have w: "unat (word_of_nat (length data) :: byte) = length data" using assms by (simp add: unat_of_nat)
  let ?s = "(0x6a :: byte) # word_of_nat (length data) # data"
  have "skip_op_return_prefix ?s = Ret (length ?s)"
    using assms w by (simp add: skip_op_return_prefix_def skip_push_def Let_def)
  moreover have "scan_loop L ?s (length ?s) = Ret None" by (subst scan_loop.simps) simp
  moreover have "parse_if_envelope L ?s 0 = Ret None" if "10 \<le> length ?s"
    using that by (simp add: parse_if_envelope_def)
  ultimately show ?thesis
    by (cases "length ?s < 10") (simp_all add: parse_envelope_def del: list.size)
qed

end
