(* ===== verification/Runtime.thy ===== *)
theory Runtime
  imports Rust_Std
begin

text \<open>
  packages/core-vm/src: state.rs, host_functions.rs and runtime.rs. wasmtime is a parameter: an
  engine compiles bytes to a module, and a module is its initial memory, its start function
  and its typed exports. What a guest function does when called is an arbitrary terminating
  interaction with the host (datatype activity): it may look at its memory, fuel and globals,
  write memory while burning fuel, call a host function, return or trap. The host functions,
  the fuel they charge, deploy and execute are the code's. i32 values keep their width;
  "p as usize" sign-extends as Rust does.
\<close>

section \<open>state.rs and host_functions.rs\<close>

type_synonym i32 = "32 word"

record single_use_seal =
  seal_txid :: string
  seal_vout :: u32

definition seal_display :: "single_use_seal \<Rightarrow> string" where
  "seal_display seal = outpoint (seal_txid seal) (unat (seal_vout seal))"

record event_log =
  ev_topic :: string
  ev_data :: string

record created_object =
  co_code_hash :: string
  co_initial_state :: bytes
  co_satoshis :: u64

record stealth_settlement =
  ss_stealth_address :: string
  ss_satoshis :: u64

record smart_object_state =
  sos_object_id :: string
  sos_code_hash :: string
  sos_seal :: single_use_seal
  sos_satoshis :: u64
  sos_owner_pubkey :: string
  sos_state_data :: bytes

record host_context =
  ctx_caller :: string
  ctx_seal :: single_use_seal
  ctx_satoshis :: u64
  ctx_events :: "event_log list"
  ctx_created_objects :: "created_object list"
  ctx_stealth_settlements :: "stealth_settlement list"
  ctx_mweb_peg_outs :: "stealth_settlement list"

definition host_context_new :: "string \<Rightarrow> single_use_seal \<Rightarrow> u64 \<Rightarrow> host_context" where
  "host_context_new caller seal satoshis =
     \<lparr>ctx_caller = caller, ctx_seal = seal, ctx_satoshis = satoshis, ctx_events = [],
      ctx_created_objects = [], ctx_stealth_settlements = [], ctx_mweb_peg_outs = []\<rparr>"

definition host_context_from_state :: "smart_object_state \<Rightarrow> string \<Rightarrow> host_context" where
  "host_context_from_state st caller =
     \<lparr>ctx_caller = caller, ctx_seal = sos_seal st, ctx_satoshis = sos_satoshis st, ctx_events = [],
      ctx_created_objects = [], ctx_stealth_settlements = [], ctx_mweb_peg_outs = []\<rparr>"

section \<open>The virtual machine\<close>

definition HOST_GET_CALLER :: u64 where "HOST_GET_CALLER = 100"
definition HOST_GET_SATOSHIS :: u64 where "HOST_GET_SATOSHIS = 100"
definition HOST_GET_SEAL :: u64 where "HOST_GET_SEAL = 100"
definition HOST_EMIT_EVENT :: u64 where "HOST_EMIT_EVENT = 500"
definition HOST_CREATE_OBJECT :: u64 where "HOST_CREATE_OBJECT = 1000"
definition HOST_STEALTH_SETTLE :: u64 where "HOST_STEALTH_SETTLE = 500"
definition HOST_MWEB_PEG_OUT :: u64 where "HOST_MWEB_PEG_OUT = 500"

definition GET_STATE_BUF_SIZE :: nat where "GET_STATE_BUF_SIZE = 65536"
definition MAX_STATE_SIZE :: nat where "MAX_STATE_SIZE = 1048576"

record vm_config =
  max_gas :: u64
  max_memory_pages :: u32

definition default_vm_config :: vm_config where
  "default_vm_config = \<lparr>max_gas = 25000000, max_memory_pages = 32\<rparr>"

record execution_result =
  res_gas_consumed :: u64
  res_return_code :: i32
  res_updated_state_data :: bytes
  res_events :: "event_log list"
  res_created_objects :: "created_object list"
  res_stealth_settlements :: "stealth_settlement list"
  res_mweb_peg_outs :: "stealth_settlement list"

text \<open>The wasmtime Store: the exported memory if there is one, the fuel, the host context, and
  whatever else the guest keeps (globals, tables).\<close>

record 'g vm =
  vm_memory :: "bytes option"
  vm_fuel :: u64
  vm_ctx :: host_context
  vm_globals :: 'g

datatype vm_error =
    CodeHashMismatch string string
  | CompileError | InstantiationError | MemoryNotExported | MissingAllocate
  | AllocateTrap | InitTrap | RestoreTrap | CallTrap
  | MemoryWriteError | MemoryReadError
  | StateOverflow i32 i32

definition calculate_code_hash :: "libs \<Rightarrow> bytes \<Rightarrow> string" where
  "calculate_code_hash L wasm = hex_encode L (sha256 L wasm)"

definition wasmtime_version :: string where
  "wasmtime_version = ''18.0.4''"

definition calculate_runtime_hash :: "libs \<Rightarrow> string \<Rightarrow> string" where
  "calculate_runtime_hash L pkg_version =
     hex_encode L (sha256 L (as_bytes ''utxo-core-vm:'' @ as_bytes pkg_version
       @ as_bytes '':wasmtime:'' @ as_bytes wasmtime_version))"

subsection \<open>Guest memory\<close>

definition usize_of :: "i32 \<Rightarrow> nat" where
  "usize_of p = unat (signed p :: u64)"

definition mem_write :: "nat \<Rightarrow> bytes \<Rightarrow> 'g vm \<Rightarrow> 'g vm option" where
  "mem_write ptr bs s =
     (case vm_memory s of
        None \<Rightarrow> None
      | Some mem \<Rightarrow>
          if ptr + length bs \<le> length mem
          then Some (s\<lparr>vm_memory := Some (take ptr mem @ bs @ drop (ptr + length bs) mem)\<rparr>)
          else None)"

definition mem_read :: "nat \<Rightarrow> nat \<Rightarrow> 'g vm \<Rightarrow> bytes option" where
  "mem_read ptr n s =
     (case vm_memory s of
        None \<Rightarrow> None
      | Some mem \<Rightarrow> if ptr + n \<le> length mem then Some (take n (drop ptr mem)) else None)"

definition read_guest_string :: "bytes \<Rightarrow> nat \<Rightarrow> nat \<Rightarrow> string" where
  "read_guest_string mem ptr max_len =
     (if length mem \<le> ptr then []
      else (let stop = min (ptr + max_len) (length mem);
                slice = take (stop - ptr) (drop ptr mem)
            in utf8_lossy (takeWhile (\<lambda>b. b \<noteq> 0) slice)))"

subsection \<open>Host functions\<close>

datatype host_call =
    HostGetCaller i32
  | HostGetSatoshis
  | HostGetSeal i32
  | HostEmitEvent i32 i32 i32
  | HostCreateObject i32 i32 i32 u64
  | HostStealthSettle i32 u64
  | HostMwebPegOut i32 u64
  | HostAbort i32 i32 i32 i32

definition charge :: "u64 \<Rightarrow> 'g vm \<Rightarrow> 'g vm" where
  "charge c s = s\<lparr>vm_fuel := saturating_sub_u64 (vm_fuel s) c\<rparr>"

text \<open>Write a string to guest memory and answer its length, or 0 where it does not fit.\<close>

definition give_string :: "string \<Rightarrow> i32 \<Rightarrow> 'g vm \<Rightarrow> u64 \<times> 'g vm" where
  "give_string str out_ptr s =
     (case mem_write (usize_of out_ptr) (as_bytes str) s of
        Some s' \<Rightarrow> (unsigned (word_of_nat (length str) :: i32), s')
      | None \<Rightarrow> (0, s))"

text \<open>A host function answers a value to the guest (i32 results zero-extended), or traps it.\<close>

fun host_function :: "host_call \<Rightarrow> 'g vm \<Rightarrow> u64 option \<times> 'g vm" where
  "host_function (HostGetCaller out_ptr) s =
     (let s1 = charge HOST_GET_CALLER s; (n, s2) = give_string (ctx_caller (vm_ctx s1)) out_ptr s1
      in (Some n, s2))"
| "host_function HostGetSatoshis s =
     (let s1 = charge HOST_GET_SATOSHIS s in (Some (ctx_satoshis (vm_ctx s1)), s1))"
| "host_function (HostGetSeal out_ptr) s =
     (let s1 = charge HOST_GET_SEAL s;
          (n, s2) = give_string (seal_display (ctx_seal (vm_ctx s1))) out_ptr s1
      in (Some n, s2))"
| "host_function (HostEmitEvent topic_ptr data_ptr len) s =
     (let s1 = charge HOST_EMIT_EVENT s in
      case vm_memory s1 of
        None \<Rightarrow> (Some 0, s1)
      | Some mem \<Rightarrow>
          (let topic = read_guest_string mem (usize_of topic_ptr) 64;
               n = (if sint len < 0 then 0 else unat len) in
           case mem_read (usize_of data_ptr) n s1 of
             None \<Rightarrow> (Some 0, s1)
           | Some d \<Rightarrow>
               (Some 0, s1\<lparr>vm_ctx := vm_ctx s1\<lparr>ctx_events :=
                  ctx_events (vm_ctx s1) @ [\<lparr>ev_topic = topic, ev_data = utf8_lossy d\<rparr>]\<rparr>\<rparr>)))"
| "host_function (HostCreateObject code_hash_ptr state_ptr state_len satoshis) s =
     (let s1 = charge HOST_CREATE_OBJECT s in
      if sint state_len < 0 \<or> MAX_STATE_SIZE < unat state_len then (None, s1)
      else case vm_memory s1 of
        None \<Rightarrow> (None, s1)
      | Some mem \<Rightarrow>
          (let code_hash = read_guest_string mem (usize_of code_hash_ptr) 64 in
           case mem_read (usize_of state_ptr) (unat state_len) s1 of
             None \<Rightarrow> (None, s1)
           | Some d \<Rightarrow>
               (Some 1, s1\<lparr>vm_ctx := vm_ctx s1\<lparr>ctx_created_objects := ctx_created_objects (vm_ctx s1)
                  @ [\<lparr>co_code_hash = code_hash, co_initial_state = d, co_satoshis = satoshis\<rparr>]\<rparr>\<rparr>)))"
| "host_function (HostStealthSettle addr_ptr satoshis) s =
     (let s1 = charge HOST_STEALTH_SETTLE s in
      case vm_memory s1 of
        None \<Rightarrow> (Some 0, s1)
      | Some mem \<Rightarrow>
          (Some 1, s1\<lparr>vm_ctx := vm_ctx s1\<lparr>ctx_stealth_settlements := ctx_stealth_settlements (vm_ctx s1)
             @ [\<lparr>ss_stealth_address = read_guest_string mem (usize_of addr_ptr) 128,
                 ss_satoshis = satoshis\<rparr>]\<rparr>\<rparr>))"
| "host_function (HostMwebPegOut addr_ptr satoshis) s =
     (let s1 = charge HOST_MWEB_PEG_OUT s in
      case vm_memory s1 of
        None \<Rightarrow> (Some 0, s1)
      | Some mem \<Rightarrow>
          (Some 1, s1\<lparr>vm_ctx := vm_ctx s1\<lparr>ctx_mweb_peg_outs := ctx_mweb_peg_outs (vm_ctx s1)
             @ [\<lparr>ss_stealth_address = read_guest_string mem (usize_of addr_ptr) 128,
                 ss_satoshis = satoshis\<rparr>]\<rparr>\<rparr>))"
| "host_function (HostAbort msg file line col) s = (None, s)"

subsection \<open>Guest code as interactions\<close>

datatype 'g activity =
    Done i32
  | Trapping
  | Look "bytes option \<Rightarrow> u64 \<Rightarrow> 'g \<Rightarrow> 'g activity"
  | Put bytes u64 'g "'g activity"
  | Host host_call "u64 \<Rightarrow> 'g activity"

text \<open>
  Running guest code: None is a trap. Put replaces the guest's memory and globals and burns
  fuel, and traps when the fuel does not reach.
\<close>

primrec run :: "'g activity \<Rightarrow> 'g vm \<Rightarrow> i32 option \<times> 'g vm" where
  "run (Done v) = (\<lambda>s. (Some v, s))"
| "run Trapping = (\<lambda>s. (None, s))"
| "run (Look k) = (\<lambda>s. run (k (vm_memory s) (vm_fuel s) (vm_globals s)) s)"
| "run (Put mem cost g k) = (\<lambda>s.
     if vm_fuel s < cost then (None, s\<lparr>vm_fuel := 0\<rparr>)
     else run k (s\<lparr>vm_memory := map_option (\<lambda>_. mem) (vm_memory s), vm_fuel := vm_fuel s - cost,
                   vm_globals := g\<rparr>))"
| "run (Host c k) = (\<lambda>s.
     case host_function c s of
       (None, s') \<Rightarrow> (None, s')
     | (Some v, s') \<Rightarrow> run (k v) s')"

datatype fn_sig = Sig_I_I | Sig_II_I | Sig_II_U | Sig_III_I | Sig_U_I

record 'g wasm_module =
  mod_links :: bool
  mod_memory :: "bytes option"
  mod_globals :: 'g
  mod_start :: "'g activity option"
  mod_export :: "string \<Rightarrow> fn_sig \<Rightarrow> (i32 list \<Rightarrow> 'g activity) option"

type_synonym 'g engine = "bytes \<Rightarrow> 'g wasm_module option"

section \<open>deploy and execute\<close>

type_synonym ('g, 'a) vm_step = "'g vm \<Rightarrow> vm_error + 'a \<times> 'g vm"

definition vret :: "'a \<Rightarrow> ('g, 'a) vm_step" where
  "vret x = (\<lambda>s. Inr (x, s))"

definition vfail :: "vm_error \<Rightarrow> ('g, 'a) vm_step" where
  "vfail e = (\<lambda>s. Inl e)"

definition vbind :: "('g, 'a) vm_step \<Rightarrow> ('a \<Rightarrow> ('g, 'b) vm_step) \<Rightarrow> ('g, 'b) vm_step" where
  "vbind m f = (\<lambda>s. case m s of Inl e \<Rightarrow> Inl e | Inr (x, s') \<Rightarrow> f x s')"

text \<open>A guest call whose trap is the error e, and one whose trap reads as 0 (unwrap_or(0)).\<close>

definition call_or_fail :: "vm_error \<Rightarrow> 'g activity \<Rightarrow> ('g, i32) vm_step" where
  "call_or_fail e a = (\<lambda>s. case run a s of (Some v, s') \<Rightarrow> Inr (v, s') | (None, s') \<Rightarrow> Inl e)"

definition call_or_zero :: "'g activity \<Rightarrow> ('g, i32) vm_step" where
  "call_or_zero a = (\<lambda>s. case run a s of (Some v, s') \<Rightarrow> Inr (v, s') | (None, s') \<Rightarrow> Inr (0, s'))"

definition write_or_fail :: "i32 \<Rightarrow> bytes \<Rightarrow> ('g, unit) vm_step" where
  "write_or_fail ptr bs = (\<lambda>s.
     case mem_write (usize_of ptr) bs s of Some s' \<Rightarrow> Inr ((), s') | None \<Rightarrow> Inl MemoryWriteError)"

definition read_or_fail :: "i32 \<Rightarrow> nat \<Rightarrow> ('g, bytes) vm_step" where
  "read_or_fail ptr n = (\<lambda>s.
     case mem_read (usize_of ptr) n s of Some d \<Rightarrow> Inr (d, s) | None \<Rightarrow> Inl MemoryReadError)"

definition len_i32 :: "'a list \<Rightarrow> i32" where
  "len_i32 xs = word_of_nat (length xs)"

definition allocate_guest :: "'g wasm_module \<Rightarrow> i32 \<Rightarrow> ('g, i32) vm_step" where
  "allocate_guest m n_bytes =
     (case mod_export m ''allocate'' Sig_I_I of
        None \<Rightarrow> vfail MissingAllocate
      | Some f \<Rightarrow> call_or_fail AllocateTrap (f [n_bytes]))"

definition deallocate_guest :: "'g wasm_module \<Rightarrow> i32 \<Rightarrow> i32 \<Rightarrow> ('g, i32) vm_step" where
  "deallocate_guest m ptr n_bytes =
     (case mod_export m ''deallocate'' Sig_II_I of
        Some f \<Rightarrow> call_or_zero (f [ptr, n_bytes])
      | None \<Rightarrow>
          (case mod_export m ''deallocate'' Sig_II_U of
             Some f \<Rightarrow> call_or_zero (f [ptr, n_bytes])
           | None \<Rightarrow> vret 0))"

text \<open>Set the fuel, resolve the imports, run the start function, and find the memory.\<close>

definition instantiate :: "'g wasm_module \<Rightarrow> vm_config \<Rightarrow> host_context \<Rightarrow> vm_error + 'g vm" where
  "instantiate m cfg ctx =
     (let s = \<lparr>vm_memory = mod_memory m, vm_fuel = max_gas cfg, vm_ctx = ctx, vm_globals = mod_globals m\<rparr> in
      if \<not> mod_links m then Inl InstantiationError
      else (case mod_start m of
              None \<Rightarrow> Inr s
            | Some a \<Rightarrow> (case run a s of (None, s') \<Rightarrow> Inl InstantiationError | (Some _, s') \<Rightarrow> Inr s')))"

definition state_buf_size :: "'g wasm_module \<Rightarrow> ('g, i32) vm_step" where
  "state_buf_size m =
     (case mod_export m ''get_state_size'' Sig_U_I of
        None \<Rightarrow> vret (word_of_nat GET_STATE_BUF_SIZE)
      | Some f \<Rightarrow> vbind (call_or_zero (f []))
          (\<lambda>actual. vret (if 0 < sint actual
                          then (if sint actual \<le> int MAX_STATE_SIZE then actual else word_of_nat MAX_STATE_SIZE)
                          else word_of_nat GET_STATE_BUF_SIZE)))"

text \<open>The get_state section of deploy and execute: the old bytes stay where the guest has no
  get_state or answers no positive length.\<close>

definition collect_state :: "'g wasm_module \<Rightarrow> bytes \<Rightarrow> ('g, bytes) vm_step" where
  "collect_state m old =
     (case mod_export m ''get_state'' Sig_I_I of
        None \<Rightarrow> vret old
      | Some get_state \<Rightarrow>
          vbind (state_buf_size m) (\<lambda>buf_size.
          vbind (allocate_guest m buf_size) (\<lambda>ptr.
          vbind (call_or_zero (get_state [ptr])) (\<lambda>len.
          if sint buf_size < sint len then vfail (StateOverflow len buf_size)
          else vbind (if 0 < sint len then read_or_fail ptr (unat len) else vret old) (\<lambda>d.
               vbind (deallocate_guest m ptr buf_size) (\<lambda>_. vret d))))))"

definition result_of :: "vm_config \<Rightarrow> i32 \<Rightarrow> bytes \<Rightarrow> 'g vm \<Rightarrow> execution_result" where
  "result_of cfg code d s =
     \<lparr>res_gas_consumed = saturating_sub_u64 (max_gas cfg) (vm_fuel s), res_return_code = code,
      res_updated_state_data = d, res_events = ctx_events (vm_ctx s),
      res_created_objects = ctx_created_objects (vm_ctx s),
      res_stealth_settlements = ctx_stealth_settlements (vm_ctx s),
      res_mweb_peg_outs = ctx_mweb_peg_outs (vm_ctx s)\<rparr>"

definition finish :: "vm_config \<Rightarrow> ('g, i32 \<times> bytes) vm_step \<Rightarrow> 'g vm \<Rightarrow> vm_error + execution_result" where
  "finish cfg m s = (case m s of Inl e \<Rightarrow> Inl e | Inr ((code, d), s') \<Rightarrow> Inr (result_of cfg code d s'))"

definition run_init :: "'g wasm_module \<Rightarrow> bytes \<Rightarrow> ('g, i32) vm_step" where
  "run_init m init_args =
     (case mod_export m ''init'' Sig_II_I of
        None \<Rightarrow> vret 0
      | Some init \<Rightarrow>
          vbind (if init_args = [] then vret 0
                 else vbind (allocate_guest m (len_i32 init_args)) (\<lambda>ptr.
                      vbind (write_or_fail ptr init_args) (\<lambda>_. vret ptr))) (\<lambda>args_ptr.
          vbind (call_or_fail InitTrap (init [args_ptr, len_i32 init_args])) (\<lambda>code.
          vbind (if init_args = [] then vret 0 else deallocate_guest m args_ptr (len_i32 init_args)) (\<lambda>_.
          vret code))))"

definition deploy :: "'g engine \<Rightarrow> vm_config \<Rightarrow> bytes \<Rightarrow> string \<Rightarrow> single_use_seal \<Rightarrow> u64 \<Rightarrow> bytes
    \<Rightarrow> vm_error + execution_result" where
  "deploy E cfg wasm caller seal satoshis init_args =
     (case E wasm of
        None \<Rightarrow> Inl CompileError
      | Some m \<Rightarrow>
          (case instantiate m cfg (host_context_new caller seal satoshis) of
             Inl e \<Rightarrow> Inl e
           | Inr s \<Rightarrow>
               if vm_memory s = None then Inl MemoryNotExported
               else finish cfg
                 (vbind (run_init m init_args) (\<lambda>code.
                  vbind (collect_state m []) (\<lambda>d.
                  vret (code, if d = [] then init_args else d)))) s))"

definition restore_state :: "'g wasm_module \<Rightarrow> bytes \<Rightarrow> ('g, i32) vm_step" where
  "restore_state m d =
     (if d = [] then vret 0
      else vbind (allocate_guest m (len_i32 d)) (\<lambda>ptr.
           vbind (write_or_fail ptr d) (\<lambda>_.
           vbind (case mod_export m ''restore_state'' Sig_II_I of
                    None \<Rightarrow> vret 0
                  | Some f \<Rightarrow> call_or_fail RestoreTrap (f [ptr, len_i32 d])) (\<lambda>_.
           deallocate_guest m ptr (len_i32 d)))))"

definition pass_bytes :: "'g wasm_module \<Rightarrow> bytes \<Rightarrow> ('g, i32) vm_step" where
  "pass_bytes m bs =
     vbind (allocate_guest m (len_i32 bs)) (\<lambda>ptr. vbind (write_or_fail ptr bs) (\<lambda>_. vret ptr))"

definition missing_abi :: "'g wasm_module \<Rightarrow> bytes \<Rightarrow> bytes \<Rightarrow> bool" where
  "missing_abi m args state_data \<longleftrightarrow>
     mod_export m ''allocate'' Sig_I_I = None
     \<and> (args \<noteq> [] \<or> state_data \<noteq> [] \<or> mod_export m ''get_state'' Sig_I_I \<noteq> None
        \<or> mod_export m ''call'' Sig_III_I \<noteq> None)"

definition run_call :: "'g wasm_module \<Rightarrow> string \<Rightarrow> bytes \<Rightarrow> ('g, i32) vm_step" where
  "run_call m mname args =
     (let method_bytes = as_bytes mname @ [0];
          has_alloc = (mod_export m ''allocate'' Sig_I_I \<noteq> None) in
      vbind (if has_alloc then pass_bytes m method_bytes else vret 0) (\<lambda>method_ptr.
      vbind (if args \<noteq> [] then pass_bytes m args else vret 0) (\<lambda>args_ptr.
      vbind (case mod_export m ''call'' Sig_III_I of
               None \<Rightarrow> vret 0
             | Some f \<Rightarrow> call_or_fail CallTrap (f [method_ptr, args_ptr, len_i32 args])) (\<lambda>code.
      vbind (if method_ptr \<noteq> 0 then deallocate_guest m method_ptr (len_i32 method_bytes) else vret 0) (\<lambda>_.
      vbind (if args \<noteq> [] then deallocate_guest m args_ptr (len_i32 args) else vret 0) (\<lambda>_.
      vret code))))))"

definition execute :: "libs \<Rightarrow> 'g engine \<Rightarrow> vm_config \<Rightarrow> bytes \<Rightarrow> smart_object_state \<Rightarrow> string \<Rightarrow> string
    \<Rightarrow> bytes \<Rightarrow> vm_error + execution_result" where
  "execute L E cfg wasm st caller mname args =
     (if sos_code_hash st \<noteq> [] \<and> calculate_code_hash L wasm \<noteq> sos_code_hash st
      then Inl (CodeHashMismatch (sos_code_hash st) (calculate_code_hash L wasm))
      else case E wasm of
        None \<Rightarrow> Inl CompileError
      | Some m \<Rightarrow>
          (case instantiate m cfg (host_context_from_state st caller) of
             Inl e \<Rightarrow> Inl e
           | Inr s \<Rightarrow>
               if vm_memory s = None then Inl MemoryNotExported
               else if missing_abi m args (sos_state_data st) then Inl MissingAllocate
               else finish cfg
                 (vbind (restore_state m (sos_state_data st)) (\<lambda>_.
                  vbind (run_call m mname args) (\<lambda>code.
                  vbind (collect_state m (sos_state_data st)) (\<lambda>d. vret (code, d))))) s))"

section \<open>Metering\<close>

text \<open>
  What the recorded effects must have cost, and the invariant of a metered machine: the fuel
  never exceeds the limit, every effect on record has been paid for unless the fuel is
  exhausted, and created objects respect the size cap.
\<close>

definition effects_cost :: "host_context \<Rightarrow> nat" where
  "effects_cost c = 500 * length (ctx_events c) + 1000 * length (ctx_created_objects c)
     + 500 * length (ctx_stealth_settlements c) + 500 * length (ctx_mweb_peg_outs c)"

definition metered :: "u64 \<Rightarrow> 'g vm \<Rightarrow> bool" where
  "metered mx s \<longleftrightarrow> vm_fuel s \<le> mx
     \<and> (vm_fuel s = 0 \<or> unat (vm_fuel s) + effects_cost (vm_ctx s) \<le> unat mx)
     \<and> (\<forall>x \<in> set (ctx_created_objects (vm_ctx s)). length (co_initial_state x) \<le> MAX_STATE_SIZE)"

lemmas host_costs = HOST_GET_CALLER_def HOST_GET_SATOSHIS_def HOST_GET_SEAL_def HOST_EMIT_EVENT_def
  HOST_CREATE_OBJECT_def HOST_STEALTH_SETTLE_def HOST_MWEB_PEG_OUT_def

lemma charge_metered:
  assumes m: "metered mx s"
    and ctx: "effects_cost ctx \<le> effects_cost (vm_ctx s) + unat c"
    and cap: "\<forall>x \<in> set (ctx_created_objects ctx). length (co_initial_state x) \<le> MAX_STATE_SIZE"
  shows "metered mx ((charge c s)\<lparr>vm_ctx := ctx\<rparr>)"
proof -
  have fuel: "unat (saturating_sub_u64 (vm_fuel s) c) = unat (vm_fuel s) - unat c"
    by (simp add: unat_saturating_sub)
  have le: "saturating_sub_u64 (vm_fuel s) c \<le> mx"
    using m fuel by (simp add: metered_def word_le_nat_alt le_diff_conv)
  have zero: "saturating_sub_u64 (vm_fuel s) c = 0 \<longleftrightarrow> unat (vm_fuel s) \<le> unat c"
    using fuel by (metis diff_is_0_eq unat_0 unat_eq_zero)
  have "saturating_sub_u64 (vm_fuel s) c = 0
      \<or> unat (saturating_sub_u64 (vm_fuel s) c) + effects_cost ctx \<le> unat mx"
  proof (cases "unat (vm_fuel s) \<le> unat c")
    case True
    with zero show ?thesis by simp
  next
    case False
    then have "vm_fuel s \<noteq> 0" by auto
    with m have "unat (vm_fuel s) + effects_cost (vm_ctx s) \<le> unat mx" by (simp add: metered_def)
    with False ctx fuel have "unat (saturating_sub_u64 (vm_fuel s) c) + effects_cost ctx \<le> unat mx"
      by linarith
    then show ?thesis ..
  qed
  with le cap show ?thesis by (simp add: metered_def charge_def)
qed

lemma charge_metered_same: "metered mx s \<Longrightarrow> metered mx (charge c s)"
  using charge_metered [of mx s "vm_ctx s" c] by (simp add: metered_def charge_def)

lemma metered_memory [simp]: "metered mx (s\<lparr>vm_memory := m\<rparr>) = metered mx s"
  by (simp add: metered_def)

lemma mem_write_Some: "mem_write p bs s = Some s' \<Longrightarrow> \<exists>m. s' = s\<lparr>vm_memory := Some m\<rparr>"
  by (auto simp: mem_write_def split: option.splits if_splits)

lemma give_string_state: "\<exists>m. snd (give_string str p s) = s\<lparr>vm_memory := m\<rparr>"
proof (cases "mem_write (usize_of p) (as_bytes str) s")
  case None
  then have "snd (give_string str p s) = s\<lparr>vm_memory := vm_memory s\<rparr>" by (simp add: give_string_def)
  then show ?thesis by blast
next
  case (Some s')
  then show ?thesis by (auto simp: give_string_def dest: mem_write_Some)
qed

lemma give_string_metered: "metered mx s \<Longrightarrow> metered mx (snd (give_string str p s))"
  using give_string_state [of str p s] by auto

lemma charge_ctx [simp]: "vm_ctx (charge c s) = vm_ctx s" "vm_memory (charge c s) = vm_memory s"
  by (simp_all add: charge_def)

lemma mem_read_length: "mem_read p n s = Some d \<Longrightarrow> length d = n"
  by (auto simp: mem_read_def split: option.splits if_splits)

lemma metered_created:
  "metered mx s \<Longrightarrow> \<forall>x \<in> set (ctx_created_objects (vm_ctx s)). length (co_initial_state x) \<le> MAX_STATE_SIZE"
  by (simp add: metered_def)

lemma host_function_metered: "metered mx s \<Longrightarrow> metered mx (snd (host_function c s))"
proof (cases c)
  case (HostGetCaller p)
  assume "metered mx s"
  then show ?thesis
    unfolding HostGetCaller
    by (simp add: Let_def split_def give_string_metered charge_metered_same)
next
  case (HostGetSeal p)
  assume "metered mx s"
  then show ?thesis
    unfolding HostGetSeal
    by (simp add: Let_def split_def give_string_metered charge_metered_same)
next
  case (HostEmitEvent t p n)
  assume "metered mx s"
  with metered_created [OF this] show ?thesis
    unfolding HostEmitEvent
    by (auto simp: Let_def charge_metered_same effects_cost_def host_costs split: option.split
        intro!: charge_metered)
next
  case (HostCreateObject h p n v)
  assume "metered mx s"
  with metered_created [OF this] show ?thesis
    unfolding HostCreateObject
    by (auto simp: Let_def charge_metered_same effects_cost_def host_costs split: option.split
        dest!: mem_read_length intro!: charge_metered)
next
  case (HostStealthSettle a v)
  assume "metered mx s"
  with metered_created [OF this] show ?thesis
    unfolding HostStealthSettle
    by (auto simp: Let_def charge_metered_same effects_cost_def host_costs split: option.split
        intro!: charge_metered)
next
  case (HostMwebPegOut a v)
  assume "metered mx s"
  with metered_created [OF this] show ?thesis
    unfolding HostMwebPegOut
    by (auto simp: Let_def charge_metered_same effects_cost_def host_costs split: option.split
        intro!: charge_metered)
qed (simp_all add: Let_def charge_metered_same)

lemma run_metered: "metered mx s \<Longrightarrow> metered mx (snd (run a s))"
proof (induction a arbitrary: s)
  case (Look k)
  have "metered mx (snd (run (k (vm_memory s) (vm_fuel s) (vm_globals s)) s))"
    by (rule Look.IH [OF rangeI rangeI rangeI Look.prems])
  then show ?case by simp
next
  case (Put mem cost g a)
  show ?case
  proof (cases "vm_fuel s < cost")
    case True
    with Put.prems show ?thesis by (simp add: metered_def)
  next
    case False
    then have f: "unat (vm_fuel s - cost) \<le> unat (vm_fuel s)"
      by (simp add: unat_sub not_less)
    have z: "vm_fuel s = 0 \<Longrightarrow> vm_fuel s - cost = 0"
      using False by (simp add: not_less)
    from f z Put.prems have "metered mx (s\<lparr>vm_memory := map_option (\<lambda>_. mem) (vm_memory s),
        vm_fuel := vm_fuel s - cost, vm_globals := g\<rparr>)"
      by (auto simp: metered_def word_le_nat_alt)
    then show ?thesis using False Put.IH by simp
  qed
next
  case (Host c k)
  have "metered mx (snd (host_function c s))" by (rule host_function_metered) (rule Host.prems)
  then show ?case using Host.IH by (auto split: prod.split option.split)
qed auto

subsection \<open>The steps of deploy and execute\<close>

text \<open>A step keeps P when it does so on success; the rules lift this to the whole of execute.\<close>

definition keeps :: "('g vm \<Rightarrow> bool) \<Rightarrow> ('g, 'a) vm_step \<Rightarrow> bool" where
  "keeps P f \<longleftrightarrow> (\<forall>s x s'. P s \<longrightarrow> f s = Inr (x, s') \<longrightarrow> P s')"

named_theorems keeps_rules

lemma keeps_vret [keeps_rules]: "keeps P (vret x)"
  by (simp add: keeps_def vret_def)

lemma keeps_vfail [keeps_rules]: "keeps P (vfail e)"
  by (simp add: keeps_def vfail_def)

lemma keeps_vbind [keeps_rules]: "keeps P m \<Longrightarrow> (\<And>x. keeps P (f x)) \<Longrightarrow> keeps P (vbind m f)"
proof -
  assume m: "keeps P m" and f: "\<And>x. keeps P (f x)"
  have "P s'" if "P s" "vbind m f s = Inr (y, s')" for s y s'
  proof -
    from that(2) obtain x s1 where "m s = Inr (x, s1)" "f x s1 = Inr (y, s')"
      by (cases "m s") (auto simp: vbind_def)
    with m f that(1) show ?thesis unfolding keeps_def by blast
  qed
  then show ?thesis by (simp add: keeps_def)
qed

lemma keeps_if [keeps_rules]: "(b \<Longrightarrow> keeps P f) \<Longrightarrow> (\<not> b \<Longrightarrow> keeps P g) \<Longrightarrow> keeps P (if b then f else g)"
  by simp

lemma keeps_option [keeps_rules]:
  "(v = None \<Longrightarrow> keeps P f) \<Longrightarrow> (\<And>x. v = Some x \<Longrightarrow> keeps P (g x)) \<Longrightarrow>
     keeps P (case v of None \<Rightarrow> f | Some x \<Rightarrow> g x)"
  by (simp split: option.split)

lemma keeps_call [keeps_rules]:
  "keeps (metered mx) (call_or_fail e a)" "keeps (metered mx) (call_or_zero a)"
proof -
  have *: "run a s = (r, s') \<Longrightarrow> metered mx s \<Longrightarrow> metered mx s'" for r s s'
    using run_metered [of mx s a] by simp
  show "keeps (metered mx) (call_or_fail e a)"
    by (auto simp: keeps_def call_or_fail_def split: prod.splits option.splits dest: *)
  show "keeps (metered mx) (call_or_zero a)"
    by (auto simp: keeps_def call_or_zero_def split: prod.splits option.splits dest: *)
qed

lemma keeps_memory [keeps_rules]:
  "keeps (metered mx) (write_or_fail p bs)" "keeps (metered mx) (read_or_fail p n)"
  by (auto simp: keeps_def write_or_fail_def read_or_fail_def split: option.splits dest!: mem_write_Some)

lemma keeps_allocate [keeps_rules]:
  "keeps (metered mx) (allocate_guest m n)" "keeps (metered mx) (deallocate_guest m p n)"
  unfolding allocate_guest_def deallocate_guest_def by (intro keeps_rules)+

lemma keeps_collect [keeps_rules]: "keeps (metered mx) (collect_state m old)"
  unfolding collect_state_def state_buf_size_def by (intro keeps_rules)

lemma keeps_run [keeps_rules]:
  "keeps (metered mx) (restore_state m d)" "keeps (metered mx) (run_call m mname args)"
  "keeps (metered mx) (run_init m d)"
  unfolding restore_state_def run_call_def run_init_def pass_bytes_def Let_def by (intro keeps_rules)+

subsection \<open>Bounds of every execution\<close>

lemma instantiate_metered:
  assumes "instantiate m cfg ctx = Inr s" "effects_cost ctx = 0" "ctx_created_objects ctx = []"
  shows "metered (max_gas cfg) s"
proof -
  let ?s = "\<lparr>vm_memory = mod_memory m, vm_fuel = max_gas cfg, vm_ctx = ctx, vm_globals = mod_globals m\<rparr>"
  have "metered (max_gas cfg) ?s" using assms by (simp add: metered_def)
  then have "metered (max_gas cfg) (snd (run a ?s))" for a by (rule run_metered)
  with \<open>metered (max_gas cfg) ?s\<close> assms(1) show ?thesis
    by (auto simp: instantiate_def Let_def split: if_splits option.splits prod.splits)
       (metis snd_conv)+
qed

lemma vbind_Inr: "vbind m f s = Inr (y, s') \<longleftrightarrow> (\<exists>x s1. m s = Inr (x, s1) \<and> f x s1 = Inr (y, s'))"
  by (cases "m s") (auto simp: vbind_def)

lemma sint_pos: "0 < sint (w :: i32) \<Longrightarrow> int (unat w) = sint w"
proof -
  assume pos: "0 < sint w"
  have eq: "sint w = uint w - 2 ^ 32 * of_bool (bit (uint w) 31)"
    by (simp add: sint_uint signed_take_bit_eq_take_bit_minus take_bit_int_eq_self uint_lt2p [of w, simplified])
  have "uint w < 2 ^ 32" using uint_lt2p [of w] by simp
  with eq pos have "\<not> bit (uint w) 31" by auto
  with eq show ?thesis by simp
qed

lemma word_of_nat_i32_bounds:
  "sint (word_of_nat GET_STATE_BUF_SIZE :: i32) = 65536" "sint (word_of_nat MAX_STATE_SIZE :: i32) = 1048576"
  by (simp_all add: GET_STATE_BUF_SIZE_def MAX_STATE_SIZE_def)

lemma state_buf_size_bound: "state_buf_size m s = Inr (b, s') \<Longrightarrow> sint b \<le> int MAX_STATE_SIZE"
  by (auto simp: state_buf_size_def vbind_Inr vret_def word_of_nat_i32_bounds split: option.splits if_splits)
     (auto simp: MAX_STATE_SIZE_def)

lemma collect_state_length:
  assumes "collect_state m old s = Inr (d, s')"
  shows "d = old \<or> length d \<le> MAX_STATE_SIZE"
proof (cases "mod_export m ''get_state'' Sig_I_I")
  case None
  with assms show ?thesis by (simp add: collect_state_def vret_def)
next
  case (Some g)
  have cap: "length e \<le> MAX_STATE_SIZE"
    if "0 < sint len" "\<not> sint b < sint len" "read_or_fail p (unat len) s3 = Inr (e, s4)"
      "state_buf_size m s = Inr (b, s1)" for len :: i32 and b p s3 e s4 s1
  proof -
    from that(3) have "length e = unat len"
      by (auto simp: read_or_fail_def split: option.splits dest: mem_read_length)
    moreover have "int (unat len) = sint len" by (rule sint_pos) (rule that(1))
    ultimately show ?thesis using that(2) state_buf_size_bound [OF that(4)] by linarith
  qed
  from Some assms show ?thesis
    by (auto simp: collect_state_def vbind_Inr vret_def vfail_def split: if_splits dest: cap)
qed

lemma finish_metered:
  assumes run: "finish cfg f s = Inr r" and s: "metered (max_gas cfg) s" and k: "keeps (metered (max_gas cfg)) f"
  shows "res_gas_consumed r \<le> max_gas cfg"
    and "res_gas_consumed r = max_gas cfg \<or>
      500 * length (res_events r) + 1000 * length (res_created_objects r)
        + 500 * length (res_stealth_settlements r) + 500 * length (res_mweb_peg_outs r)
        \<le> unat (res_gas_consumed r)"
    and "\<forall>x \<in> set (res_created_objects r). length (co_initial_state x) \<le> MAX_STATE_SIZE"
proof -
  from run obtain code d s' where fs: "f s = Inr ((code, d), s')" and r: "r = result_of cfg code d s'"
    by (auto simp: finish_def split: sum.splits prod.splits)
  have m: "metered (max_gas cfg) s'" using k s fs unfolding keeps_def by blast
  have gas: "unat (res_gas_consumed r) = unat (max_gas cfg) - unat (vm_fuel s')"
    by (simp add: r result_of_def unat_saturating_sub)
  show "res_gas_consumed r \<le> max_gas cfg" using gas by (simp add: word_le_nat_alt)
  show "res_gas_consumed r = max_gas cfg \<or>
      500 * length (res_events r) + 1000 * length (res_created_objects r)
        + 500 * length (res_stealth_settlements r) + 500 * length (res_mweb_peg_outs r)
        \<le> unat (res_gas_consumed r)"
  proof (cases "vm_fuel s' = 0")
    case True
    then have "res_gas_consumed r = max_gas cfg" using gas by (simp add: word_unat_eq_iff)
    then show ?thesis ..
  next
    case False
    with m have "unat (vm_fuel s') + effects_cost (vm_ctx s') \<le> unat (max_gas cfg)"
      by (simp add: metered_def)
    then have "effects_cost (vm_ctx s') \<le> unat (res_gas_consumed r)" using gas by linarith
    then show ?thesis by (simp add: r result_of_def effects_cost_def)
  qed
  show "\<forall>x \<in> set (res_created_objects r). length (co_initial_state x) \<le> MAX_STATE_SIZE"
    using m by (simp add: metered_def r result_of_def)
qed

text \<open>What a successful execution went through.\<close>

lemma execute_Inr:
  assumes "execute L E cfg wasm st caller mname args = Inr r"
  obtains m s where "E wasm = Some m" "instantiate m cfg (host_context_from_state st caller) = Inr s"
    "sos_code_hash st = [] \<or> calculate_code_hash L wasm = sos_code_hash st"
    "\<not> missing_abi m args (sos_state_data st)"
    "finish cfg (vbind (restore_state m (sos_state_data st)) (\<lambda>_.
       vbind (run_call m mname args) (\<lambda>code.
       vbind (collect_state m (sos_state_data st)) (\<lambda>d. vret (code, d))))) s = Inr r"
  using assms by (auto simp: execute_def split: if_splits option.splits sum.splits)

lemma execute_bounds_aux:
  assumes "execute L E cfg wasm st caller mname args = Inr r"
  shows "res_gas_consumed r \<le> max_gas cfg
    \<and> (res_gas_consumed r = max_gas cfg \<or>
      500 * length (res_events r) + 1000 * length (res_created_objects r)
        + 500 * length (res_stealth_settlements r) + 500 * length (res_mweb_peg_outs r)
        \<le> unat (res_gas_consumed r))
    \<and> (\<forall>x \<in> set (res_created_objects r). length (co_initial_state x) \<le> MAX_STATE_SIZE)
    \<and> (res_updated_state_data r = sos_state_data st \<or> length (res_updated_state_data r) \<le> MAX_STATE_SIZE)"
proof -
  from assms obtain m s where "E wasm = Some m" and i: "instantiate m cfg (host_context_from_state st caller) = Inr s"
    and f: "finish cfg (vbind (restore_state m (sos_state_data st)) (\<lambda>_.
       vbind (run_call m mname args) (\<lambda>code.
       vbind (collect_state m (sos_state_data st)) (\<lambda>d. vret (code, d))))) s = Inr r"
    by (blast elim: execute_Inr)
  have s: "metered (max_gas cfg) s"
    by (rule instantiate_metered [OF i]) (simp_all add: host_context_from_state_def effects_cost_def)
  note b = finish_metered [OF f s]
  have k: "keeps (metered (max_gas cfg)) (vbind (restore_state m (sos_state_data st)) (\<lambda>_.
       vbind (run_call m mname args) (\<lambda>code.
       vbind (collect_state m (sos_state_data st)) (\<lambda>d. vret (code, d)))))"
    by (intro keeps_rules)
  have "res_updated_state_data r = sos_state_data st \<or> length (res_updated_state_data r) \<le> MAX_STATE_SIZE"
    using f by (auto simp: finish_def vbind_Inr vret_def result_of_def split: sum.splits
        dest!: collect_state_length)
  with b [OF k] show ?thesis by blast
qed

text \<open>The same for a deployment.\<close>

lemma deploy_bounds:
  assumes "deploy E cfg wasm caller seal satoshis init_args = Inr r"
  shows "res_gas_consumed r \<le> max_gas cfg"
    and "res_gas_consumed r = max_gas cfg \<or>
      500 * length (res_events r) + 1000 * length (res_created_objects r)
        + 500 * length (res_stealth_settlements r) + 500 * length (res_mweb_peg_outs r)
        \<le> unat (res_gas_consumed r)"
    and "\<forall>x \<in> set (res_created_objects r). length (co_initial_state x) \<le> MAX_STATE_SIZE"
proof -
  from assms obtain m s where "E wasm = Some m" and i: "instantiate m cfg (host_context_new caller seal satoshis) = Inr s"
    and f: "finish cfg (vbind (run_init m init_args) (\<lambda>code. vbind (collect_state m []) (\<lambda>d.
       vret (code, if d = [] then init_args else d)))) s = Inr r"
    by (auto simp: deploy_def split: if_splits option.splits sum.splits)
  have s: "metered (max_gas cfg) s"
    by (rule instantiate_metered [OF i]) (simp_all add: host_context_new_def effects_cost_def)
  have k: "keeps (metered (max_gas cfg)) (vbind (run_init m init_args) (\<lambda>code. vbind (collect_state m []) (\<lambda>d.
       vret (code, if d = [] then init_args else d))))"
    by (intro keeps_rules)
  note b = finish_metered [OF f s k]
  show "res_gas_consumed r \<le> max_gas cfg" by (rule b)
  show "res_gas_consumed r = max_gas cfg \<or>
      500 * length (res_events r) + 1000 * length (res_created_objects r)
        + 500 * length (res_stealth_settlements r) + 500 * length (res_mweb_peg_outs r)
        \<le> unat (res_gas_consumed r)" by (rule b)
  show "\<forall>x \<in> set (res_created_objects r). length (co_initial_state x) \<le> MAX_STATE_SIZE" by (rule b)
qed

section \<open>What a guest can do to its machine\<close>

text \<open>The host context after a call extends the one before: identity kept, logs only appended to.\<close>

definition ctx_extends :: "host_context \<Rightarrow> host_context \<Rightarrow> bool" where
  "ctx_extends c d \<longleftrightarrow> ctx_caller d = ctx_caller c \<and> ctx_seal d = ctx_seal c \<and> ctx_satoshis d = ctx_satoshis c
     \<and> (\<exists>es. ctx_events d = ctx_events c @ es)
     \<and> (\<exists>cs. ctx_created_objects d = ctx_created_objects c @ cs)
     \<and> (\<exists>ss. ctx_stealth_settlements d = ctx_stealth_settlements c @ ss)
     \<and> (\<exists>ms. ctx_mweb_peg_outs d = ctx_mweb_peg_outs c @ ms)"

lemma ctx_extends_refl [simp]: "ctx_extends c c"
  by (simp add: ctx_extends_def)

lemma ctx_extends_trans: "ctx_extends a b \<Longrightarrow> ctx_extends b c \<Longrightarrow> ctx_extends a c"
  by (auto simp: ctx_extends_def)

definition confined :: "'g vm \<Rightarrow> 'g vm \<Rightarrow> bool" where
  "confined s s' \<longleftrightarrow> ctx_extends (vm_ctx s) (vm_ctx s') \<and> vm_fuel s' \<le> vm_fuel s
     \<and> (vm_memory s' = None \<longleftrightarrow> vm_memory s = None)"

lemma confined_trans: "confined a b \<Longrightarrow> confined b c \<Longrightarrow> confined a c"
  by (auto simp: confined_def intro: ctx_extends_trans)

lemma charge_confined: "confined s (charge c s)"
  by (simp add: confined_def charge_def word_le_nat_alt unat_saturating_sub)

lemma charge_effect_confined: "ctx_extends (vm_ctx s) ctx \<Longrightarrow> confined s ((charge c s)\<lparr>vm_ctx := ctx\<rparr>)"
  by (simp add: confined_def charge_def word_le_nat_alt unat_saturating_sub)

lemma give_string_confined: "confined s (snd (give_string str p s))"
  by (auto simp: give_string_def mem_write_def confined_def split: option.splits if_splits)

lemma host_function_confined: "confined s (snd (host_function c s))"
proof (cases c)
  case (HostGetCaller p)
  show ?thesis unfolding HostGetCaller
    by (simp add: Let_def split_def) (rule confined_trans [OF charge_confined give_string_confined])
next
  case (HostGetSeal p)
  show ?thesis unfolding HostGetSeal
    by (simp add: Let_def split_def) (rule confined_trans [OF charge_confined give_string_confined])
next
  case (HostEmitEvent t p n)
  show ?thesis unfolding HostEmitEvent
    by (auto simp: Let_def charge_confined ctx_extends_def split: option.split intro!: charge_effect_confined)
next
  case (HostCreateObject h p n v)
  show ?thesis unfolding HostCreateObject
    by (auto simp: Let_def charge_confined ctx_extends_def split: option.split intro!: charge_effect_confined)
next
  case (HostStealthSettle a v)
  show ?thesis unfolding HostStealthSettle
    by (auto simp: Let_def charge_confined ctx_extends_def split: option.split intro!: charge_effect_confined)
next
  case (HostMwebPegOut a v)
  show ?thesis unfolding HostMwebPegOut
    by (auto simp: Let_def charge_confined ctx_extends_def split: option.split intro!: charge_effect_confined)
qed (simp_all add: Let_def charge_confined, simp add: confined_def)

text \<open>
  Whatever code a contract consists of, running it leaves the caller, the seal and the
  satoshis of its host context as they were, only appends to the effect logs (events, created
  objects, settlements, peg-outs), and never gains fuel; that holds when the run traps, too.
\<close>

theorem guest_confined:
  "ctx_caller (vm_ctx (snd (run a s))) = ctx_caller (vm_ctx s)
   \<and> ctx_seal (vm_ctx (snd (run a s))) = ctx_seal (vm_ctx s)
   \<and> ctx_satoshis (vm_ctx (snd (run a s))) = ctx_satoshis (vm_ctx s)
   \<and> (\<exists>es. ctx_events (vm_ctx (snd (run a s))) = ctx_events (vm_ctx s) @ es)
   \<and> (\<exists>cs. ctx_created_objects (vm_ctx (snd (run a s))) = ctx_created_objects (vm_ctx s) @ cs)
   \<and> (\<exists>ss. ctx_stealth_settlements (vm_ctx (snd (run a s))) = ctx_stealth_settlements (vm_ctx s) @ ss)
   \<and> (\<exists>ms. ctx_mweb_peg_outs (vm_ctx (snd (run a s))) = ctx_mweb_peg_outs (vm_ctx s) @ ms)
   \<and> vm_fuel (snd (run a s)) \<le> vm_fuel s"
proof -
  have "confined s (snd (run a s))"
  proof (induction a arbitrary: s)
    case (Look k)
    have "confined s (snd (run (k (vm_memory s) (vm_fuel s) (vm_globals s)) s))"
      by (rule Look.IH [OF rangeI rangeI rangeI])
    then show ?case by simp
  next
    case (Put mem cost g a)
    show ?case
    proof (cases "vm_fuel s < cost")
      case True
      then show ?thesis by (simp add: confined_def)
    next
      case False
      then have "unat (vm_fuel s - cost) \<le> unat (vm_fuel s)" by (simp add: unat_sub not_less)
      then have "confined s (s\<lparr>vm_memory := map_option (\<lambda>_. mem) (vm_memory s),
          vm_fuel := vm_fuel s - cost, vm_globals := g\<rparr>)"
        by (simp add: confined_def word_le_nat_alt)
      with False show ?thesis by (auto intro: confined_trans Put.IH)
    qed
  next
    case (Host c k)
    have "confined s (snd (host_function c s))" by (rule host_function_confined)
    then show ?case by (auto split: prod.split option.split intro: confined_trans Host.IH [OF rangeI])
  qed (simp_all add: confined_def)
  then show ?thesis by (simp add: confined_def ctx_extends_def)
qed

section \<open>A contract to run\<close>

text \<open>
  A module for the witnesses: 64 bytes of memory, a bump allocator that always answers 16, a
  call that emits an event and writes the memory, and a state of two bytes.
\<close>

definition demo_exports :: "string \<Rightarrow> fn_sig \<Rightarrow> (i32 list \<Rightarrow> unit activity) option" where
  "demo_exports name sig =
     (if name = ''allocate'' \<and> sig = Sig_I_I then Some (\<lambda>_. Done 16)
      else if name = ''call'' \<and> sig = Sig_III_I
        then Some (\<lambda>_. Host (HostEmitEvent 0 0 0) (\<lambda>_. Put (replicate 64 7) 10 () (Done 1)))
      else if name = ''get_state'' \<and> sig = Sig_I_I then Some (\<lambda>_. Done 2)
      else None)"

definition demo_module :: "unit wasm_module" where
  "demo_module = \<lparr>mod_links = True, mod_memory = Some (replicate 64 0), mod_globals = (),
     mod_start = None, mod_export = demo_exports\<rparr>"

definition demo_engine :: "unit engine" where
  "demo_engine wasm = (if wasm = [0, 97, 115, 109] then Some demo_module else None)"

definition demo_state :: smart_object_state where
  "demo_state = \<lparr>sos_object_id = ''a1'', sos_code_hash = [], sos_seal = \<lparr>seal_txid = ''aa'', seal_vout = 0\<rparr>,
     sos_satoshis = 5, sos_owner_pubkey = ''o'', sos_state_data = []\<rparr>"

definition demo_result :: execution_result where
  "demo_result = \<lparr>res_gas_consumed = 510, res_return_code = 1, res_updated_state_data = [7, 7],
     res_events = [\<lparr>ev_topic = [], ev_data = []\<rparr>], res_created_objects = [],
     res_stealth_settlements = [], res_mweb_peg_outs = []\<rparr>"

lemma demo_execute:
  "execute demo_libs demo_engine default_vm_config [0, 97, 115, 109] demo_state ''c'' ''m'' [] = Inr demo_result"
proof -
  have sizes: "usize_of 0 = 0" "usize_of 16 = 16" by (simp_all add: usize_of_def)
  have two: "replicate 2 (7 :: byte) = [7, 7]" by (simp add: numeral_2_eq_2)
  have empty: "utf8_lossy [] = []" by (subst utf8_lossy.simps) simp
  have fuel: "saturating_sub_u64 25000000 500 = 24999500" "saturating_sub_u64 25000000 24999490 = 510"
    by (simp_all add: saturating_sub_u64_def)
  show ?thesis
    by (simp add: execute_def demo_engine_def instantiate_def missing_abi_def demo_module_def demo_exports_def demo_state_def
        finish_def vbind_def vret_def restore_state_def run_call_def Let_def pass_bytes_def
        allocate_guest_def deallocate_guest_def collect_state_def state_buf_size_def call_or_fail_def
        call_or_zero_def write_or_fail_def read_or_fail_def mem_write_def mem_read_def sizes
        charge_def host_costs fuel read_guest_string_def empty host_context_from_state_def
        result_of_def default_vm_config_def demo_result_def as_bytes_def GET_STATE_BUF_SIZE_def two)
qed

lemma demo_deploy:
  "deploy demo_engine default_vm_config [0, 97, 115, 109] caller seal v [] =
     Inr \<lparr>res_gas_consumed = 0, res_return_code = 0, res_updated_state_data = [0, 0], res_events = [],
       res_created_objects = [], res_stealth_settlements = [], res_mweb_peg_outs = []\<rparr>"
proof -
  have sizes: "usize_of 16 = 16" by (simp add: usize_of_def)
  have two: "replicate 2 (0 :: byte) = [0, 0]" by (simp add: numeral_2_eq_2)
  show ?thesis
    by (simp add: deploy_def demo_engine_def instantiate_def demo_module_def demo_exports_def
        finish_def vbind_def vret_def run_init_def collect_state_def state_buf_size_def allocate_guest_def
        deallocate_guest_def call_or_fail_def call_or_zero_def read_or_fail_def mem_read_def sizes
        host_context_new_def result_of_def default_vm_config_def saturating_sub_u64_def GET_STATE_BUF_SIZE_def two)
qed

text \<open>
  C20. Every successful execution stays within its limits: the gas it reports is at most the limit
  and at least the price of the effects the result carries (500 per event, settlement and
  peg-out, 1000 per created object), or the whole limit where that price is higher; every
  created object and the new state respect the size cap of 1 MiB (a state the contract did not
  touch stays what it was).
\<close>

theorem execute_bounds:
  assumes "execute L E cfg wasm st caller mname args = Inr r"
  shows "res_gas_consumed r \<le> max_gas cfg
    \<and> min (unat (max_gas cfg))
        (500 * length (res_events r) + 1000 * length (res_created_objects r)
           + 500 * length (res_stealth_settlements r) + 500 * length (res_mweb_peg_outs r))
        \<le> unat (res_gas_consumed r)
    \<and> (\<forall>x \<in> set (res_created_objects r). length (co_initial_state x) \<le> MAX_STATE_SIZE)
    \<and> (res_updated_state_data r = sos_state_data st \<or> length (res_updated_state_data r) \<le> MAX_STATE_SIZE)"
  using execute_bounds_aux [OF assms] by auto

lemma execute_bounds_witness:
  "execute demo_libs demo_engine default_vm_config [0, 97, 115, 109] demo_state ''c'' ''m'' [] = Inr demo_result
   \<and> length (res_events demo_result) = 1 \<and> 500 \<le> unat (res_gas_consumed demo_result)"
  using execute_bounds [OF demo_execute] demo_execute by (simp add: demo_result_def default_vm_config_def)

text \<open>
  The limit caps what is paid, not what is recorded: a host function takes what fuel there is and
  does its work all the same. Here an event of price 500 is recorded on a limit of 100.
\<close>

definition eager_engine :: "unit engine" where
  "eager_engine wasm = Some (demo_module\<lparr>mod_export := (\<lambda>name sig.
     if name = ''allocate'' \<and> sig = Sig_I_I then Some (\<lambda>_. Done 16)
     else if name = ''call'' \<and> sig = Sig_III_I then Some (\<lambda>_. Host (HostEmitEvent 0 0 0) (\<lambda>_. Done 1))
     else None)\<rparr>)"

lemma exhausted_fuel_unpaid_effect:
  "\<exists>r. execute demo_libs eager_engine \<lparr>max_gas = 100, max_memory_pages = 32\<rparr> [0, 97, 115, 109] demo_state ''c'' ''m'' [] = Inr r
    \<and> length (res_events r) = 1 \<and> res_gas_consumed r = 100"
proof -
  have sizes: "usize_of 0 = 0" "usize_of 16 = 16" by (simp_all add: usize_of_def)
  have fuel: "saturating_sub_u64 100 500 = 0" "saturating_sub_u64 100 0 = 100" by (simp_all add: saturating_sub_u64_def)
  show ?thesis
    by (simp add: execute_def eager_engine_def instantiate_def missing_abi_def demo_module_def demo_state_def
        finish_def vbind_def vret_def restore_state_def run_call_def Let_def pass_bytes_def
        allocate_guest_def deallocate_guest_def collect_state_def call_or_fail_def write_or_fail_def
        mem_write_def mem_read_def sizes charge_def host_costs fuel host_context_from_state_def
        result_of_def as_bytes_def)
qed

end
