(* ===== verification/Fixture.thy ===== *)
theory Fixture
  imports Runtime Codec
begin

text \<open>
  packages/core-vm/src/fixture.rs: replaying a list of deploy and call operations and the
  canonical state root over the final objects. The serde decoding of the document is outside
  the model; verify_fixture starts from its result (None for a document that does not decode).
\<close>

section \<open>The state root\<close>

definition fixture_entry :: "string \<times> bytes \<Rightarrow> bytes" where
  "fixture_entry e = lp_string (fst e) @ lp_bytes (snd e)"

definition fixture_root_input :: "(string \<times> bytes) list \<Rightarrow> bytes" where
  "fixture_root_input states =
     as_bytes ''UTXOVM_STATE_ROOT_V1'' @ concat (map fixture_entry (sort_key fst states))"

definition compute_fixture_state_root :: "libs \<Rightarrow> (string \<times> bytes) list \<Rightarrow> string" where
  "compute_fixture_state_root L states = hex_encode L (sha256 L (fixture_root_input states))"

definition short_entry :: "string \<times> bytes \<Rightarrow> bool" where
  "short_entry e \<longleftrightarrow> short (fst e) \<and> short (snd e)"

interpretation entry_code: prefix_code fixture_entry short_entry
proof unfold_locales
  show "x = y \<and> r = s" if "short_entry x" "short_entry y" "fixture_entry x @ r = fixture_entry y @ s" for x y r s
  proof -
    from that(3) have eq: "lp_string (fst x) @ lp_bytes (snd x) @ r = lp_string (fst y) @ lp_bytes (snd y) @ s"
      by (simp add: fixture_entry_def)
    from lp_code.cancel [OF _ _ eq] that(1,2)
    have "fst x = fst y" "lp_bytes (snd x) @ r = lp_bytes (snd y) @ s" by (auto simp: short_entry_def)
    with lpb_code.cancel [of "snd x" "snd y" r s] that(1,2) show ?thesis
      by (simp add: short_entry_def prod_eq_iff)
  qed
qed

lemma fixture_entry_nonempty: "fixture_entry e \<noteq> []"
  by (simp add: fixture_entry_def lp_string_def) (metis length_len_u32_be list.size(3) zero_neq_numeral)

lemma fixture_root_order: "mset xs = mset ys \<Longrightarrow> distinct (map fst xs) \<Longrightarrow>
  compute_fixture_state_root L xs = compute_fixture_state_root L ys"
  by (simp add: compute_fixture_state_root_def fixture_root_input_def sort_key_distinct_perm [of xs ys fst])

lemma fixture_root_input_inj:
  assumes "list_all short_entry xs" "list_all short_entry ys" "fixture_root_input xs = fixture_root_input ys"
  shows "sort_key fst xs = sort_key fst ys"
proof (rule entry_code.concat_inj)
  show "list_all short_entry (sort_key fst xs)" "list_all short_entry (sort_key fst ys)"
    using assms(1,2) by (simp_all add: list_all_iff)
  show "concat (map fixture_entry (sort_key fst xs)) = concat (map fixture_entry (sort_key fst ys))"
    using assms(3) by (simp add: fixture_root_input_def)
qed (rule fixture_entry_nonempty)

lemma hex_encode_inj: "hex_roundtrip L \<Longrightarrow> hex_encode L a = hex_encode L b \<Longrightarrow> a = b"
  by (metis hex_roundtrip_def option.inject)

text \<open>
  The fixture state root identifies the final states: two lists of states (strings and
  states shorter than 4 GiB, object ids distinct) have the same root exactly if they are the
  same up to order, unless the two hashed documents are a SHA-256 collision.
\<close>

theorem fixture_root_identifies:
  assumes "hex_roundtrip L" "list_all short_entry xs" "list_all short_entry ys"
    and "distinct (map fst xs)" "distinct (map fst ys)"
    and "\<not> hash_collision L {fixture_root_input xs, fixture_root_input ys}"
  shows "compute_fixture_state_root L xs = compute_fixture_state_root L ys \<longleftrightarrow> mset xs = mset ys"
proof
  assume "compute_fixture_state_root L xs = compute_fixture_state_root L ys"
  then have "sha256 L (fixture_root_input xs) = sha256 L (fixture_root_input ys)"
    using hex_encode_inj [OF assms(1)] by (simp add: compute_fixture_state_root_def)
  then have "fixture_root_input xs = fixture_root_input ys"
    using assms(6) by (auto simp: hash_collision_def)
  then have "sort_key fst xs = sort_key fst ys" by (rule fixture_root_input_inj [OF assms(2,3)])
  then show "mset xs = mset ys" by (metis mset_sort)
next
  assume "mset xs = mset ys"
  then show "compute_fixture_state_root L xs = compute_fixture_state_root L ys"
    by (rule fixture_root_order) (rule assms(4))
qed

lemma fixture_root_identifies_witness:
  "compute_fixture_state_root demo_libs [(''b'', [2]), (''a'', [1])]
    = compute_fixture_state_root demo_libs [(''a'', [1]), (''b'', [2])]"
proof -
  have same: "fixture_root_input [(''b'', [2]), (''a'', [1])] = fixture_root_input [(''a'', [1]), (''b'', [2])]"
    by (simp add: fixture_root_input_def)
  have ok: "list_all short_entry [(''b'', [2]), (''a'', [1])]" "list_all short_entry [(''a'', [1]), (''b'', [2])]"
    by (simp_all add: short_entry_def short_def)
  have nc: "\<not> hash_collision demo_libs
      {fixture_root_input [(''b'', [2]), (''a'', [1])], fixture_root_input [(''a'', [1]), (''b'', [2])]}"
    by (simp only: same hash_collision_def) simp
  show ?thesis
    using fixture_root_identifies [OF demo_libs_ok(2) ok _ _ nc] by simp
qed

text \<open>With a repeated object id the order of insertion shows in the root's input.\<close>

lemma fixture_root_duplicates:
  "mset [(''a'', [1]), (''a'', [2])] = mset [(''a'', [2]), (''a'', [1 :: byte])]
   \<and> fixture_root_input [(''a'', [1]), (''a'', [2])] \<noteq> fixture_root_input [(''a'', [2]), (''a'', [1])]"
  by (simp add: fixture_root_input_def fixture_entry_def lp_bytes_def add_mset_commute)

section \<open>Replay\<close>

record fixture_op =
  op_type :: string
  op_wasm_hex :: "string option"
  op_caller :: "string option"
  op_seal_txid :: "string option"
  op_seal_vout :: "u32 option"
  op_satoshis :: "u64 option"
  op_init_args_hex :: "string option"
  op_method :: "string option"
  op_args_hex :: "string option"
  op_object_id :: "string option"

record fixture =
  fix_version :: u32
  fix_operations :: "fixture_op list"

datatype fixture_error =
    InvalidFixtureJson
  | UnsupportedVersion u32
  | InvalidHex
  | MissingField nat string
  | UnknownObject nat string
  | UnknownOpType nat string
  | VmFailure nat vm_error

record replay =
  rp_objects :: "(string \<times> bytes \<times> bytes) list"
  rp_total_gas :: u64
  rp_ops_executed :: nat

definition unwrap_or :: "'a \<Rightarrow> 'a option \<Rightarrow> 'a" where
  "unwrap_or d v = (case v of None \<Rightarrow> d | Some x \<Rightarrow> x)"

definition op_seal :: "fixture_op \<Rightarrow> single_use_seal" where
  "op_seal fop = \<lparr>seal_txid = unwrap_or (replicate 64 (CHR ''0'')) (op_seal_txid fop),
     seal_vout = unwrap_or 0 (op_seal_vout fop)\<rparr>"

definition optional_hex :: "libs \<Rightarrow> string option \<Rightarrow> bytes option" where
  "optional_hex L h = (case h of None \<Rightarrow> Some [] | Some s \<Rightarrow> hex_decode L s)"

fun position :: "string \<Rightarrow> (string \<times> bytes \<times> bytes) list \<Rightarrow> nat option" where
  "position key [] = None"
| "position key (e # es) = (if fst e = key then Some 0 else map_option Suc (position key es))"

definition replay_deploy :: "libs \<Rightarrow> 'g engine \<Rightarrow> nat \<Rightarrow> fixture_op \<Rightarrow> replay \<Rightarrow> fixture_error + replay" where
  "replay_deploy L E i fop rp =
     (case op_wasm_hex fop of
        None \<Rightarrow> Inl (MissingField i ''wasm_hex'')
      | Some h \<Rightarrow>
          (case hex_decode L h of
             None \<Rightarrow> Inl InvalidHex
           | Some wasm \<Rightarrow>
               (case optional_hex L (op_init_args_hex fop) of
                  None \<Rightarrow> Inl InvalidHex
                | Some init_args \<Rightarrow>
                    (case deploy E default_vm_config wasm (unwrap_or ''unknown'' (op_caller fop)) (op_seal fop)
                            (unwrap_or 0 (op_satoshis fop)) init_args of
                       Inl e \<Rightarrow> Inl (VmFailure i e)
                     | Inr r \<Rightarrow>
                         Inr (rp\<lparr>rp_objects := rp_objects rp
                                  @ [(unwrap_or (calculate_code_hash L wasm) (op_object_id fop),
                                      res_updated_state_data r, wasm)],
                                rp_total_gas := saturating_add_u64 (rp_total_gas rp) (res_gas_consumed r),
                                rp_ops_executed := rp_ops_executed rp + 1\<rparr>)))))"

definition replay_call :: "libs \<Rightarrow> 'g engine \<Rightarrow> nat \<Rightarrow> fixture_op \<Rightarrow> replay \<Rightarrow> fixture_error + replay" where
  "replay_call L E i fop rp =
     (case op_object_id fop of
        None \<Rightarrow> Inl (MissingField i ''object_id'')
      | Some object_id \<Rightarrow>
          (case position object_id (rp_objects rp) of
             None \<Rightarrow> Inl (UnknownObject i object_id)
           | Some idx \<Rightarrow>
               (let (name, prior_state, wasm) = rp_objects rp ! idx;
                    caller = unwrap_or ''unknown'' (op_caller fop);
                    st = \<lparr>sos_object_id = object_id, sos_code_hash = calculate_code_hash L wasm,
                          sos_seal = op_seal fop, sos_satoshis = unwrap_or 0 (op_satoshis fop),
                          sos_owner_pubkey = caller, sos_state_data = prior_state\<rparr>
                in case optional_hex L (op_args_hex fop) of
                     None \<Rightarrow> Inl InvalidHex
                   | Some method_args \<Rightarrow>
                       (case op_method fop of
                          None \<Rightarrow> Inl (MissingField i ''method'')
                        | Some mname \<Rightarrow>
                            (case execute L E default_vm_config wasm st caller mname method_args of
                               Inl e \<Rightarrow> Inl (VmFailure i e)
                             | Inr r \<Rightarrow>
                                 Inr (rp\<lparr>rp_objects := (rp_objects rp)[idx := (name, res_updated_state_data r, wasm)],
                                        rp_total_gas := saturating_add_u64 (rp_total_gas rp) (res_gas_consumed r),
                                        rp_ops_executed := rp_ops_executed rp + 1\<rparr>))))))"

definition replay_op :: "libs \<Rightarrow> 'g engine \<Rightarrow> nat \<Rightarrow> fixture_op \<Rightarrow> replay \<Rightarrow> fixture_error + replay" where
  "replay_op L E i fop rp =
     (if op_type fop = ''deploy'' then replay_deploy L E i fop rp
      else if op_type fop = ''call'' then replay_call L E i fop rp
      else Inl (UnknownOpType i (op_type fop)))"

fun replay_ops :: "libs \<Rightarrow> 'g engine \<Rightarrow> nat \<Rightarrow> fixture_op list \<Rightarrow> replay \<Rightarrow> fixture_error + replay" where
  "replay_ops L E i [] rp = Inr rp"
| "replay_ops L E i (fop # fops) rp =
     (case replay_op L E i fop rp of
        Inl e \<Rightarrow> Inl e
      | Inr rp' \<Rightarrow> replay_ops L E (Suc i) fops rp')"

record fixture_report =
  fr_state_root :: string
  fr_ops_executed :: nat
  fr_total_gas :: u64
  fr_object_count :: nat
  fr_runtime_version :: string
  fr_runtime_hash :: string

definition verify_fixture :: "libs \<Rightarrow> 'g engine \<Rightarrow> string \<Rightarrow> fixture option \<Rightarrow> fixture_error + fixture_report" where
  "verify_fixture L E pkg_version decoded =
     (case decoded of
        None \<Rightarrow> Inl InvalidFixtureJson
      | Some fx \<Rightarrow>
          if fix_version fx \<noteq> 1 then Inl (UnsupportedVersion (fix_version fx))
          else (case replay_ops L E 0 (fix_operations fx) \<lparr>rp_objects = [], rp_total_gas = 0, rp_ops_executed = 0\<rparr> of
                  Inl e \<Rightarrow> Inl e
                | Inr rp \<Rightarrow>
                    (let states = map (\<lambda>(i, s, w). (i, s)) (rp_objects rp) in
                     Inr \<lparr>fr_state_root = compute_fixture_state_root L states,
                          fr_ops_executed = rp_ops_executed rp, fr_total_gas = rp_total_gas rp,
                          fr_object_count = length states, fr_runtime_version = pkg_version,
                          fr_runtime_hash = calculate_runtime_hash L pkg_version\<rparr>)))"

lemma position_bound: "position key es = Some i \<Longrightarrow> i < length es \<and> fst (es ! i) = key"
  by (induction es arbitrary: i) (auto split: if_splits)

lemma replay_op_step:
  assumes "replay_op L E i fop rp = Inr rp'"
  shows "rp_ops_executed rp' = Suc (rp_ops_executed rp)"
    and "length (rp_objects rp') = length (rp_objects rp) + (if op_type fop = ''deploy'' then 1 else 0)"
    and "unat (rp_total_gas rp') \<le> unat (rp_total_gas rp) + unat (max_gas default_vm_config)"
proof -
  have gas: "unat (saturating_add_u64 g (res_gas_consumed r)) \<le> unat g + unat (max_gas default_vm_config)"
    if "res_gas_consumed r \<le> max_gas default_vm_config" for g r
    using that by (simp add: unat_saturating_add word_le_nat_alt)
  have d: "res_gas_consumed r \<le> max_gas default_vm_config"
    if "deploy E default_vm_config w c sl v a = Inr r" for w c sl v a r
    by (rule deploy_bounds(1) [OF that])
  have e: "res_gas_consumed r \<le> max_gas default_vm_config"
    if "execute L E default_vm_config w st c m a = Inr r" for w st c m a r
    using execute_bounds_aux [OF that] by simp
  from assms show "rp_ops_executed rp' = Suc (rp_ops_executed rp)"
    and "length (rp_objects rp') = length (rp_objects rp) + (if op_type fop = ''deploy'' then 1 else 0)"
    and "unat (rp_total_gas rp') \<le> unat (rp_total_gas rp) + unat (max_gas default_vm_config)"
    by (auto simp: replay_op_def replay_deploy_def replay_call_def Let_def
        split: if_splits option.splits sum.splits prod.splits intro!: gas dest: d e)
qed

lemma replay_ops_bounds:
  "replay_ops L E i fops rp = Inr rp' \<Longrightarrow>
     rp_ops_executed rp' = rp_ops_executed rp + length fops
     \<and> length (rp_objects rp') = length (rp_objects rp) + length (filter (\<lambda>x. op_type x = ''deploy'') fops)
     \<and> unat (rp_total_gas rp') \<le> unat (rp_total_gas rp) + length fops * unat (max_gas default_vm_config)"
proof (induction fops arbitrary: i rp)
  case (Cons fop fops)
  from Cons.prems obtain rp1 where r: "replay_op L E i fop rp = Inr rp1" and
    rest: "replay_ops L E (Suc i) fops rp1 = Inr rp'"
    by (auto split: sum.splits)
  show ?case using replay_op_step [OF r] Cons.IH [OF rest] by auto
qed simp

lemma replay_ops_append:
  "replay_ops L E i (xs @ ys) rp =
     (case replay_ops L E i xs rp of Inl e \<Rightarrow> Inl e | Inr rp' \<Rightarrow> replay_ops L E (i + length xs) ys rp')"
  by (induction xs arbitrary: i rp) (auto split: sum.split)

text \<open>
  An accepted fixture was replayed in full: the report counts every operation of the
  document, one object per deploy operation, and a total gas of at most the default limit per
  operation; and a document split in two replays as its second part after its first.
\<close>

theorem verify_fixture_complete:
  assumes "verify_fixture L E pkg_version (Some fx) = Inr r"
  shows "fr_ops_executed r = length (fix_operations fx)
    \<and> fr_object_count r = length (filter (\<lambda>x. op_type x = ''deploy'') (fix_operations fx))
    \<and> unat (fr_total_gas r) \<le> length (fix_operations fx) * unat (max_gas default_vm_config)
    \<and> (\<forall>xs ys. fix_operations fx = xs @ ys \<longrightarrow>
        (\<exists>mid rp. replay_ops L E 0 xs \<lparr>rp_objects = [], rp_total_gas = 0, rp_ops_executed = 0\<rparr> = Inr mid
          \<and> replay_ops L E (length xs) ys mid = Inr rp
          \<and> fr_state_root r = compute_fixture_state_root L (map (\<lambda>(i, s, w). (i, s)) (rp_objects rp))))"
proof -
  let ?init = "\<lparr>rp_objects = [], rp_total_gas = 0, rp_ops_executed = 0\<rparr>"
  from assms obtain rp where rp: "replay_ops L E 0 (fix_operations fx) ?init = Inr rp"
    and r: "fr_ops_executed r = rp_ops_executed rp" "fr_object_count r = length (rp_objects rp)"
      "fr_total_gas r = rp_total_gas rp"
      "fr_state_root r = compute_fixture_state_root L (map (\<lambda>(i, s, w). (i, s)) (rp_objects rp))"
    by (auto simp: verify_fixture_def Let_def split: if_splits sum.splits)
  have split: "\<exists>mid rp. replay_ops L E 0 xs ?init = Inr mid \<and> replay_ops L E (length xs) ys mid = Inr rp
      \<and> fr_state_root r = compute_fixture_state_root L (map (\<lambda>(i, s, w). (i, s)) (rp_objects rp))"
    if "fix_operations fx = xs @ ys" for xs ys
    using rp that r(4) by (auto simp: replay_ops_append split: sum.splits)
  show ?thesis
    by (intro conjI allI impI split) (use replay_ops_bounds [OF rp] r in simp_all)
qed

lemma verify_fixture_complete_witness:
  "\<exists>fx r. verify_fixture demo_libs demo_engine ''1'' (Some fx) = Inr r \<and> fr_ops_executed r = 1 \<and> fr_object_count r = 1"
proof -
  let ?op = "\<lparr>op_type = ''deploy'', op_wasm_hex = Some ''0061736d'', op_caller = None, op_seal_txid = None,
    op_seal_vout = None, op_satoshis = None, op_init_args_hex = None, op_method = None, op_args_hex = None,
    op_object_id = Some ''a1''\<rparr>"
  let ?fx = "\<lparr>fix_version = 1, fix_operations = [?op]\<rparr>"
  have hex: "hex_decode demo_libs ''0061736d'' = Some [0, 97, 115, 109]"
    by (simp add: demo_libs_def hex_value_def)
  have "\<exists>r. verify_fixture demo_libs demo_engine ''1'' (Some ?fx) = Inr r"
    by (simp add: verify_fixture_def replay_op_def replay_deploy_def hex optional_hex_def demo_deploy Let_def)
  then obtain r where r: "verify_fixture demo_libs demo_engine ''1'' (Some ?fx) = Inr r" ..
  from r verify_fixture_complete [OF r] show ?thesis by (intro exI [of _ ?fx] exI [of _ r]) simp
qed

end
