(* ===== verification/Processor.thy ===== *)
theory Processor
  imports Store Parser Runtime
begin

text \<open>
  packages/node/src/scanner/processor.rs: how a transaction changes the store. The transaction
  record is the one of scanner/electrs.rs. The clock and the wasmtime engine are arguments; the
  store is passed and returned; the errors of process_tx are the strings the source builds. Disk
  errors are outside the model of the store, so save_object and save_undo_log do not fail.
\<close>

section \<open>Transactions\<close>

record electrs_tx_input =
  in_txid :: string
  in_vout :: u32

record electrs_tx_output =
  out_value :: u64
  out_scriptpubkey :: string
  out_scriptpubkey_asm :: "string option"
  out_scriptpubkey_hex :: "string option"

record electrs_tx =
  tx_txid :: string
  tx_vin :: "electrs_tx_input list"
  tx_vout :: "electrs_tx_output list"

record block_processor =
  bp_chain :: string
  bp_min_execution_fee :: u64
  bp_fee_collector :: "string option"

section \<open>The processor\<close>

definition validate_fee :: "block_processor \<Rightarrow> electrs_tx \<Rightarrow> bool" where
  "validate_fee bp tx \<longleftrightarrow>
     bp_min_execution_fee bp = 0
     \<or> list_ex (\<lambda>out. bp_min_execution_fee bp \<le> out_value out
          \<and> (case bp_fee_collector bp of None \<Rightarrow> True | Some collector \<Rightarrow> out_scriptpubkey out = collector))
        (tx_vout tx)"

definition tx_sender :: "electrs_tx \<Rightarrow> string" where
  "tx_sender tx =
     (case tx_vin tx of [] \<Rightarrow> ''coinbase'' | vin # _ \<Rightarrow> outpoint (in_txid vin) (unat (in_vout vin)))"

definition undo_id_for :: "electrs_tx \<Rightarrow> u64 \<Rightarrow> nat \<Rightarrow> u64" where
  "undo_id_for tx height vout_idx =
     (push_bit 32 height OR word_of_nat vout_idx)
       XOR word_of_nat (or_default 0 (from_str_radix 16 (2 ^ 64) (or_default ''0'' (str_get 8 (tx_txid tx)))))"

definition get_wasm_bytes :: "store \<Rightarrow> string \<Rightarrow> string + bytes" where
  "get_wasm_bytes s code_hash =
     (if code_hash = ''wasm_default'' \<or> code_hash = [] then Inr []
      else case get_wasm s code_hash of
        Some b \<Rightarrow> Inr b
      | None \<Rightarrow> Inl (''WASM_MISSING:'' @ code_hash))"

definition missing_wasm_hash :: "string \<Rightarrow> string option" where
  "missing_wasm_hash err = map_option trim (strip_prefix ''WASM_MISSING:'' err)"

record wasm_execution_result =
  wer_state_data :: json
  wer_gas_consumed :: u64

definition parse_seal :: "string \<Rightarrow> single_use_seal" where
  "parse_seal str =
     (let parts = split_on (CHR '':'') str in
      \<lparr>seal_txid = (case parts of [] \<Rightarrow> [] | p # _ \<Rightarrow> p),
       seal_vout = (case parts of _ # q # _ \<Rightarrow> word_of_nat (or_default 0 (from_str_radix 10 (2 ^ 32) q)) | _ \<Rightarrow> 0)\<rparr>)"

datatype wasm_failure = VmFailed vm_error | NonJsonState nat

definition execute_wasm :: "libs \<Rightarrow> 'g engine \<Rightarrow> smart_object \<Rightarrow> string \<Rightarrow> json \<Rightarrow> string \<Rightarrow> u64 \<Rightarrow> bytes
    \<Rightarrow> wasm_failure + wasm_execution_result" where
  "execute_wasm L E obj mname args caller satoshis wasm_bytes =
     (let st = \<lparr>sos_object_id = obj_object_id obj, sos_code_hash = obj_code_hash obj,
                sos_seal = parse_seal (obj_seal obj), sos_satoshis = satoshis,
                sos_owner_pubkey = obj_owner obj, sos_state_data = json_to_vec L (obj_state_data obj)\<rparr>
      in case execute L E default_vm_config wasm_bytes st caller mname (json_to_vec L args) of
           Inl e \<Rightarrow> Inl (VmFailed e)
         | Inr r \<Rightarrow>
             (case json_from_slice L (res_updated_state_data r) of
                None \<Rightarrow> Inl (NonJsonState (length (res_updated_state_data r)))
              | Some new_state \<Rightarrow>
                  Inr \<lparr>wer_state_data = new_state, wer_gas_consumed = res_gas_consumed r\<rparr>))"

subsection \<open>create and deploy\<close>

definition store_deployed_wasm :: "libs \<Rightarrow> envelope \<Rightarrow> store \<Rightarrow> store" where
  "store_deployed_wasm L env s =
     (if env_content_type env = ''application/wasm'' \<and> env_payload env \<noteq> []
      then snd (save_wasm L (hex_encode L (sha256 L (env_payload env))) (env_payload env) s)
      else s)"

definition created_code_hash :: "libs \<Rightarrow> envelope \<Rightarrow> json \<Rightarrow> string" where
  "created_code_hash L env metadata =
     (case json_get_str metadata ''code_hash'' of
        Some h \<Rightarrow> h
      | None \<Rightarrow> if env_content_type env = ''application/wasm''
                then hex_encode L (sha256 L (env_payload env)) else ''wasm_default'')"

definition created_object_record :: "libs \<Rightarrow> electrs_tx \<Rightarrow> u64 \<Rightarrow> nat \<Rightarrow> electrs_tx_output \<Rightarrow> envelope
    \<Rightarrow> string \<Rightarrow> smart_object" where
  "created_object_record L tx height vout_idx out env obj_id =
     (let metadata = or_default JNull (env_metadata env) in
      \<lparr>obj_object_id = obj_id, obj_code_hash = created_code_hash L env metadata,
       obj_seal = outpoint (tx_txid tx) vout_idx, obj_satoshis = out_value out, obj_owner = tx_sender tx,
       obj_state_data = or_default
         (JObject [(''initialized'', JBool True), (''owner'', JString (tx_sender tx))])
         (json_get metadata ''state''),
       obj_created_at_block = height, obj_updated_at_block = height\<rparr>)"

type_synonym outcome = "(string + string option) \<times> store"

definition process_create :: "libs \<Rightarrow> block_processor \<Rightarrow> electrs_tx \<Rightarrow> u64 \<Rightarrow> nat \<Rightarrow> electrs_tx_output
    \<Rightarrow> envelope \<Rightarrow> store \<Rightarrow> outcome rust" where
  "process_create L bp tx height vout_idx out env s =
     (let s1 = store_deployed_wasm L env s in
      rbind (str_index 16 (tx_txid tx)) (\<lambda>prefix.
        let obj_id = ''obj_'' @ prefix;
            record = created_object_record L tx height vout_idx out env obj_id;
            undo = undo_for (undo_id_for tx height vout_idx) (bp_chain bp) height obj_id None
        in Ret (Inr (Some obj_id), save_object L record (save_undo_log undo s1))))"

subsection \<open>call\<close>

definition find_target :: "store \<Rightarrow> electrs_tx \<Rightarrow> smart_object option" where
  "find_target s tx =
     (case List.find (\<lambda>vin. get_object_by_seal s (outpoint (in_txid vin) (unat (in_vout vin))) \<noteq> None) (tx_vin tx) of
        None \<Rightarrow> None
      | Some vin \<Rightarrow> get_object_by_seal s (outpoint (in_txid vin) (unat (in_vout vin))))"

datatype call_run = CallMissing string | CallReverted | CallDone json u64

definition run_method :: "libs \<Rightarrow> 'g engine \<Rightarrow> store \<Rightarrow> smart_object \<Rightarrow> string \<Rightarrow> json \<Rightarrow> string \<Rightarrow> u64 \<Rightarrow> call_run" where
  "run_method L E s obj mname args sender satoshis =
     (if obj_code_hash obj \<noteq> ''wasm_default'' then
        (case get_wasm_bytes s (obj_code_hash obj) of
           Inl e \<Rightarrow> if missing_wasm_hash e \<noteq> None then CallMissing e else CallReverted
         | Inr wasm_bytes \<Rightarrow>
             (case execute_wasm L E obj mname args sender satoshis wasm_bytes of
                Inl f \<Rightarrow> CallReverted
              | Inr r \<Rightarrow> CallDone (wer_state_data r) (wer_gas_consumed r)))
      else CallDone (json_set ''last_caller'' (JString sender)
             (json_set ''last_method'' (JString mname) (obj_state_data obj))) 21500)"

definition moved_object :: "smart_object \<Rightarrow> string \<Rightarrow> u64 \<Rightarrow> u64 \<Rightarrow> json \<Rightarrow> json \<Rightarrow> smart_object" where
  "moved_object obj seal height satoshis args new_state =
     obj\<lparr>obj_seal := seal, obj_updated_at_block := height, obj_satoshis := satoshis,
         obj_owner := or_default (obj_owner obj) (json_get_str args ''to''), obj_state_data := new_state\<rparr>"

definition process_call :: "libs \<Rightarrow> 'g engine \<Rightarrow> block_processor \<Rightarrow> i64 \<Rightarrow> electrs_tx \<Rightarrow> u64 \<Rightarrow> nat
    \<Rightarrow> electrs_tx_output \<Rightarrow> json \<Rightarrow> smart_object \<Rightarrow> store \<Rightarrow> outcome" where
  "process_call L E bp now tx height vout_idx out metadata obj s =
     (let seal = outpoint (tx_txid tx) vout_idx;
          mname = or_default ''transfer'' (json_get_str metadata ''method'');
          args = or_default (JObject []) (json_get metadata ''args'');
          undo = undo_for (undo_id_for tx height vout_idx) (bp_chain bp) height (obj_object_id obj) (Some obj);
          s1 = save_undo_log undo s
      in case run_method L E s1 obj mname args (tx_sender tx) (out_value out) of
           CallMissing e \<Rightarrow> (Inl e, s1)
         | CallReverted \<Rightarrow> (Inr None, s1)
         | CallDone new_state gas \<Rightarrow>
             (let obj' = moved_object obj seal height (out_value out) args new_state;
                  trans = \<lparr>str_txid = tx_txid tx, str_object_id = obj_object_id obj,
                           str_prev_seal = obj_seal obj, str_new_seal = seal, str_caller = tx_sender tx,
                           str_method = mname, str_args = args, str_new_state = new_state,
                           str_satoshis = out_value out, str_block_height = height,
                           str_gas_consumed = gas, str_timestamp = now\<rparr>
              in (Inr (Some (obj_object_id obj)), save_transition trans (save_object L obj' s1))))"

subsection \<open>process_tx\<close>

definition envelope_op :: "envelope \<Rightarrow> string" where
  "envelope_op env =
     (if env_content_type env = ''application/wasm'' then ''deploy''
      else or_default ''call'' (json_get_str (or_default JNull (env_metadata env)) ''op''))"

text \<open>One output: None lets the loop go on to the next one.\<close>

definition process_output :: "libs \<Rightarrow> 'g engine \<Rightarrow> block_processor \<Rightarrow> i64 \<Rightarrow> electrs_tx \<Rightarrow> u64 \<Rightarrow> nat
    \<Rightarrow> electrs_tx_output \<Rightarrow> store \<Rightarrow> outcome option rust" where
  "process_output L E bp now tx height vout_idx out s =
     (case hex_decode L (or_default (out_scriptpubkey out) (out_scriptpubkey_hex out)) of
        None \<Rightarrow> Ret None
      | Some script_bytes \<Rightarrow>
          rbind (parse_envelope L script_bytes) (\<lambda>parsed.
            case parsed of
              None \<Rightarrow> Ret None
            | Some env \<Rightarrow>
                if envelope_op env = ''create'' \<or> envelope_op env = ''deploy'' then
                  (if \<not> validate_fee bp tx then Ret (Some (Inr None, s))
                   else rbind (process_create L bp tx height vout_idx out env s) (\<lambda>r. Ret (Some r)))
                else if \<not> validate_fee bp tx then Ret (Some (Inr None, s))
                else (case find_target s tx of
                        None \<Rightarrow> Ret None
                      | Some obj \<Rightarrow>
                          Ret (Some (process_call L E bp now tx height vout_idx out
                            (or_default JNull (env_metadata env)) obj s)))))"

fun process_outputs :: "libs \<Rightarrow> 'g engine \<Rightarrow> block_processor \<Rightarrow> i64 \<Rightarrow> electrs_tx \<Rightarrow> u64 \<Rightarrow> nat
    \<Rightarrow> electrs_tx_output list \<Rightarrow> store \<Rightarrow> outcome rust" where
  "process_outputs L E bp now tx height i [] s = Ret (Inr None, s)"
| "process_outputs L E bp now tx height i (out # outs) s =
     rbind (process_output L E bp now tx height i out s) (\<lambda>r.
       case r of
         Some outcome \<Rightarrow> Ret outcome
       | None \<Rightarrow> process_outputs L E bp now tx height (Suc i) outs s)"

definition process_tx :: "libs \<Rightarrow> 'g engine \<Rightarrow> block_processor \<Rightarrow> i64 \<Rightarrow> electrs_tx \<Rightarrow> u64 \<Rightarrow> store \<Rightarrow> outcome rust" where
  "process_tx L E bp now tx height s = process_outputs L E bp now tx height 0 (tx_vout tx) s"

lemma missing_wasm_hash_message: "missing_wasm_hash (''WASM_MISSING:'' @ h) = Some (trim h)"
  by (simp only: missing_wasm_hash_def strip_prefix_append option.map)

section \<open>What process_tx can do\<close>

lemma process_outputs_cases:
  "process_outputs L E bp now tx height i outs s = Ret (r, s') \<Longrightarrow>
     (r = Inr None \<and> s' = s)
   \<or> (\<exists>j env. j < length outs \<and> process_create L bp tx height (i + j) (outs ! j) env s = Ret (r, s'))
   \<or> (\<exists>j md obj. j < length outs \<and> find_target s tx = Some obj
        \<and> process_call L E bp now tx height (i + j) (outs ! j) md obj s = (r, s'))"
proof (induction outs arbitrary: i)
  case (Cons out outs)
  then obtain res where res: "process_output L E bp now tx height i out s = Ret res"
    and rest: "(case res of Some outcome \<Rightarrow> Ret outcome
                | None \<Rightarrow> process_outputs L E bp now tx height (Suc i) outs s) = Ret (r, s')"
    by (auto simp: rbind_Ret_iff)
  show ?case
  proof (cases res)
    case None
    with rest have "process_outputs L E bp now tx height (Suc i) outs s = Ret (r, s')" by simp
    from Cons.IH [OF this] show ?thesis
      by (metis Suc_less_eq add_Suc_right add_Suc length_Cons nth_Cons_Suc)
  next
    case (Some x)
    with rest have x: "x = (r, s')" by simp
    have "(r = Inr None \<and> s' = s) \<or> (\<exists>env. process_create L bp tx height i out env s = Ret (r, s'))
      \<or> (\<exists>md obj. find_target s tx = Some obj \<and> process_call L E bp now tx height i out md obj s = (r, s'))"
      using res Some x
      by (auto simp: process_output_def rbind_Ret_iff split: option.splits if_splits)
    then show ?thesis by (metis add.right_neutral length_greater_0_conv list.simps(3) nth_Cons_0)
  qed
qed simp

lemma process_tx_cases:
  assumes "process_tx L E bp now tx height s = Ret (r, s')"
  obtains (unchanged) "r = Inr None" "s' = s"
  | (created) i env where "i < length (tx_vout tx)"
      "process_create L bp tx height i (tx_vout tx ! i) env s = Ret (r, s')"
  | (called) i md obj where "i < length (tx_vout tx)" "find_target s tx = Some obj"
      "process_call L E bp now tx height i (tx_vout tx ! i) md obj s = (r, s')"
  using process_outputs_cases [of L E bp now tx height 0 "tx_vout tx" s r s'] assms
  by (auto simp: process_tx_def)

definition spent :: "electrs_tx \<Rightarrow> string set" where
  "spent tx = (\<lambda>vin. outpoint (in_txid vin) (unat (in_vout vin))) ` set (tx_vin tx)"

lemma find_target_Some:
  assumes "find_target s tx = Some obj" "keyed (st_objects s)" "seal_index s"
  shows "obj_seal obj \<in> spent tx" "get_object s (obj_object_id obj) = Some obj"
proof -
  from assms(1) obtain vin where vin: "vin \<in> set (tx_vin tx)"
    and got: "get_object_by_seal s (outpoint (in_txid vin) (unat (in_vout vin))) = Some obj"
    unfolding find_target_def by (auto simp: find_Some_iff split: option.splits) (metis nth_mem)
  from got obtain oid where sl: "tbl_get (st_seals s) (outpoint (in_txid vin) (unat (in_vout vin))) = Some oid"
    and o: "get_object s oid = Some obj" by (auto simp: get_object_by_seal_def split: option.splits)
  then have "obj_seal obj = outpoint (in_txid vin) (unat (in_vout vin))"
    using assms(3) unfolding seal_index_def get_object_def by fastforce
  then show "obj_seal obj \<in> spent tx" using vin by (auto simp: spent_def)
  show "get_object s (obj_object_id obj) = Some obj"
    using o assms(2) by (auto simp: keyed_def get_object_def)
qed

subsection \<open>Successful transactions are tracked writes\<close>

lemma save_object_other [simp]:
  "save_object L ob (s\<lparr>st_wasm := w\<rparr>) = (save_object L ob s)\<lparr>st_wasm := w\<rparr>"
  "save_object L ob (s\<lparr>st_transitions := t\<rparr>) = (save_object L ob s)\<lparr>st_transitions := t\<rparr>"
  by (cases s; simp add: save_object_def Let_def split: option.split)+

lemma save_undo_log_other [simp]: "save_undo_log u (s\<lparr>st_wasm := w\<rparr>) = (save_undo_log u s)\<lparr>st_wasm := w\<rparr>"
  by (simp add: save_undo_log_def)

definition tx_object_id :: "electrs_tx \<Rightarrow> string" where
  "tx_object_id tx = ''obj_'' @ take 16 (tx_txid tx)"

text \<open>
  A transaction the store has not processed has no object at its outputs. In fresh_tx the id it
  would create is free as well, which is more: that id is only the first 16 digits of the
  transaction id, and nothing checks that no other object has it.
\<close>

definition new_outputs :: "electrs_tx \<Rightarrow> store \<Rightarrow> bool" where
  "new_outputs tx s \<longleftrightarrow> (\<forall>oid obj v. get_object s oid = Some obj \<longrightarrow> obj_seal obj \<noteq> outpoint (tx_txid tx) v)"

definition fresh_tx :: "electrs_tx \<Rightarrow> store \<Rightarrow> bool" where
  "fresh_tx tx s \<longleftrightarrow> get_object s (tx_object_id tx) = None
     \<and> (\<forall>oid obj v. get_object s oid = Some obj \<longrightarrow> obj_seal obj \<noteq> outpoint (tx_txid tx) v)"

lemma fresh_new_outputs: "fresh_tx tx s \<Longrightarrow> new_outputs tx s"
  by (simp add: fresh_tx_def new_outputs_def)

lemma str_index_Ret: "str_index n s = Ret p \<Longrightarrow> p = take n s"
  by (auto simp: str_index_def str_get_def split: option.splits if_splits)

lemma store_deployed_wasm_eq: "\<exists>w. store_deployed_wasm L env s = s\<lparr>st_wasm := w\<rparr>"
proof (cases "env_content_type env = ''application/wasm'' \<and> env_payload env \<noteq> []")
  case True
  then show ?thesis by (auto simp: store_deployed_wasm_def save_wasm_def Let_def)
next
  case False
  then have "store_deployed_wasm L env s = s\<lparr>st_wasm := st_wasm s\<rparr>" by (auto simp: store_deployed_wasm_def)
  then show ?thesis by blast
qed

text \<open>A create writes one object under the id, whatever stood there before, and logs a CREATE.\<close>

lemma create_writes:
  assumes "process_create L bp tx height i out env s = Ret (r, s')"
  obtains w ob where "r = Inr (Some (tx_object_id tx))" "obj_object_id ob = tx_object_id tx"
    "ob = created_object_record L tx height i out env (tx_object_id tx)" "obj_seal ob = outpoint (tx_txid tx) i"
    "s' = (save_object L ob (save_undo_log (undo_for (undo_id_for tx height i) (bp_chain bp) height
       (tx_object_id tx) None) s))\<lparr>st_wasm := w\<rparr>"
proof -
  obtain w where w: "store_deployed_wasm L env s = s\<lparr>st_wasm := w\<rparr>" using store_deployed_wasm_eq by blast
  show thesis
    by (rule that [OF _ _ refl, of w])
      (use assms in \<open>auto simp: process_create_def w Let_def rbind_Ret_iff tx_object_id_def created_object_record_def
         dest!: str_index_Ret\<close>)
qed

lemma create_tracked:
  assumes "process_create L bp tx height i out env s = Ret (r, s')" "fresh_tx tx s"
  obtains w ob where "r = Inr (Some (tx_object_id tx))" "obj_object_id ob = tx_object_id tx"
    "obj_seal ob = outpoint (tx_txid tx) i"
    "s' = (tracked_write L (bp_chain bp) (undo_id_for tx height i, height, ob) s)\<lparr>st_wasm := w\<rparr>"
proof -
  from assms(1) obtain w ob where c: "r = Inr (Some (tx_object_id tx))" "obj_object_id ob = tx_object_id tx"
    "obj_seal ob = outpoint (tx_txid tx) i"
    "s' = (save_object L ob (save_undo_log (undo_for (undo_id_for tx height i) (bp_chain bp) height
       (tx_object_id tx) None) s))\<lparr>st_wasm := w\<rparr>" by (rule create_writes)
  let ?w = "(undo_id_for tx height i, height, ob)"
  have "log_for (bp_chain bp) ?w s = undo_for (undo_id_for tx height i) (bp_chain bp) height (tx_object_id tx) None"
    using assms(2) c(2) by (simp add: log_for_def write_id_def write_height_def write_object_def fresh_tx_def)
  with c show thesis by (intro that [of ob w]) (simp_all add: tracked_write_def write_object_def)
qed

lemma call_tracked:
  assumes "process_call L E bp now tx height i out md obj s = (r, s')" "get_object s (obj_object_id obj) = Some obj"
  obtains (moved) ob t where "r = Inr (Some (obj_object_id obj))" "obj_object_id ob = obj_object_id obj"
    "obj_seal ob = outpoint (tx_txid tx) i"
    "s' = (tracked_write L (bp_chain bp) (undo_id_for tx height i, height, ob) s)\<lparr>st_transitions := t\<rparr>"
  | (reverted) "\<forall>oid. r \<noteq> Inr (Some oid)"
    "s' = save_undo_log (undo_for (undo_id_for tx height i) (bp_chain bp) height (obj_object_id obj) (Some obj)) s"
proof -
  let ?undo = "undo_for (undo_id_for tx height i) (bp_chain bp) height (obj_object_id obj) (Some obj)"
  let ?args = "or_default (JObject []) (json_get md ''args'')"
  let ?run = "run_method L E (save_undo_log ?undo s) obj (or_default ''transfer'' (json_get_str md ''method''))
    ?args (tx_sender tx) (out_value out)"
  show thesis
  proof (cases ?run)
    case (CallMissing e)
    with assms(1) show thesis by (intro reverted) (auto simp: process_call_def Let_def)
  next
    case CallReverted
    with assms(1) show thesis by (intro reverted) (auto simp: process_call_def Let_def)
  next
    case (CallDone st gas)
    let ?ob = "moved_object obj (outpoint (tx_txid tx) i) height (out_value out) ?args st"
    let ?w = "(undo_id_for tx height i, height, ?ob)"
    have id: "obj_object_id ?ob = obj_object_id obj" "obj_seal ?ob = outpoint (tx_txid tx) i"
      by (simp_all add: moved_object_def)
    have "log_for (bp_chain bp) ?w s = ?undo"
      using assms(2) id by (simp add: log_for_def write_id_def write_height_def write_object_def)
    moreover from assms(1) CallDone obtain t where "r = Inr (Some (obj_object_id obj))"
      "s' = (save_object L ?ob (save_undo_log ?undo s))\<lparr>st_transitions := t\<rparr>"
      by (auto simp: process_call_def Let_def save_transition_def)
    ultimately show thesis
      by (intro moved [of ?ob t] id) (simp_all add: tracked_write_def write_object_def)
  qed
qed

subsection \<open>Seals are single-use\<close>

lemma new_seal: "new_outputs tx s \<Longrightarrow> seal_index s \<Longrightarrow> tbl_get (st_seals s) (outpoint (tx_txid tx) v) = None"
  by (cases "tbl_get (st_seals s) (outpoint (tx_txid tx) v)") (auto simp: new_outputs_def seal_index_def get_object_def)

text \<open>The tables after a logged write to a new outpoint.\<close>

lemma logged_save_seal:
  assumes k: "keyed (st_objects s)" and i: "seal_index s" and f: "new_outputs tx s"
    and sl: "obj_seal ob = outpoint (tx_txid tx) v"
    and s1_def: "s1 = save_object L ob (save_undo_log u s)"
  shows "keyed (st_objects s1)" "seal_index s1"
    "get_object s1 x = (if x = obj_object_id ob then Some ob else get_object s x)"
proof -
  show "keyed (st_objects s1)" using k by (auto simp: s1_def save_object_tables save_undo_log_def keyed_def)
  show "get_object s1 x = (if x = obj_object_id ob then Some ob else get_object s x)"
    by (simp add: s1_def get_object_def save_object_tables save_undo_log_def)
  have "seal_index (save_undo_log u s)" using i by (simp add: seal_index_def save_undo_log_def)
  moreover have "tbl_get (st_seals (save_undo_log u s)) (obj_seal ob) = None"
    using new_seal [OF f i] sl by (simp add: save_undo_log_def)
  ultimately show "seal_index s1" unfolding s1_def by (auto intro!: save_object_seal_index)
qed

lemma seal_index_other [simp]:
  "seal_index (s\<lparr>st_wasm := w\<rparr>) = seal_index s" "seal_index (s\<lparr>st_transitions := t\<rparr>) = seal_index s"
  "seal_index (save_undo_log u s) = seal_index s"
  "get_object (s\<lparr>st_wasm := w\<rparr>) = get_object s" "get_object (s\<lparr>st_transitions := t\<rparr>) = get_object s"
  "get_object (save_undo_log u s) = get_object s"
  by (auto simp: seal_index_def get_object_def save_undo_log_def fun_eq_iff)

lemma dead_seal:
  assumes "seal_index s'" "\<And>x y. get_object s' x = Some y \<Longrightarrow> obj_seal y \<noteq> sl"
  shows "get_object_by_seal s' sl = None"
proof (cases "tbl_get (st_seals s') sl")
  case (Some oid)
  then show ?thesis using assms by (auto simp: seal_index_def get_object_def)
qed (simp add: get_object_by_seal_def)

lemma seal_moves:
  assumes i: "seal_index s" and f: "new_outputs tx s"
    and sl: "obj_seal ob = outpoint (tx_txid tx) v"
    and ix: "seal_index s'" and gets: "\<And>x. get_object s' x = (if x = obj_object_id ob then Some ob else get_object s x)"
    and obj: "get_object s (obj_object_id ob) = Some obj"
  shows "get_object_by_seal s' (obj_seal obj) = None"
proof (rule dead_seal [OF ix])
  fix x y
  assume y: "get_object s' x = Some y"
  have unique: "x = obj_object_id ob" if "get_object s x = Some y" "obj_seal y = obj_seal obj"
    using that obj i unfolding seal_index_def get_object_def by (metis option.inject)
  from f obj have "obj_seal obj \<noteq> outpoint (tx_txid tx) v" by (auto simp: new_outputs_def)
  then show "obj_seal y \<noteq> obj_seal obj"
    using y gets [of x] sl unique by (auto split: if_splits)
qed

text \<open>What one write of a transaction at one of its outputs does to objects and seals.\<close>

definition moved_to :: "electrs_tx \<Rightarrow> store \<Rightarrow> store \<Rightarrow> string \<Rightarrow> bool" where
  "moved_to tx s s' oid \<longleftrightarrow>
     (\<exists>new v. get_object s' oid = Some new \<and> v < length (tx_vout tx) \<and> obj_seal new = outpoint (tx_txid tx) v)
   \<and> (\<forall>old. get_object s oid = Some old \<longrightarrow> get_object_by_seal s' (obj_seal old) = None)"

lemma write_moves:
  assumes k: "keyed (st_objects s)" and i: "seal_index s" and f: "new_outputs tx s"
    and sl: "obj_seal ob = outpoint (tx_txid tx) v" "v < length (tx_vout tx)"
    and s': "st_objects s' = st_objects (save_object L ob (save_undo_log u s))"
      "st_seals s' = st_seals (save_object L ob (save_undo_log u s))"
  shows "keyed (st_objects s') \<and> seal_index s' \<and> moved_to tx s s' (obj_object_id ob)
    \<and> (\<forall>x. get_object s' x \<noteq> get_object s x \<longrightarrow> x = obj_object_id ob)"
proof -
  note t = logged_save_seal [OF k i f sl(1) refl, of L u]
  have gets: "get_object s' x = (if x = obj_object_id ob then Some ob else get_object s x)" for x
    using t(3) [of x] by (simp add: get_object_def s')
  have ix: "seal_index s'" using t(2) by (simp add: seal_index_def s')
  have "moved_to tx s s' (obj_object_id ob)"
    using seal_moves [OF i f sl(1) ix gets] gets sl by (auto simp: moved_to_def)
  with ix t(1) gets show ?thesis by (auto simp: s' split: if_splits)
qed

text \<open>
  C3. Seals are single-use. Let a transaction have no object at its outputs yet, as when the store
  sees it for the first time. It changes or makes at most the object it answers; that object then sits
  at an output of the transaction and its old seal leads to no object any more. Unless the object
  has the id of the transaction itself (obj_ and the first 16 digits of its id), it existed
  before and one of the inputs spends its seal. The seal table stays exactly the index of the current
  seals. The exception is real: a create takes that id whether it is free or not
  (create_takes_any_id).
\<close>

theorem single_use_seals:
  assumes k: "keyed (st_objects s)" and i: "seal_index s" and f: "new_outputs tx s"
    and p: "process_tx L E bp now tx height s = Ret (r, s')"
  shows "keyed (st_objects s') \<and> seal_index s' \<and>
    (\<forall>oid. get_object s' oid \<noteq> get_object s oid \<longrightarrow> r = Inr (Some oid)
       \<and> (\<exists>new v. get_object s' oid = Some new \<and> v < length (tx_vout tx) \<and> obj_seal new = outpoint (tx_txid tx) v)
       \<and> (\<forall>old. get_object s oid = Some old \<longrightarrow> get_object_by_seal s' (obj_seal old) = None)
       \<and> (oid = ''obj_'' @ take 16 (tx_txid tx) \<or> (\<exists>old. get_object s oid = Some old \<and> obj_seal old \<in> spent tx)))"
  using p
proof (cases rule: process_tx_cases)
  case unchanged
  with k i show ?thesis by simp
next
  case (created n env)
  from created(2) obtain w ob where r: "r = Inr (Some (tx_object_id tx))"
    and id: "obj_object_id ob = tx_object_id tx" and sl: "obj_seal ob = outpoint (tx_txid tx) n"
    and s': "s' = (save_object L ob (save_undo_log (undo_for (undo_id_for tx height n) (bp_chain bp) height
       (tx_object_id tx) None) s))\<lparr>st_wasm := w\<rparr>" by (rule create_writes)
  have "st_objects s' = st_objects (save_object L ob (save_undo_log (undo_for (undo_id_for tx height n) (bp_chain bp) height
       (tx_object_id tx) None) s))" "st_seals s' = st_seals (save_object L ob (save_undo_log (undo_for (undo_id_for tx height n)
       (bp_chain bp) height (tx_object_id tx) None) s))" by (simp_all add: s')
  from write_moves [OF k i f sl created(1) this] r id show ?thesis unfolding moved_to_def tx_object_id_def by metis
next
  case (called n md ob0)
  note tgt = find_target_Some [OF called(2) k i]
  from called(3) tgt(2) show ?thesis
  proof (cases rule: call_tracked)
    case (moved ob t)
    let ?s = "save_object L ob (save_undo_log (log_for (bp_chain bp) (undo_id_for tx height n, height, ob) s) s)"
    have "st_objects s' = st_objects ?s" "st_seals s' = st_seals ?s"
      by (simp_all add: moved(4) tracked_write_def write_object_def)
    from write_moves [OF k i f moved(3) called(1) this] moved(1,2) tgt show ?thesis unfolding moved_to_def by metis
  next
    case reverted
    with k i show ?thesis by (simp add: save_undo_log_def seal_index_def get_object_def)
  qed
qed

text \<open>
  Nothing protects an object from a creation under its id: the new record replaces it, with the sender
  of the transaction as owner, without its seal being spent, and the undo log says CREATE, so that a
  rollback removes the object instead of restoring it.
\<close>

lemma create_takes_any_id:
  assumes "process_create L bp tx height i out env s = Ret (r, s')"
  shows "get_object s' (tx_object_id tx) = Some (created_object_record L tx height i out env (tx_object_id tx))
    \<and> (\<exists>log. tbl_get (st_undo_logs s') (undo_id_for tx height i) = Some log \<and> undo_action log = ''CREATE'')"
  using assms
  by (rule create_writes) (simp add: get_object_def save_object_tables save_undo_log_def undo_for_def)

subsection \<open>A reorganisation undoes a transaction\<close>

lemma undo_one_other:
  "undo_one th log (s\<lparr>st_wasm := w\<rparr>) = (undo_one th log s)\<lparr>st_wasm := w\<rparr>"
  "undo_one th log (s\<lparr>st_transitions := t\<rparr>) = (undo_one th log s)\<lparr>st_transitions := t\<rparr>"
  by (cases s; simp add: undo_one_def drop_current_seal_def Let_def split: option.split)+

lemma undo_fold_other:
  "fold (\<lambda>(u, log). undo_one th log) logs (s\<lparr>st_wasm := w\<rparr>)
     = (fold (\<lambda>(u, log). undo_one th log) logs s)\<lparr>st_wasm := w\<rparr>"
  "fold (\<lambda>(u, log). undo_one th log) logs (s\<lparr>st_transitions := t\<rparr>)
     = (fold (\<lambda>(u, log). undo_one th log) logs s)\<lparr>st_transitions := t\<rparr>"
  by (induction logs arbitrary: s) (auto simp: undo_one_other)

text \<open>What a rollback makes of objects, seals, undo logs and tree does not depend on the blobs and
  the transition records.\<close>

definition same_core :: "store \<Rightarrow> store \<Rightarrow> bool" where
  "same_core a b \<longleftrightarrow> st_objects a = st_objects b \<and> st_seals a = st_seals b
     \<and> st_undo_logs a = st_undo_logs b \<and> st_smt a = st_smt b"

lemma rollback_other:
  assumes "rollback_to_block L chain th s = (n, a)"
  shows "\<exists>b. rollback_to_block L chain th (s\<lparr>st_wasm := w\<rparr>) = (n, b) \<and> same_core a b"
    and "\<exists>b. rollback_to_block L chain th (s\<lparr>st_transitions := t\<rparr>) = (n, b) \<and> same_core a b"
  using assms
  by (auto simp: rollback_to_block_def Let_def undo_fold_other same_core_def get_all_objects_def)

lemma root_of_core: "same_core a b \<Longrightarrow> fst (current_state_root L a) = fst (current_state_root L b)"
  by (simp add: same_core_def current_state_root_def case_prod_beta)

text \<open>One tracked write on a consistent store is undone by the rollback.\<close>

lemma tracked_rollback:
  assumes ok: "store_ok L s" and f: "fresh_tx tx s" and sl: "obj_seal ob = outpoint (tx_txid tx) v"
    and h: "th < height" and uid: "tbl_get (st_undo_logs s) uid = None"
    and logs: "\<forall>u log. tbl_get (st_undo_logs s) u = Some log \<and> undo_chain log = chain \<longrightarrow> undo_block_height log \<le> th"
    and r: "rollback_to_block L chain th (tracked_write L chain (uid, height, ob) s) = (n, s')"
  shows "n = 1" "st_objects s' = st_objects s" "st_seals s' = st_seals s" "st_undo_logs s' = st_undo_logs s"
    "fst (current_state_root L s') = fst (current_state_root L s)"
proof -
  define own where "own x = (if x = outpoint (tx_txid tx) v then obj_object_id ob
    else case tbl_get (st_seals s) x of Some y \<Rightarrow> y | None \<Rightarrow> [])" for x
  have i: "seal_index s" using ok by (simp add: store_ok_def)
  have "owned own s"
    unfolding owned_def
  proof (intro allI impI)
    fix oid obj assume o: "tbl_get (st_objects s) oid = Some obj"
    then have "tbl_get (st_seals s) (obj_seal obj) = Some oid" using i by (auto simp: seal_index_def)
    moreover have "obj_seal obj \<noteq> outpoint (tx_txid tx) v" using o f by (auto simp: fresh_tx_def get_object_def)
    ultimately show "own (obj_seal obj) = oid" by (simp add: own_def)
  qed
  moreover have "reorg_history chain th [(uid, height, ob)] s"
    using h uid logs by (auto simp: reorg_history_def logged_history_def undone_in_reverse_def write_id_def write_height_def)
  moreover have "\<forall>w \<in> set [(uid, height, ob)]. own (obj_seal (write_object w)) = obj_object_id (write_object w)"
    using sl by (simp add: write_object_def own_def)
  moreover have "rollback_to_block L chain th (fold (tracked_write L chain) [(uid, height, ob)] s) = (n, s')"
    using r by simp
  ultimately have "n = length [(uid, height, ob)] \<and> st_objects s' = st_objects s \<and> st_seals s' = st_seals s
    \<and> st_undo_logs s' = st_undo_logs s \<and> get_last_sync_block s' chain = th
    \<and> fst (current_state_root L s') = fst (current_state_root L s)"
    using rollback_restores_aux [OF ok] by blast
  then show "n = 1" "st_objects s' = st_objects s" "st_seals s' = st_seals s" "st_undo_logs s' = st_undo_logs s"
    "fst (current_state_root L s') = fst (current_state_root L s)" by auto
qed

lemma process_success_tracked:
  assumes k: "keyed (st_objects s)" and i: "seal_index s" and f: "fresh_tx tx s"
    and p: "process_tx L E bp now tx height s = Ret (Inr (Some oid), s')"
  obtains v ob where "v < length (tx_vout tx)" "obj_object_id ob = oid" "obj_seal ob = outpoint (tx_txid tx) v"
    "(\<exists>w. s' = (tracked_write L (bp_chain bp) (undo_id_for tx height v, height, ob) s)\<lparr>st_wasm := w\<rparr>)
     \<or> (\<exists>t. s' = (tracked_write L (bp_chain bp) (undo_id_for tx height v, height, ob) s)\<lparr>st_transitions := t\<rparr>)"
  using p
proof (cases rule: process_tx_cases)
  case unchanged
  then show thesis by simp
next
  case (created v env)
  from create_tracked [OF created(2) f] show thesis using created(1) that by (metis option.inject sum.inject(2))
next
  case (called v md ob0)
  note tgt = find_target_Some [OF called(2) k i]
  from called(3) tgt(2) show thesis
  proof (cases rule: call_tracked)
    case (moved ob t)
    then show thesis using called(1) that [of v ob] by auto
  next
    case reverted
    then show thesis by simp
  qed
qed

text \<open>
  A reorganisation undoes a transaction completely. If a consistent store has only undo logs
  at or below a height, processes a transaction it has not seen in a later block and then rolls
  back to that height, its objects, its seal index, its undo logs and the state root it reports
  are what they were before the transaction.
\<close>

theorem process_then_rollback:
  assumes ok: "store_ok L s" and f: "fresh_tx tx s" and h: "th < height"
    and uids: "\<forall>v. tbl_get (st_undo_logs s) (undo_id_for tx height v) = None"
    and logs: "\<forall>u log. tbl_get (st_undo_logs s) u = Some log \<and> undo_chain log = bp_chain bp
       \<longrightarrow> undo_block_height log \<le> th"
    and p: "process_tx L E bp now tx height s = Ret (Inr (Some oid), s1)"
    and r: "rollback_to_block L (bp_chain bp) th s1 = (n, s2)"
  shows "n = 1 \<and> st_objects s2 = st_objects s \<and> st_seals s2 = st_seals s \<and> st_undo_logs s2 = st_undo_logs s
    \<and> fst (current_state_root L s2) = fst (current_state_root L s)"
proof -
  have k: "keyed (st_objects s)" and i: "seal_index s" using ok by (simp_all add: store_ok_def)
  from k i f p obtain v ob where "v < length (tx_vout tx)" "obj_object_id ob = oid"
    and sl: "obj_seal ob = outpoint (tx_txid tx) v" and
    s1: "(\<exists>w. s1 = (tracked_write L (bp_chain bp) (undo_id_for tx height v, height, ob) s)\<lparr>st_wasm := w\<rparr>)
     \<or> (\<exists>t. s1 = (tracked_write L (bp_chain bp) (undo_id_for tx height v, height, ob) s)\<lparr>st_transitions := t\<rparr>)"
    by (rule process_success_tracked)
  obtain m a where ra: "rollback_to_block L (bp_chain bp) th
      (tracked_write L (bp_chain bp) (undo_id_for tx height v, height, ob) s) = (m, a)" by fastforce
  have "m = n \<and> same_core a s2"
    using s1
  proof
    assume "\<exists>w. s1 = (tracked_write L (bp_chain bp) (undo_id_for tx height v, height, ob) s)\<lparr>st_wasm := w\<rparr>"
    then obtain w where w: "s1 = (tracked_write L (bp_chain bp) (undo_id_for tx height v, height, ob) s)\<lparr>st_wasm := w\<rparr>" ..
    have "\<exists>b. rollback_to_block L (bp_chain bp) th s1 = (m, b) \<and> same_core a b"
      unfolding w by (rule rollback_other(1) [OF ra])
    with r show ?thesis by simp
  next
    assume "\<exists>t. s1 = (tracked_write L (bp_chain bp) (undo_id_for tx height v, height, ob) s)\<lparr>st_transitions := t\<rparr>"
    then obtain t where t: "s1 = (tracked_write L (bp_chain bp) (undo_id_for tx height v, height, ob) s)\<lparr>st_transitions := t\<rparr>" ..
    have "\<exists>b. rollback_to_block L (bp_chain bp) th s1 = (m, b) \<and> same_core a b"
      unfolding t by (rule rollback_other(2) [OF ra])
    with r show ?thesis by simp
  qed
  moreover note tracked_rollback [OF ok f sl h _ logs ra]
  ultimately show ?thesis using uids root_of_core [of a s2 L] by (auto simp: same_core_def)
qed

subsection \<open>Transactions that do not succeed\<close>

text \<open>
  C28. A transaction that is not carried out changes nothing but, at most, the undo table. If
  process_tx answers no object, the store is the one before, or it is that store with the undo log of
  the object the transaction spends; every other table, the tree included, is what it was. If it
  answers an error, the error names the missing contract code of that object, which the
  caller can recover from the message (when the name has no white space at its ends) and which the
  store indeed does not hold.
\<close>

theorem process_tx_reverts:
  assumes "process_tx L E bp now tx height s = Ret (r, s')" and "\<forall>oid. r \<noteq> Inr (Some oid)"
  shows "s' = s\<lparr>st_undo_logs := st_undo_logs s'\<rparr>
    \<and> (s' = s \<or> (\<exists>v obj. v < length (tx_vout tx) \<and> find_target s tx = Some obj
         \<and> s' = save_undo_log (undo_for (undo_id_for tx height v) (bp_chain bp) height (obj_object_id obj) (Some obj)) s))
    \<and> (\<forall>e. r = Inl e \<longrightarrow> (\<exists>obj. find_target s tx = Some obj \<and> get_wasm s (obj_code_hash obj) = None
         \<and> e = ''WASM_MISSING:'' @ obj_code_hash obj \<and> missing_wasm_hash e = Some (trim (obj_code_hash obj))))"
  using assms(1)
proof (cases rule: process_tx_cases)
  case unchanged
  then show ?thesis by simp
next
  case (created v env)
  then show ?thesis using assms(2) by (auto simp: process_create_def Let_def rbind_Ret_iff)
next
  case (called v md obj)
  have missing: "get_wasm s (obj_code_hash obj) = None \<and> e = ''WASM_MISSING:'' @ obj_code_hash obj"
    if "run_method L E (save_undo_log u s) obj m a x y = CallMissing e" for u m a x y e
    using that by (auto simp: run_method_def get_wasm_bytes_def get_wasm_def save_undo_log_def
        split: if_splits option.splits sum.splits)
  have same: "get_wasm (save_undo_log u s) = get_wasm s" for u
    by (simp add: fun_eq_iff get_wasm_def save_undo_log_def)
  let ?undo = "undo_for (undo_id_for tx height v) (bp_chain bp) height (obj_object_id obj) (Some obj)"
  have s': "s' = save_undo_log ?undo s" and r: "\<And>e. r = Inl e \<Longrightarrow>
      get_wasm s (obj_code_hash obj) = None \<and> e = ''WASM_MISSING:'' @ obj_code_hash obj"
    using called(3) assms(2)
    by (auto simp only: process_call_def Let_def prod.inject sum.inject sum.simps same
        split: call_run.splits dest!: missing)
  have "s' = s\<lparr>st_undo_logs := st_undo_logs s'\<rparr>" by (simp add: s' save_undo_log_def)
  then show ?thesis
    using r missing_wasm_hash_message called(1,2) s' by auto
qed

text \<open>
  On the transaction ids of a chain, 64 hexadecimal digits, process_tx does not panic,
  whatever its scripts contain; it suffices that the id has 16 bytes and no character crosses the
  sixteenth.
\<close>

theorem process_tx_no_panic:
  assumes "str_get 16 (tx_txid tx) \<noteq> None"
  shows "process_tx L E bp now tx height s \<noteq> Panic"
proof -
  have create: "process_create L bp tx height i out env s \<noteq> Panic" for i out env
    using assms by (auto simp: process_create_def Let_def str_index_def)
  have out: "process_output L E bp now tx height i out s \<noteq> Panic" for i out
    unfolding process_output_def
    by (intro no_panic parse_envelope_total create) simp_all
  have "process_outputs L E bp now tx height i outs s \<noteq> Panic" for i outs
  proof (induction outs arbitrary: i)
    case (Cons a outs)
    show ?case unfolding process_outputs.simps
      by (intro no_panic out Cons.IH) simp_all
  qed simp
  then show ?thesis by (simp add: process_tx_def)
qed

section \<open>A transaction to process\<close>

definition demo_script :: bytes where
  "demo_script = [0, 0x63, 6, 117, 116, 120, 111, 118, 109, 1, 1, 0, 0x68]"

definition demo_tx :: electrs_tx where
  "demo_tx = \<lparr>tx_txid = ''0123456789abcdef'', tx_vin = [\<lparr>in_txid = ''t'', in_vout = 0\<rparr>],
     tx_vout = [\<lparr>out_value = 7, out_scriptpubkey = ''0063067574786f766d01010068'',
                 out_scriptpubkey_asm = None, out_scriptpubkey_hex = None\<rparr>]\<rparr>"

definition demo_bp :: block_processor where
  "demo_bp = \<lparr>bp_chain = ''btc'', bp_min_execution_fee = 0, bp_fee_collector = None\<rparr>"

definition demo_store :: store where
  "demo_store = save_object demo_libs (demo_object ''a1'' ''t:0'') (empty_store demo_libs)"

lemma demo_parse: "parse_envelope demo_libs demo_script =
  Ret (Some \<lparr>env_protocol = ''utxovm'', env_version = 1, env_content_type = [], env_payload = [], env_metadata = None\<rparr>)"
  by code_simp

lemma demo_hex: "hex_decode demo_libs ''0063067574786f766d01010068'' = Some demo_script"
  by code_simp

lemma demo_store_ok: "store_ok demo_libs demo_store"
proof -
  have "admissible demo_libs [SaveObject (demo_object ''a1'' ''t:0'')] (empty_store demo_libs)"
    using demo_admissible by simp
  from store_ok_run [OF store_ok_empty [OF demo_libs_ok(1)] this] show ?thesis
    by (simp add: demo_store_def)
qed

lemma demo_objects: "get_object demo_store x = (if x = ''a1'' then Some (demo_object ''a1'' ''t:0'') else None)"
  by (simp add: demo_store_def get_object_def save_object_def demo_object_def empty_store_def tbl_get_def)

lemma demo_by_seal: "get_object_by_seal demo_store ''t:0'' = Some (demo_object ''a1'' ''t:0'')"
proof -
  have "tbl_get (st_seals demo_store) ''t:0'' = Some ''a1''"
    by (simp add: demo_store_def save_object_def demo_object_def empty_store_def tbl_get_def)
  then show ?thesis by (simp add: get_object_by_seal_def demo_objects)
qed

lemma outpoint_0: "outpoint t 0 = t @ '':0''"
  by (simp add: outpoint_def hex_digit_def dec.simps [of 0])

lemma demo_fresh: "fresh_tx demo_tx demo_store"
proof -
  have "obj_seal (demo_object ''a1'' ''t:0'') = outpoint ''t'' 0" by (simp add: demo_object_def outpoint_0)
  then show ?thesis
    by (simp add: fresh_tx_def demo_objects tx_object_id_def demo_tx_def)
qed

lemma demo_process: "\<exists>s'. process_tx demo_libs demo_engine demo_bp 0 demo_tx 5 demo_store = Ret (Inr (Some ''a1''), s')"
proof -
  have vin: "outpoint ''t'' 0 = ''t:0''" by (simp add: outpoint_0)
  have tgt: "find_target demo_store demo_tx = Some (demo_object ''a1'' ''t:0'')"
    by (simp add: find_target_def demo_tx_def vin demo_by_seal)
  have code: "obj_code_hash (demo_object ''a1'' ''t:0'') = ''wasm_default''" "obj_object_id (demo_object ''a1'' ''t:0'') = ''a1''"
    by (simp_all add: demo_object_def)
  have fee: "validate_fee demo_bp demo_tx" by (simp add: validate_fee_def demo_bp_def)
  have "process_tx demo_libs demo_engine demo_bp 0 demo_tx 5 demo_store =
    Ret (process_call demo_libs demo_engine demo_bp 0 demo_tx 5 0 (hd (tx_vout demo_tx)) JNull (demo_object ''a1'' ''t:0'') demo_store)"
    unfolding process_tx_def
    by (subst (2) demo_tx_def, simp)
       (simp add: process_output_def demo_hex demo_parse envelope_op_def json_get_str_def fee tgt, simp add: demo_tx_def)
  then show ?thesis
    by (simp add: process_call_def Let_def run_method_def code)
qed

lemma single_use_seals_witness:
  "\<exists>s'. process_tx demo_libs demo_engine demo_bp 0 demo_tx 5 demo_store = Ret (Inr (Some ''a1''), s') \<and> seal_index s'"
proof -
  obtain s' where p: "process_tx demo_libs demo_engine demo_bp 0 demo_tx 5 demo_store = Ret (Inr (Some ''a1''), s')"
    using demo_process by blast
  have "keyed (st_objects demo_store)" "seal_index demo_store" using demo_store_ok by (simp_all add: store_ok_def)
  from single_use_seals [OF this fresh_new_outputs [OF demo_fresh] p] p show ?thesis by blast
qed

lemma process_then_rollback_witness:
  "\<exists>s1 s2. process_tx demo_libs demo_engine demo_bp 0 demo_tx 5 demo_store = Ret (Inr (Some ''a1''), s1)
     \<and> rollback_to_block demo_libs ''btc'' 4 s1 = (1, s2) \<and> st_objects s2 = st_objects demo_store"
proof -
  obtain s1 where p: "process_tx demo_libs demo_engine demo_bp 0 demo_tx 5 demo_store = Ret (Inr (Some ''a1''), s1)"
    using demo_process by blast
  obtain n s2 where r: "rollback_to_block demo_libs (bp_chain demo_bp) 4 s1 = (n, s2)" by fastforce
  have none: "tbl_get (st_undo_logs demo_store) u = None" for u
    by (simp add: demo_store_def save_object_tables empty_store_def)
  have "n = 1 \<and> st_objects s2 = st_objects demo_store"
    using process_then_rollback [OF demo_store_ok demo_fresh _ _ _ p r] none by simp
  with p r show ?thesis by (auto simp: demo_bp_def)
qed

text \<open>The demo object under contract code that nobody has: the call fails with the name of the code.\<close>

definition codeless_object :: smart_object where
  "codeless_object = (demo_object ''a1'' ''t:0'')\<lparr>obj_code_hash := ''cc''\<rparr>"

definition codeless_store :: store where
  "codeless_store = save_object demo_libs codeless_object (empty_store demo_libs)"

lemma codeless_target: "find_target codeless_store demo_tx = Some codeless_object"
proof -
  have vin: "outpoint ''t'' 0 = ''t:0''" by (simp add: outpoint_0)
  have "get_object_by_seal codeless_store ''t:0'' = Some codeless_object"
    by (simp add: codeless_store_def codeless_object_def get_object_by_seal_def get_object_def save_object_def
        demo_object_def empty_store_def tbl_get_def)
  then show ?thesis by (simp add: find_target_def demo_tx_def vin)
qed

lemma codeless_call:
  "\<exists>s'. process_tx demo_libs demo_engine demo_bp 0 demo_tx 5 codeless_store = Ret (Inl ''WASM_MISSING:cc'', s')
     \<and> st_undo_logs s' \<noteq> []"
proof -
  have fee: "validate_fee demo_bp demo_tx" by (simp add: validate_fee_def demo_bp_def)
  have "process_tx demo_libs demo_engine demo_bp 0 demo_tx 5 codeless_store =
    Ret (process_call demo_libs demo_engine demo_bp 0 demo_tx 5 0 (hd (tx_vout demo_tx)) JNull codeless_object codeless_store)"
    unfolding process_tx_def
    by (subst (2) demo_tx_def, simp)
       (simp add: process_output_def demo_hex demo_parse envelope_op_def json_get_str_def fee codeless_target, simp add: demo_tx_def)
  moreover have "run_method demo_libs demo_engine (save_undo_log u codeless_store) codeless_object m a x y
      = CallMissing ''WASM_MISSING:cc''" for u m a x y
    using missing_wasm_hash_message [of "''cc''"]
    by (simp add: run_method_def get_wasm_bytes_def get_wasm_def save_undo_log_def codeless_object_def codeless_store_def
        save_object_tables empty_store_def)
  moreover have "st_undo_logs (save_undo_log u codeless_store) \<noteq> []" for u
    by (simp add: save_undo_log_def codeless_store_def save_object_tables empty_store_def)
  ultimately show ?thesis by (simp add: process_call_def Let_def)
qed

lemma process_tx_reverts_witness:
  "\<exists>s'. process_tx demo_libs demo_engine demo_bp 0 demo_tx 5 codeless_store = Ret (Inl ''WASM_MISSING:cc'', s')
     \<and> s' \<noteq> codeless_store \<and> s' = codeless_store\<lparr>st_undo_logs := st_undo_logs s'\<rparr> \<and> get_wasm codeless_store ''cc'' = None"
proof -
  obtain s' where p: "process_tx demo_libs demo_engine demo_bp 0 demo_tx 5 codeless_store = Ret (Inl ''WASM_MISSING:cc'', s')"
    and u: "st_undo_logs s' \<noteq> []" using codeless_call by blast
  have "st_undo_logs codeless_store = []" by (simp add: codeless_store_def save_object_tables empty_store_def)
  then have "s' \<noteq> codeless_store" using u by auto
  moreover have "obj_code_hash codeless_object = ''cc''" by (simp add: codeless_object_def)
  ultimately show ?thesis using process_tx_reverts [OF p] p codeless_target by auto
qed

lemma process_tx_no_panic_witness:
  "process_tx demo_libs demo_engine demo_bp 0 demo_tx 5 demo_store \<noteq> Panic"
  by (rule process_tx_no_panic) (simp add: demo_tx_def str_get_def)

text \<open>The id matters: a deployment under a transaction id of fewer than 16 bytes panics.\<close>

lemma short_txid_panics:
  "process_create L bp (demo_tx\<lparr>tx_txid := ''01234567''\<rparr>) height i out env s = Panic"
  by (simp add: process_create_def Let_def demo_tx_def str_index_def str_get_def)

end
