(* ===== verification/Verifier.thy ===== *)
theory Verifier
  imports Store Attestation
begin

text \<open>
  packages/node/src/cross_chain/verifier.rs: the quorum, Merkle and signature checks of a
  cross-chain proof, and the canonical JSON encoding the Merkle leaf is hashed from. The
  ConsensusManager is passed as the state it reads. The first part is the counting of state
  roots that relay.rs uses too.
\<close>

section \<open>Counting roots\<close>

text \<open>
  The HashMap of counts as a sorted table, and the winner by count, then root. The order in
  which the HashMap iterates does not matter (winning_root_any_order).
\<close>

definition count_root :: "attestation \<Rightarrow> (string, nat) table \<Rightarrow> (string, nat) table" where
  "count_root a t =
     tbl_insert (att_state_root a) ((case tbl_get t (att_state_root a) of Some n \<Rightarrow> n | None \<Rightarrow> 0) + 1) t"

definition root_counts :: "attestation list \<Rightarrow> (string, nat) table" where
  "root_counts as = fold count_root as []"

definition count_le :: "string \<times> nat \<Rightarrow> string \<times> nat \<Rightarrow> bool" where
  "count_le a b \<longleftrightarrow> snd a < snd b \<or> snd a = snd b \<and> fst a \<le> fst b"

definition winning_root :: "attestation list \<Rightarrow> (string \<times> nat) option" where
  "winning_root as = max_by count_le (root_counts as)"

definition two_thirds :: "nat \<Rightarrow> nat" where
  "two_thirds total_validators = (total_validators * 2 + 2) div 3"

lemma root_counts_get:
  "tbl_get (root_counts as) r = (if root_votes as r = 0 then None else Some (root_votes as r))"
  by (induction as arbitrary: r rule: rev_induct)
    (auto simp: root_counts_def count_root_def root_votes_def)

lemma root_counts_ok: "tbl_ok (root_counts as)"
  by (induction as rule: rev_induct) (auto simp: root_counts_def count_root_def)

lemma root_counts_member: "(r, n) \<in> set (root_counts as) \<longleftrightarrow> n = root_votes as r \<and> n \<noteq> 0"
proof -
  have "(r, n) \<in> set (root_counts as) \<longleftrightarrow> tbl_get (root_counts as) r = Some n"
    using tbl_ok_get [OF root_counts_ok] tbl_get_Some_in by metis
  then show ?thesis by (auto simp: root_counts_get)
qed

lemma root_counts_Nil: "root_counts as = [] \<longleftrightarrow> as = []"
proof (cases as)
  case (Cons a as')
  then have "(att_state_root a, root_votes as (att_state_root a)) \<in> set (root_counts as)"
    by (simp add: root_counts_member root_votes_def)
  then show ?thesis using Cons by auto
qed (simp add: root_counts_def)

lemma max_count: "max_by count_le cs = Some m \<Longrightarrow> m \<in> set cs \<and> (\<forall>x \<in> set cs. count_le x m)"
proof (rule max_by_member)
  show "count_le a b \<or> count_le b a" for a b by (auto simp: count_le_def)
  show "count_le a c" if "count_le a b" "count_le b c" for a b c using that by (auto simp: count_le_def)
qed

lemma winning_root_Some:
  assumes "winning_root as = Some (w, n)"
  shows "n = root_votes as w" "0 < n" "root_best as w"
proof -
  from max_count [OF assms [unfolded winning_root_def]]
  have w: "n = root_votes as w" "n \<noteq> 0" and max: "\<And>r. root_votes as r \<noteq> 0 \<Longrightarrow> count_le (r, root_votes as r) (w, n)"
    using root_counts_member by auto
  then show "n = root_votes as w" "0 < n" by simp_all
  have "root_votes as r < root_votes as w \<or> root_votes as r = root_votes as w \<and> r \<le> w" for r
    using max [of r] w by (cases "root_votes as r = 0") (auto simp: count_le_def)
  then show "root_best as w" by (simp add: root_best_def)
qed

lemma winning_root_any_order:
  assumes "mset cs = mset (root_counts as)"
  shows "max_by count_le cs = winning_root as"
proof (cases "root_counts as = []")
  case True
  then show ?thesis using assms by (simp add: winning_root_def)
next
  case False
  have eq: "set cs = set (root_counts as)" using assms by (metis set_mset_mset)
  then obtain m m' where m: "max_by count_le cs = Some m" and m': "max_by count_le (root_counts as) = Some m'"
    using False by (metis max_by_None option.exhaust set_empty)
  have "count_le m m'" "count_le m' m" using max_count [OF m] max_count [OF m'] eq by auto
  then have "m = m'" by (auto simp: count_le_def prod_eq_iff)
  then show ?thesis using m m' by (simp add: winning_root_def)
qed

section \<open>Canonical JSON\<close>

fun canonicalize_json_value :: "json \<Rightarrow> json" where
  "canonicalize_json_value (JObject kvs) =
     JObject (fold (\<lambda>(k, v) obj. tbl_insert k v obj)
       (sort_key fst (map (\<lambda>(k, v). (k, canonicalize_json_value v)) kvs)) [])"
| "canonicalize_json_value (JArray vs) = JArray (map canonicalize_json_value vs)"
| "canonicalize_json_value other = other"

definition canonical_json_to_vec :: "libs \<Rightarrow> json \<Rightarrow> bytes" where
  "canonical_json_to_vec L j = json_to_vec L (canonicalize_json_value j)"

section \<open>The verifier\<close>

record cross_chain_proof =
  ccp_source_chain :: string
  ccp_source_height :: u64
  ccp_source_root :: string
  ccp_object_id :: string
  ccp_object_data :: json
  ccp_merkle_proof :: inclusion_proof
  ccp_attestations :: "attestation list"

record verification_result =
  vr_valid :: bool
  vr_source_chain :: string
  vr_source_height :: u64
  vr_quorum_reached :: bool
  vr_merkle_verified :: bool
  vr_error :: "string option"

text \<open>The attestations the quorum loop counts: known validators, the first of each.\<close>

fun counted :: "string list \<Rightarrow> string list \<Rightarrow> attestation list \<Rightarrow> attestation list" where
  "counted known seen [] = []"
| "counted known seen (a # as) =
     (if att_validator_pubkey a \<notin> set known then counted known seen as
      else if att_validator_pubkey a \<in> set seen then counted known seen as
      else a # counted known (att_validator_pubkey a # seen) as)"

definition verify_quorum :: "consensus \<Rightarrow> cross_chain_proof \<Rightarrow> bool" where
  "verify_quorum cm pr =
     (if ccp_attestations pr = [] then False
      else if get_validator_count cm = 0 then False
      else case winning_root (counted (cm_known_validators cm) [] (ccp_attestations pr)) of
        None \<Rightarrow> False
      | Some (root, max_count) \<Rightarrow>
          if root \<noteq> ccp_source_root pr then False
          else two_thirds (get_validator_count cm) \<le> max_count)"

definition verify_merkle :: "libs \<Rightarrow> cross_chain_proof \<Rightarrow> bool" where
  "verify_merkle L pr =
     (case hex_decode L (ccp_source_root pr) of
        None \<Rightarrow> False
      | Some b \<Rightarrow>
          if length b \<noteq> 32 then False
          else verify_proof L b (sha256 L (as_bytes (ccp_object_id pr)))
                 (sha256 L (canonical_json_to_vec L (ccp_object_data pr)))
                 (prf_proof_path (ccp_merkle_proof pr)))"

definition attestation_matches :: "cross_chain_proof \<Rightarrow> attestation \<Rightarrow> bool" where
  "attestation_matches pr a \<longleftrightarrow> att_state_root a = ccp_source_root pr
     \<and> att_block_height a = ccp_source_height pr \<and> att_chain a = ccp_source_chain pr"

definition verify_attestation_signatures :: "libs \<Rightarrow> cross_chain_proof \<Rightarrow> bool" where
  "verify_attestation_signatures L pr \<longleftrightarrow> ccp_attestations pr \<noteq> []
     \<and> (\<forall>a \<in> set (ccp_attestations pr). attestation_matches pr a \<and> verify_attestation L a)"

definition cross_verify_proof :: "libs \<Rightarrow> consensus \<Rightarrow> cross_chain_proof \<Rightarrow> verification_result" where
  "cross_verify_proof L cm pr =
     (let answer = (\<lambda>valid quorum merkle err. \<lparr>vr_valid = valid, vr_source_chain = ccp_source_chain pr,
            vr_source_height = ccp_source_height pr, vr_quorum_reached = quorum,
            vr_merkle_verified = merkle, vr_error = err\<rparr>) in
      if \<not> verify_quorum cm pr then
        answer False False False (Some ''Quorum not reached: insufficient validator attestations'')
      else if \<not> verify_merkle L pr then
        answer False True False (Some ''Merkle proof verification failed'')
      else if \<not> verify_attestation_signatures L pr then
        answer False True True (Some ''Invalid attestation signatures'')
      else answer True True True None)"

lemma cross_verify_valid:
  "vr_valid (cross_verify_proof L cm pr) \<longleftrightarrow>
     verify_quorum cm pr \<and> verify_merkle L pr \<and> verify_attestation_signatures L pr"
  by (simp add: cross_verify_proof_def Let_def)

subsection \<open>The counted attestations are a ballot box\<close>

text \<open>The interpretation cmq of quorum_voting, on voters and roots of attestations, serves here too.\<close>

lemma counted_subset: "set (counted known seen as) \<subseteq> set as"
  by (induction known seen as rule: counted.induct) auto

lemma counted_box:
  "distinct (map att_validator_pubkey (counted known seen as))
   \<and> att_validator_pubkey ` set (counted known seen as) \<subseteq> set known - set seen"
  by (induction known seen as rule: counted.induct) auto

lemma counted_valid_box: "cmq.valid_box known (counted known seen as)"
  using counted_box [of known seen as] by (auto simp: cmq.valid_box_def)

text \<open>The validators behind a proof: the known ones with a counted attestation for its root.\<close>

definition signers :: "consensus \<Rightarrow> cross_chain_proof \<Rightarrow> string set" where
  "signers cm pr = cmq.supporters (ccp_source_root pr)
     (counted (cm_known_validators cm) [] (ccp_attestations pr))"

lemma quorum_votes:
  assumes "verify_quorum cm pr"
  shows "two_thirds (length (cm_known_validators cm))
    \<le> cmq.votes (ccp_source_root pr) (counted (cm_known_validators cm) [] (ccp_attestations pr))"
  using assms winning_root_Some
  by (fastforce simp: verify_quorum_def get_validator_count_def cmq.votes_def root_votes_def
      split: if_splits option.splits prod.splits)

lemma signer_attested:
  assumes "vr_valid (cross_verify_proof L cm pr)" "v \<in> signers cm pr"
  obtains a where "a \<in> set (ccp_attestations pr)" "att_validator_pubkey a = v" "v \<in> set (cm_known_validators cm)"
    "attestation_matches pr a" "verify_attestation L a"
proof -
  from assms(2) obtain a where a: "a \<in> set (counted (cm_known_validators cm) [] (ccp_attestations pr))"
    "att_validator_pubkey a = v" by (auto simp: signers_def cmq.supporters_def)
  moreover have "v \<in> set (cm_known_validators cm)"
    using a counted_box [of "cm_known_validators cm" "[]" "ccp_attestations pr"] by auto
  moreover have "a \<in> set (ccp_attestations pr)" using a(1) counted_subset by blast
  ultimately show thesis
    using assms(1) that by (auto simp: cross_verify_valid verify_attestation_signatures_def)
qed

lemma card_signers:
  assumes "vr_valid (cross_verify_proof L cm pr)"
  shows "2 * length (cm_known_validators cm) \<le> 3 * card (signers cm pr)"
    "signers cm pr \<subseteq> set (cm_known_validators cm)"
proof -
  have "two_thirds (length (cm_known_validators cm)) \<le> card (signers cm pr)"
    using assms quorum_votes [of cm pr] cmq.card_supporters [OF counted_valid_box]
    by (simp add: signers_def cross_verify_valid)
  then show "2 * length (cm_known_validators cm) \<le> 3 * card (signers cm pr)"
    by (simp add: two_thirds_def)
  show "signers cm pr \<subseteq> set (cm_known_validators cm)"
    unfolding signers_def by (rule cmq.supporters_members) (rule counted_valid_box)
qed

text \<open>A proof for the witnesses: one validator, and a tree of one leaf as the source.\<close>

definition demo_pk :: string where
  "demo_pk = replicate 32 (CHR ''k'')"

definition demo_root :: "string \<Rightarrow> string" where
  "demo_root oid = hex_encode demo_libs (hash_leaf demo_libs (sha256 demo_libs (as_bytes oid)) (sha256 demo_libs []))"

definition demo_proof :: "string \<Rightarrow> cross_chain_proof" where
  "demo_proof oid = \<lparr>ccp_source_chain = ''btc'', ccp_source_height = 7, ccp_source_root = demo_root oid,
     ccp_object_id = oid, ccp_object_data = JNull,
     ccp_merkle_proof = \<lparr>prf_key_hex = [], prf_value_hex = [], prf_root_hex = [], prf_proof_path = [], prf_verified = False\<rparr>,
     ccp_attestations = [demo_attestation demo_pk (demo_root oid)]\<rparr>"

definition demo_consensus :: consensus where
  "demo_consensus = (cm_new 1)\<lparr>cm_known_validators := [hex_encode demo_libs (as_bytes demo_pk)]\<rparr>"

lemma demo_root_decodes: "hex_decode demo_libs (demo_root oid) = Some (hash_leaf demo_libs (sha256 demo_libs (as_bytes oid)) (sha256 demo_libs []))"
  using demo_libs_ok(2) by (simp add: demo_root_def hex_roundtrip_def)

lemma demo_proof_valid: "vr_valid (cross_verify_proof demo_libs demo_consensus (demo_proof oid))"
proof -
  have att: "att_validator_pubkey (demo_attestation demo_pk r) = hex_encode demo_libs (as_bytes demo_pk)"
    "att_chain (demo_attestation demo_pk r) = ''btc''" "att_block_height (demo_attestation demo_pk r) = 7" for r
    by (simp_all add: demo_attestation_def sign_state_root_def)
  have ver: "verify_attestation demo_libs (demo_attestation demo_pk r)" for r
    by (rule demo_attestation_verifies) (simp add: demo_pk_def)
  have json: "canonical_json_to_vec demo_libs JNull = []" by (simp add: canonical_json_to_vec_def demo_libs_def)
  have len: "length (hash_leaf demo_libs x y) = 32" for x y
    using demo_libs_ok(1) by (simp add: hash_leaf_def sha256_len_def)
  have "verify_quorum demo_consensus (demo_proof oid)"
    by (simp add: verify_quorum_def demo_proof_def demo_consensus_def cm_new_def get_validator_count_def att
        winning_root_def root_counts_def count_root_def two_thirds_def)
  moreover have "verify_merkle demo_libs (demo_proof oid)"
    by (simp add: verify_merkle_def demo_proof_def demo_root_decodes len json verify_proof_def verify_proof_static_def)
  moreover have "verify_attestation_signatures demo_libs (demo_proof oid)"
    by (simp add: verify_attestation_signatures_def demo_proof_def attestation_matches_def att ver)
  ultimately show ?thesis by (simp add: cross_verify_valid)
qed

text \<open>
  The Merkle half of an accepted proof: its path leads from the hashes of the object's id and data to
  the root, so in any tree with that root the id has that data, unless the hash breaks on one of the
  named inputs.
\<close>

lemma accepted_in_tree:
  assumes m: "verify_merkle L pr" and len: "sha256_len L"
  defines "k \<equiv> sha256 L (as_bytes (ccp_object_id pr))" and "v \<equiv> sha256 L (canonical_json_to_vec L (ccp_object_data pr))"
  shows "\<exists>b. hex_decode L (ccp_source_root pr) = Some b \<and> length b = 32
    \<and> verify_proof_static L b k v (prf_proof_path (ccp_merkle_proof pr))
    \<and> (\<forall>t. smt_ok L t \<and> fst (smt_root t) = b \<longrightarrow> smt_get t k = Some v
         \<or> hash_break L (tree_inputs L (smt_get t) \<union> set (proof_inputs L k v (prf_proof_path (ccp_merkle_proof pr)))))"
proof -
  obtain b where b: "hex_decode L (ccp_source_root pr) = Some b" "length b = 32"
    "verify_proof_static L b k v (prf_proof_path (ccp_merkle_proof pr))"
    using m by (auto simp: verify_merkle_def verify_proof_def k_def v_def split: option.splits if_splits)
  have "key_ok k" using len by (simp add: key_ok_def k_def sha256_len_def)
  with b verify_proof_sound_aux [OF _ len] show ?thesis by blast
qed

text \<open>
  C7. What an accepted cross-chain proof shows. Two thirds of the registered validators, and at least
  one, each vouch with a valid signature of their own for exactly the chain, height and root of the
  proof; duplicated and foreign attestations never count towards it. And the proof path leads from the
  hash of the object's id and the hash of its canonical JSON to that root: every sparse Merkle tree
  with the root holds that leaf, or two of the named inputs break the hash.
\<close>

theorem accepted_proof_quorum:
  assumes valid: "vr_valid (cross_verify_proof L cm pr)" and len: "sha256_len L"
  defines "k \<equiv> sha256 L (as_bytes (ccp_object_id pr))" and "v \<equiv> sha256 L (canonical_json_to_vec L (ccp_object_data pr))"
  shows "(\<exists>S \<subseteq> set (cm_known_validators cm). S \<noteq> {} \<and> 2 * length (cm_known_validators cm) \<le> 3 * card S
      \<and> (\<forall>v \<in> S. \<exists>a \<in> set (ccp_attestations pr). att_validator_pubkey a = v
           \<and> att_chain a = ccp_source_chain pr \<and> att_block_height a = ccp_source_height pr
           \<and> att_state_root a = ccp_source_root pr \<and> verify_attestation L a))
    \<and> (\<exists>b. hex_decode L (ccp_source_root pr) = Some b \<and> length b = 32
      \<and> verify_proof_static L b k v (prf_proof_path (ccp_merkle_proof pr))
      \<and> (\<forall>t. smt_ok L t \<and> fst (smt_root t) = b \<longrightarrow> smt_get t k = Some v
           \<or> hash_break L (tree_inputs L (smt_get t) \<union> set (proof_inputs L k v (prf_proof_path (ccp_merkle_proof pr))))))"
proof (intro conjI)
  show "\<exists>S \<subseteq> set (cm_known_validators cm). S \<noteq> {} \<and> 2 * length (cm_known_validators cm) \<le> 3 * card S
      \<and> (\<forall>v \<in> S. \<exists>a \<in> set (ccp_attestations pr). att_validator_pubkey a = v
           \<and> att_chain a = ccp_source_chain pr \<and> att_block_height a = ccp_source_height pr
           \<and> att_state_root a = ccp_source_root pr \<and> verify_attestation L a)"
  proof (intro exI conjI ballI)
    show "signers cm pr \<subseteq> set (cm_known_validators cm)"
      "2 * length (cm_known_validators cm) \<le> 3 * card (signers cm pr)"
      by (rule card_signers [OF valid])+
    have "0 < length (cm_known_validators cm)"
      using valid by (auto simp: cross_verify_valid verify_quorum_def get_validator_count_def split: if_splits)
    then show "signers cm pr \<noteq> {}" using card_signers(1) [OF valid] by auto
    fix v assume "v \<in> signers cm pr"
    with valid show "\<exists>a \<in> set (ccp_attestations pr). att_validator_pubkey a = v
         \<and> att_chain a = ccp_source_chain pr \<and> att_block_height a = ccp_source_height pr
         \<and> att_state_root a = ccp_source_root pr \<and> verify_attestation L a"
      by (elim signer_attested) (auto simp: attestation_matches_def)
  qed
  have "verify_merkle L pr" using valid by (simp add: cross_verify_valid)
  from accepted_in_tree [OF this len] show "\<exists>b. hex_decode L (ccp_source_root pr) = Some b \<and> length b = 32
      \<and> verify_proof_static L b k v (prf_proof_path (ccp_merkle_proof pr))
      \<and> (\<forall>t. smt_ok L t \<and> fst (smt_root t) = b \<longrightarrow> smt_get t k = Some v
           \<or> hash_break L (tree_inputs L (smt_get t) \<union> set (proof_inputs L k v (prf_proof_path (ccp_merkle_proof pr)))))"
    unfolding k_def v_def .
qed

lemma accepted_proof_quorum_witness:
  "\<exists>S \<subseteq> set (cm_known_validators demo_consensus). S \<noteq> {}
     \<and> (\<exists>b. hex_decode demo_libs (ccp_source_root (demo_proof ''a1'')) = Some b \<and> length b = 32)"
  using accepted_proof_quorum [OF demo_proof_valid [of "''a1''"] demo_libs_ok(1)] by blast

text \<open>Two signed votes of one validator for different roots at one chain and height convict it.\<close>

lemma votes_convict:
  assumes "verify_attestation L a" "verify_attestation L b"
    and "att_validator_pubkey a = v" "att_validator_pubkey b = v" "att_chain a = c" "att_chain b = c"
    and "att_block_height a = h" "att_block_height b = h" "att_state_root a \<noteq> att_state_root b"
  shows "verify_equivocation_proof L \<lparr>eqv_chain = c, eqv_block_height = h, eqv_validator_pubkey = v,
    eqv_first_attestation = a, eqv_second_attestation = b, eqv_detected_at = now\<rparr>"
  using assms by (auto simp: verify_equivocation_proof_def verify_attestation_def Let_def split: option.splits if_splits)

text \<open>
  C6. Accountable safety. If two cross-chain proofs for the same chain and height but different
  state roots are both accepted under one validator set, at least a third of the validators
  signed both roots, and the attestations in the two proofs convict each of them: they make an
  equivocation proof that verify_equivocation_proof accepts.
\<close>

theorem accountable_safety:
  assumes v: "vr_valid (cross_verify_proof L cm pr)" and v': "vr_valid (cross_verify_proof L cm pr')"
    and d: "distinct (cm_known_validators cm)"
    and same: "ccp_source_chain pr = ccp_source_chain pr'" "ccp_source_height pr = ccp_source_height pr'"
    and diff: "ccp_source_root pr \<noteq> ccp_source_root pr'"
  shows "\<exists>S \<subseteq> set (cm_known_validators cm). length (cm_known_validators cm) \<le> 3 * card S
    \<and> (\<forall>k \<in> S. \<exists>a \<in> set (ccp_attestations pr). \<exists>b \<in> set (ccp_attestations pr').
         verify_equivocation_proof L \<lparr>eqv_chain = ccp_source_chain pr, eqv_block_height = ccp_source_height pr,
           eqv_validator_pubkey = k, eqv_first_attestation = a, eqv_second_attestation = b, eqv_detected_at = now\<rparr>)"
proof (intro exI conjI ballI)
  let ?known = "cm_known_validators cm" and ?S = "signers cm pr \<inter> signers cm pr'"
  show "?S \<subseteq> set ?known" using card_signers(2) [OF v] by blast
  have q: "two_thirds (length ?known) \<le> cmq.votes (ccp_source_root pr) (counted ?known [] (ccp_attestations pr))"
    "two_thirds (length ?known) \<le> cmq.votes (ccp_source_root pr') (counted ?known [] (ccp_attestations pr'))"
    using v v' quorum_votes by (auto simp: cross_verify_valid)
  have "2 * two_thirds (length ?known) \<le> card (set ?known) + card ?S"
    unfolding signers_def by (rule cmq.double_voters [OF counted_valid_box counted_valid_box q])
  moreover have "2 * length ?known \<le> 3 * two_thirds (length ?known)"
    by (simp add: two_thirds_def)
  ultimately show "length ?known \<le> 3 * card ?S" using d by (simp add: distinct_card)
  fix k assume k: "k \<in> ?S"
  from v k obtain a where a: "a \<in> set (ccp_attestations pr)" "att_validator_pubkey a = k"
    "attestation_matches pr a" "verify_attestation L a" by (auto elim: signer_attested)
  from v' k obtain b where b: "b \<in> set (ccp_attestations pr')" "att_validator_pubkey b = k"
    "attestation_matches pr' b" "verify_attestation L b" by (auto elim: signer_attested)
  show "\<exists>a \<in> set (ccp_attestations pr). \<exists>b \<in> set (ccp_attestations pr').
         verify_equivocation_proof L \<lparr>eqv_chain = ccp_source_chain pr, eqv_block_height = ccp_source_height pr,
           eqv_validator_pubkey = k, eqv_first_attestation = a, eqv_second_attestation = b, eqv_detected_at = now\<rparr>"
    by (intro bexI [OF _ a(1)] bexI [OF _ b(1)] votes_convict a b)
      (use a(3) b(3) same diff in \<open>simp_all add: attestation_matches_def\<close>)
qed

lemma accountable_safety_witness:
  "\<exists>k. \<exists>a \<in> set (ccp_attestations (demo_proof ''a'')). \<exists>b \<in> set (ccp_attestations (demo_proof ''b'')).
     verify_equivocation_proof demo_libs \<lparr>eqv_chain = ''btc'', eqv_block_height = 7, eqv_validator_pubkey = k,
       eqv_first_attestation = a, eqv_second_attestation = b, eqv_detected_at = 0\<rparr>"
proof -
  have "hash_leaf demo_libs (sha256 demo_libs (as_bytes ''a'')) v \<noteq> hash_leaf demo_libs (sha256 demo_libs (as_bytes ''b'')) v" for v
    by (simp add: hash_leaf_def leaf_input_def demo_libs_def as_bytes_def)
  then have roots: "ccp_source_root (demo_proof ''a'') \<noteq> ccp_source_root (demo_proof ''b'')"
    using demo_root_decodes by (simp add: demo_proof_def) (metis option.inject)
  have d: "distinct (cm_known_validators demo_consensus)" by (simp add: demo_consensus_def)
  have same: "ccp_source_chain (demo_proof ''a'') = ccp_source_chain (demo_proof ''b'')"
    "ccp_source_height (demo_proof ''a'') = ccp_source_height (demo_proof ''b'')"
    by (simp_all add: demo_proof_def)
  obtain S where S: "length (cm_known_validators demo_consensus) \<le> 3 * card S"
    and conv: "\<And>k. k \<in> S \<Longrightarrow> \<exists>a \<in> set (ccp_attestations (demo_proof ''a'')). \<exists>b \<in> set (ccp_attestations (demo_proof ''b'')).
      verify_equivocation_proof demo_libs \<lparr>eqv_chain = ccp_source_chain (demo_proof ''a''),
        eqv_block_height = ccp_source_height (demo_proof ''a''), eqv_validator_pubkey = k,
        eqv_first_attestation = a, eqv_second_attestation = b, eqv_detected_at = 0\<rparr>"
    using accountable_safety [OF demo_proof_valid [of "''a''"] demo_proof_valid [of "''b''"] d same roots, of 0] by blast
  have "S \<noteq> {}" using S by (auto simp: demo_consensus_def)
  then obtain k where "k \<in> S" by blast
  from conv [OF this] show ?thesis by (auto simp: demo_proof_def)
qed

subsection \<open>Canonical encoding\<close>

lemma canonical_object_permuted:
  assumes "mset kvs = mset kvs'" "distinct (map fst kvs)"
  shows "canonicalize_json_value (JObject kvs) = canonicalize_json_value (JObject kvs')"
proof -
  let ?c = "map (\<lambda>(k, v). (k, canonicalize_json_value v))"
  have keys: "map fst (?c kvs) = map fst kvs" by (induction kvs) auto
  have "sort_key fst (?c kvs) = sort_key fst (?c kvs')"
  proof (rule sort_key_distinct_perm)
    show "distinct (map fst (?c kvs))" unfolding keys by (rule assms(2))
  qed (simp add: assms(1))
  then show ?thesis by simp
qed

subsection \<open>What the Merkle check binds\<close>

text \<open>
  A proof accepted against the root of a node's own tree binds the SHA-256 of the canonical JSON
  to the object's leaf. The leaves the store writes are hash_object of the record, so an honest
  inclusion proof of a stored object is accepted only if the two encodings hash alike.
\<close>

lemma accepted_leaf_is_json_hash:
  assumes ok: "store_ok L s" and len: "sha256_len L" and hex: "hex_roundtrip L"
    and root: "ccp_source_root pr = fst (current_state_root L s)"
    and m: "verify_merkle L pr" and obj: "get_object s (ccp_object_id pr) = Some ob"
    and nb: "\<not> hash_break L (tree_inputs L (smt_get (st_smt s)) \<union> set (proof_inputs L
        (hash_key L (ccp_object_id pr)) (sha256 L (canonical_json_to_vec L (ccp_object_data pr)))
        (prf_proof_path (ccp_merkle_proof pr))))"
  shows "sha256 L (canonical_json_to_vec L (ccp_object_data pr)) = hash_object L ob"
proof -
  let ?k = "hash_key L (ccp_object_id pr)" and ?v = "sha256 L (canonical_json_to_vec L (ccp_object_data pr))"
  have c: "hash_ok L (st_objects s)" "smt_ok L (st_smt s)"
    "smt_get (st_smt s) = updates_content (object_updates L (st_objects s))" and k: "tbl_ok (st_objects s)"
    using ok by (auto simp: store_ok_def committed_def keyed_def)
  have "hex_decode L (ccp_source_root pr) = Some (fst (smt_root (st_smt s)))"
    using root hex by (simp add: current_state_root_def case_prod_beta hex_roundtrip_def)
  with m have "verify_proof_static L (fst (smt_root (st_smt s))) ?k ?v (prf_proof_path (ccp_merkle_proof pr))"
    by (simp add: verify_merkle_def verify_proof_def hash_key_def split: if_splits)
  moreover have "key_ok ?k" using len by (simp add: key_ok_def hash_key_def sha256_len_def)
  ultimately have "smt_get (st_smt s) ?k = Some ?v"
    using verify_proof_sound_aux [OF c(2) len] nb by blast
  moreover have "(ccp_object_id pr, ob) \<in> set (st_objects s)"
    using obj by (simp add: get_object_def tbl_get_Some_in)
  then have "smt_get (st_smt s) ?k = Some (hash_object L ob)"
    using object_content [OF c(1), of ?k "hash_object L ob"] k unfolding c(3) tbl_ok_def by blast
  ultimately show ?thesis by simp
qed

end
