(* ===== verification/Bridge.thy ===== *)
theory Bridge
  imports Verifier Processor
begin

text \<open>
  packages/node/src/cross_chain/bridge.rs: locking an object for a transfer, minting from a
  cross-chain proof, cancelling. The state is the shared store with the in-memory caches in
  front of it. Operations run one after the other (the per-transfer mutexes serialise mints of one
  transfer and have no state of their own), every operation reads the clock once, and its
  error messages are constructors of bridge_error.
\<close>

section \<open>Data\<close>

definition RECLAIM_TIMEOUT_SECS :: i64 where
  "RECLAIM_TIMEOUT_SECS = 3600"

record bridge_event =
  ev_transfer_id :: string
  ev_event_type :: string
  ev_chain :: string
  ev_height :: u64
  ev_timestamp :: i64
  ev_payload :: json

record lock_proof =
  lp_txid :: string
  lp_vout :: u32
  lp_amount :: u64
  lp_owner :: string
  lp_chain :: string
  lp_height :: u64

record mint_proof =
  mp_txid :: string
  mp_vout :: u32
  mp_amount :: u64
  mp_owner :: string
  mp_chain :: string
  mp_height :: u64

record bridge_manager =
  br_store :: store
  br_transfers :: "(string, bridge_transfer) table"
  br_events :: "bridge_event list"
  br_minted_objects :: "(string, string) table"

datatype bridge_error =
    ObjectNotFound string
  | AlreadyLocked string string
  | NotOwner string string
  | InvalidPubkeyHex | InvalidPubkey | InvalidSignatureHex | InvalidSignature | SignatureRejected
  | ReplayRejected string string string
  | AlreadyMinted string bridge_status
  | TransferNotFound string
  | ProofRejected "string option"
  | ObjectMismatch string string
  | ChainMismatch string string
  | NotCancellable string bridge_status
  | TimeoutNotReached i64
  | NotOriginalOwner string string

section \<open>Operations\<close>

definition bridge_new :: "store \<Rightarrow> bridge_manager" where
  "bridge_new s =
     \<lparr>br_store = s,
      br_transfers = fold (\<lambda>t m. tbl_insert (bt_id t) t m) (get_all_bridge_transfers s) [],
      br_events = [],
      br_minted_objects = fold (\<lambda>(obj_id, transfer_id) m. tbl_insert obj_id transfer_id m) (get_all_minted_proofs s) []\<rparr>"

definition update_transfer :: "bridge_transfer \<Rightarrow> bridge_manager \<Rightarrow> bridge_manager" where
  "update_transfer t b =
     b\<lparr>br_transfers := tbl_insert (bt_id t) t (br_transfers b), br_store := save_bridge_transfer t (br_store b)\<rparr>"

definition emit_event :: "bridge_event \<Rightarrow> bridge_manager \<Rightarrow> bridge_manager" where
  "emit_event e b = b\<lparr>br_events := br_events b @ [e]\<rparr>"

definition bridge_save_object :: "libs \<Rightarrow> smart_object \<Rightarrow> bridge_manager \<Rightarrow> bridge_manager" where
  "bridge_save_object L obj b = b\<lparr>br_store := save_object L obj (br_store b)\<rparr>"

text \<open>The ECDSA check of lock_assets and cancel_transfer, in the order of its failures.\<close>

definition check_signature :: "libs \<Rightarrow> bytes \<Rightarrow> string \<Rightarrow> string \<Rightarrow> bridge_error + unit" where
  "check_signature L digest pubkey_hex signature_hex =
     (case hex_decode L pubkey_hex of
        None \<Rightarrow> Inl InvalidPubkeyHex
      | Some pubkey_bytes \<Rightarrow>
          if \<not> pubkey_parse L pubkey_bytes then Inl InvalidPubkey
          else case hex_decode L signature_hex of
            None \<Rightarrow> Inl InvalidSignatureHex
          | Some sig_bytes \<Rightarrow>
              if \<not> ecdsa_sig_parse L sig_bytes then Inl InvalidSignature
              else if \<not> ecdsa_verify L sig_bytes digest pubkey_bytes then Inl SignatureRejected
              else Inr ())"

definition lock_prefix :: string where
  "lock_prefix = ''bridge_locked:''"

definition lock_message :: "string \<Rightarrow> string \<Rightarrow> string \<Rightarrow> string \<Rightarrow> string" where
  "lock_message source_chain object_id dest_chain dest_owner =
     ''lock:'' @ source_chain @ '':'' @ object_id @ '':'' @ dest_chain @ '':'' @ dest_owner"

definition transfer_id_of :: "string \<Rightarrow> string \<Rightarrow> string \<Rightarrow> i64 \<Rightarrow> string" where
  "transfer_id_of source_chain dest_chain object_id now =
     source_chain @ ''_'' @ dest_chain @ ''_'' @ object_id @ ''_'' @ dec_int now"

definition lock_assets :: "libs \<Rightarrow> i64 \<Rightarrow> string \<Rightarrow> string \<Rightarrow> string \<Rightarrow> string \<Rightarrow> string \<Rightarrow> string
    \<Rightarrow> bridge_manager \<Rightarrow> (bridge_error + bridge_transfer) \<times> bridge_manager" where
  "lock_assets L now source_chain object_id dest_chain dest_owner caller_pubkey signature_hex b =
     (case get_object (br_store b) object_id of
        None \<Rightarrow> (Inl (ObjectNotFound object_id), b)
      | Some obj \<Rightarrow>
          (case strip_prefix lock_prefix (obj_owner obj) of
             Some locked_owner \<Rightarrow> (Inl (AlreadyLocked object_id locked_owner), b)
           | None \<Rightarrow>
               if caller_pubkey \<noteq> obj_owner obj then (Inl (NotOwner caller_pubkey (obj_owner obj)), b)
               else case check_signature L
                    (sha256 L (as_bytes (lock_message source_chain object_id dest_chain dest_owner)))
                    caller_pubkey signature_hex of
                 Inl e \<Rightarrow> (Inl e, b)
               | Inr _ \<Rightarrow>
                   (let transfer_id = transfer_id_of source_chain dest_chain object_id now;
                        transfer = \<lparr>bt_id = transfer_id, bt_source_chain = source_chain,
                          bt_source_object_id = object_id, bt_dest_chain = dest_chain,
                          bt_dest_owner = dest_owner, bt_amount = obj_satoshis obj, bt_status = Locked,
                          bt_created_at = now, bt_completed_at = None\<rparr>;
                        b1 = bridge_save_object L (obj\<lparr>obj_owner := lock_prefix @ obj_owner obj\<rparr>) b;
                        b2 = update_transfer transfer b1
                    in (Inr transfer, emit_event
                          \<lparr>ev_transfer_id = transfer_id, ev_event_type = ''LOCK_INITIATED'',
                           ev_chain = source_chain, ev_height = 0, ev_timestamp = now,
                           ev_payload = JObject [(''amount'', JNumber (PosInt (obj_satoshis obj))),
                             (''dest_chain'', JString dest_chain), (''dest_owner'', JString dest_owner),
                             (''object_id'', JString object_id)]\<rparr> b2))))"

definition unlock_object :: "libs \<Rightarrow> i64 \<Rightarrow> bridge_transfer \<Rightarrow> bridge_manager \<Rightarrow> (bridge_error + unit) \<times> bridge_manager" where
  "unlock_object L now t b =
     (case get_object (br_store b) (bt_source_object_id t) of
        None \<Rightarrow> (Inl (ObjectNotFound (bt_source_object_id t)), b)
      | Some obj \<Rightarrow>
          (let b1 = (case strip_prefix lock_prefix (obj_owner obj) of
                       Some original_owner \<Rightarrow> bridge_save_object L (obj\<lparr>obj_owner := original_owner\<rparr>) b
                     | None \<Rightarrow> b)
           in (Inr (), emit_event
                 \<lparr>ev_transfer_id = bt_id t, ev_event_type = ''OBJECT_UNLOCKED'', ev_chain = bt_source_chain t,
                  ev_height = 0, ev_timestamp = now,
                  ev_payload = JObject [(''object_id'', JString (bt_source_object_id t)),
                    (''reason'', JString ''transfer_failed_or_cancelled'')]\<rparr> b1)))"

definition minted_object :: "i64 \<Rightarrow> string \<Rightarrow> bridge_transfer \<Rightarrow> cross_chain_proof \<Rightarrow> smart_object" where
  "minted_object now transfer_id t pr =
     \<lparr>obj_object_id = ''bridge_'' @ transfer_id @ ''_'' @ dec_int now,
      obj_code_hash = or_default ''bridge_native'' (json_get_str (ccp_object_data pr) ''code_hash''),
      obj_seal = ''bridge_'' @ transfer_id @ '':0'', obj_satoshis = bt_amount t, obj_owner = bt_dest_owner t,
      obj_state_data = ccp_object_data pr, obj_created_at_block = 0, obj_updated_at_block = 0\<rparr>"

definition final_status :: "bridge_status \<Rightarrow> bool" where
  "final_status st \<longleftrightarrow> st = Completed \<or> st = Minted"

text \<open>The replay guard of mint_from_proof: the write-once entry in the store, then the cache.\<close>

definition replay_guard :: "string \<Rightarrow> string \<Rightarrow> bridge_manager \<Rightarrow> (bridge_error + unit) \<times> bridge_manager" where
  "replay_guard transfer_id object_id b =
     (let (newly_inserted, s) = check_and_insert_minted_proof object_id transfer_id (br_store b);
          b1 = b\<lparr>br_store := s\<rparr>;
          b2 = b1\<lparr>br_minted_objects := tbl_insert object_id transfer_id (br_minted_objects b1)\<rparr>
      in if newly_inserted then (Inr (), b2)
         else case get_minted_proof s object_id of
           None \<Rightarrow> (Inr (), b2)
         | Some existing_transfer \<Rightarrow>
             if existing_transfer \<noteq> transfer_id
             then (Inl (ReplayRejected object_id existing_transfer transfer_id), b1)
             else (case tbl_get (br_transfers b1) transfer_id of
                     None \<Rightarrow> (Inr (), b2)
                   | Some t \<Rightarrow> if final_status (bt_status t)
                               then (Inl (AlreadyMinted transfer_id (bt_status t)), b1) else (Inr (), b2)))"

text \<open>The part after the verification succeeded.\<close>

definition mint_verified :: "libs \<Rightarrow> i64 \<Rightarrow> string \<Rightarrow> cross_chain_proof \<Rightarrow> verification_result \<Rightarrow> bridge_transfer
    \<Rightarrow> bridge_manager \<Rightarrow> (bridge_error + bridge_transfer) \<times> bridge_manager" where
  "mint_verified L now transfer_id pr v t b =
     (if ccp_object_id pr \<noteq> bt_source_object_id t
      then (Inl (ObjectMismatch (ccp_object_id pr) (bt_source_object_id t)), b)
      else if ccp_source_chain pr \<noteq> bt_source_chain t
      then (Inl (ChainMismatch (ccp_source_chain pr) (bt_source_chain t)), b)
      else
        (let t1 = t\<lparr>bt_status := Verified\<rparr>;
             b1 = emit_event
               \<lparr>ev_transfer_id = transfer_id, ev_event_type = ''PROOF_VERIFIED'', ev_chain = bt_dest_chain t,
                ev_height = ccp_source_height pr, ev_timestamp = now,
                ev_payload = JObject [(''merkle_verified'', JBool (vr_merkle_verified v)),
                  (''quorum_reached'', JBool (vr_quorum_reached v)),
                  (''source_chain'', JString (ccp_source_chain pr)),
                  (''source_height'', JNumber (PosInt (ccp_source_height pr)))]\<rparr> (update_transfer t1 b);
             obj = minted_object now transfer_id t1 pr;
             t2 = t1\<lparr>bt_status := Minted, bt_completed_at := Some now\<rparr>;
             b2 = update_transfer t2 (bridge_save_object L obj b1)
         in (Inr t2, emit_event
               \<lparr>ev_transfer_id = transfer_id, ev_event_type = ''ASSETS_MINTED'', ev_chain = bt_dest_chain t,
                ev_height = 0, ev_timestamp = now,
                ev_payload = JObject [(''amount'', JNumber (PosInt (bt_amount t))),
                  (''new_object_id'', JString (obj_object_id obj)), (''owner'', JString (bt_dest_owner t))]\<rparr> b2)))"

definition mint_from_proof :: "libs \<Rightarrow> consensus \<Rightarrow> i64 \<Rightarrow> string \<Rightarrow> cross_chain_proof \<Rightarrow> bridge_manager
    \<Rightarrow> (bridge_error + bridge_transfer) \<times> bridge_manager" where
  "mint_from_proof L cm now transfer_id pr b =
     (case replay_guard transfer_id (ccp_object_id pr) b of
        (Inl e, b1) \<Rightarrow> (Inl e, b1)
      | (Inr _, b1) \<Rightarrow>
          (case tbl_get (br_transfers b1) transfer_id of
             None \<Rightarrow> (Inl (TransferNotFound transfer_id), b1)
           | Some t \<Rightarrow>
               if final_status (bt_status t) then (Inl (AlreadyMinted transfer_id (bt_status t)), b1)
               else
                 (let v = cross_verify_proof L cm pr in
                  if \<not> vr_valid v then
                    (let t1 = t\<lparr>bt_status := Failed\<rparr>
                     in (Inl (ProofRejected (vr_error v)), snd (unlock_object L now t1 (update_transfer t1 b1))))
                  else mint_verified L now transfer_id pr v t b1)))"

definition get_transfer :: "bridge_manager \<Rightarrow> string \<Rightarrow> bridge_transfer option" where
  "get_transfer b transfer_id =
     (case tbl_get (br_transfers b) transfer_id of
        Some t \<Rightarrow> Some t
      | None \<Rightarrow> get_bridge_transfer (br_store b) transfer_id)"

definition get_all_transfers :: "bridge_manager \<Rightarrow> bridge_transfer list" where
  "get_all_transfers b = map snd (br_transfers b)"

definition get_events :: "bridge_manager \<Rightarrow> string \<Rightarrow> bridge_event list" where
  "get_events b transfer_id = filter (\<lambda>e. ev_transfer_id e = transfer_id) (br_events b)"

definition cancel_transfer :: "libs \<Rightarrow> i64 \<Rightarrow> string \<Rightarrow> string \<Rightarrow> string \<Rightarrow> bridge_manager
    \<Rightarrow> (bridge_error + bridge_transfer) \<times> bridge_manager" where
  "cancel_transfer L now transfer_id caller signature_hex b =
     (case tbl_get (br_transfers b) transfer_id of
        None \<Rightarrow> (Inl (TransferNotFound transfer_id), b)
      | Some t \<Rightarrow>
          if bt_status t \<noteq> Pending \<and> bt_status t \<noteq> Locked then (Inl (NotCancellable transfer_id (bt_status t)), b)
          else if now - bt_created_at t < RECLAIM_TIMEOUT_SECS
          then (Inl (TimeoutNotReached (now - bt_created_at t)), b)
          else (case get_object (br_store b) (bt_source_object_id t) of
                  None \<Rightarrow> (Inl (ObjectNotFound (bt_source_object_id t)), b)
                | Some source_obj \<Rightarrow>
                    (let original_owner = or_default (obj_owner source_obj)
                           (strip_prefix lock_prefix (obj_owner source_obj)) in
                     if caller \<noteq> original_owner then (Inl (NotOriginalOwner caller original_owner), b)
                     else case check_signature L (sha256 L (as_bytes ''cancel:'' @ as_bytes transfer_id))
                            original_owner signature_hex of
                       Inl e \<Rightarrow> (Inl e, b)
                     | Inr _ \<Rightarrow>
                         (case unlock_object L now t b of
                            (Inl e, b1) \<Rightarrow> (Inl e, b1)
                          | (Inr _, b1) \<Rightarrow>
                              (let t1 = t\<lparr>bt_status := Failed, bt_completed_at := Some now\<rparr>
                               in (Inr t1, emit_event
                                     \<lparr>ev_transfer_id = transfer_id, ev_event_type = ''TRANSFER_CANCELLED'',
                                      ev_chain = bt_source_chain t, ev_height = 0, ev_timestamp = now,
                                      ev_payload = JObject [(''caller'', JString caller),
                                        (''reason'', JString ''timeout_reclaim''),
                                        (''source_object_id'', JString (bt_source_object_id t))]\<rparr>
                                     (update_transfer t1 b1)))))))"

section \<open>The caches follow the store\<close>

text \<open>
  The in-memory maps hold what the store holds, and transfers sit under their own ids. It is
  what lets a restarted node, which rebuilds the maps from the store, go on where it stopped.
\<close>

definition coherent :: "bridge_manager \<Rightarrow> bool" where
  "coherent b \<longleftrightarrow> br_transfers b = st_bridge_transfers (br_store b)
     \<and> br_minted_objects b = st_minted_proofs (br_store b)
     \<and> tbl_ok (st_bridge_transfers (br_store b)) \<and> tbl_ok (st_minted_proofs (br_store b))
     \<and> (\<forall>tid t. tbl_get (st_bridge_transfers (br_store b)) tid = Some t \<longrightarrow> bt_id t = tid)"

lemma save_object_bridge [simp]:
  "st_bridge_transfers (save_object L ob s) = st_bridge_transfers s"
  "st_minted_proofs (save_object L ob s) = st_minted_proofs s"
  by (simp_all add: save_object_def Let_def)

lemma save_transfer_tables [simp]:
  "st_minted_proofs (save_bridge_transfer t s) = st_minted_proofs s"
  "st_objects (save_bridge_transfer t s) = st_objects s"
  "st_bridge_transfers (save_bridge_transfer t s) = tbl_insert (bt_id t) t (st_bridge_transfers s)"
  "get_object (save_bridge_transfer t s) = get_object s"
  by (simp_all add: save_bridge_transfer_def get_object_def fun_eq_iff)

lemma bridge_parts [simp]:
  "br_transfers (emit_event e b) = br_transfers b" "br_store (emit_event e b) = br_store b"
  "br_minted_objects (emit_event e b) = br_minted_objects b"
  "br_transfers (update_transfer t b) = tbl_insert (bt_id t) t (br_transfers b)"
  "br_store (update_transfer t b) = save_bridge_transfer t (br_store b)"
  "br_minted_objects (update_transfer t b) = br_minted_objects b"
  "br_transfers (bridge_save_object L ob b) = br_transfers b"
  "br_store (bridge_save_object L ob b) = save_object L ob (br_store b)"
  "br_minted_objects (bridge_save_object L ob b) = br_minted_objects b"
  by (simp_all add: emit_event_def update_transfer_def bridge_save_object_def)

lemma coherent_emit [intro!]: "coherent b \<Longrightarrow> coherent (emit_event e b)"
  by (simp add: coherent_def)

lemma coherent_save [intro!]: "coherent b \<Longrightarrow> coherent (bridge_save_object L ob b)"
  by (simp add: coherent_def)

lemma coherent_update [intro!]: "coherent b \<Longrightarrow> coherent (update_transfer t b)"
  by (auto simp: coherent_def)

lemma coherent_unlock: "coherent b \<Longrightarrow> coherent (snd (unlock_object L now t b))"
  by (auto simp: unlock_object_def Let_def split: option.split)

lemma rebuild_table: "tbl_ok t \<Longrightarrow> fold (\<lambda>(k, v) m. tbl_insert k v m) t [] = t"
proof -
  assume ok: "tbl_ok t"
  have fold_ok: "tbl_ok (fold (\<lambda>(k, v) m. tbl_insert k v m) es m)" if "tbl_ok m" for es m
    using that by (induction es arbitrary: m) auto
  have "tbl_get (fold (\<lambda>(k, v) m. tbl_insert k v m) t []) = tbl_get t"
  proof
    fix k
    have "tbl_get (fold (\<lambda>(k, v) m. tbl_insert k v m) t []) k
        = (case map_of (rev t) k of Some v \<Rightarrow> Some v | None \<Rightarrow> tbl_get [] k)"
      by (rule tbl.fold_put)
    also have "\<dots> = tbl_get t k"
      using ok map_of_rev [of t] by (simp add: tbl_ok_def) (simp add: tbl_get_def split: option.split)
    finally show "tbl_get (fold (\<lambda>(k, v) m. tbl_insert k v m) t []) k = tbl_get t k" .
  qed
  moreover have "tbl_ok (fold (\<lambda>(k, v) m. tbl_insert k v m) t [])" by (rule fold_ok) simp
  ultimately show ?thesis using ok by (intro tbl_ext)
qed

lemma bridge_new_coherent:
  assumes "tbl_ok (st_bridge_transfers s)" "tbl_ok (st_minted_proofs s)"
    and ids: "\<forall>tid t. tbl_get (st_bridge_transfers s) tid = Some t \<longrightarrow> bt_id t = tid"
  shows "coherent (bridge_new s)" "br_transfers (bridge_new s) = st_bridge_transfers s"
    "br_minted_objects (bridge_new s) = st_minted_proofs s"
proof -
  let ?T = "st_bridge_transfers s"
  have "(bt_id (snd p), snd p) = p" if "p \<in> set ?T" for p
    using that ids tbl_ok_get [OF assms(1), of "fst p" "snd p"] by (cases p) auto
  then have pairs: "map (\<lambda>p. (bt_id (snd p), snd p)) ?T = ?T" by (intro map_idI) auto
  have "fold (\<lambda>t m. tbl_insert (bt_id t) t m) (map snd ?T) []
      = fold (\<lambda>(k, v) m. tbl_insert k v m) (map (\<lambda>p. (bt_id (snd p), snd p)) ?T) []"
    by (simp add: fold_map comp_def)
  then have "fold (\<lambda>t m. tbl_insert (bt_id t) t m) (map snd ?T) [] = fold (\<lambda>(k, v) m. tbl_insert k v m) ?T []"
    by (simp only: pairs)
  then show t: "br_transfers (bridge_new s) = st_bridge_transfers s"
    using assms(1) by (simp add: bridge_new_def get_all_bridge_transfers_def rebuild_table)
  show m: "br_minted_objects (bridge_new s) = st_minted_proofs s"
    using assms(2) by (simp add: bridge_new_def get_all_minted_proofs_def rebuild_table)
  have "br_store (bridge_new s) = s" by (simp add: bridge_new_def)
  with t m assms show "coherent (bridge_new s)" by (simp add: coherent_def)
qed

lemma coherent_restart:
  assumes "coherent b"
  shows "coherent (bridge_new (br_store b))" "br_transfers (bridge_new (br_store b)) = br_transfers b"
    "br_minted_objects (bridge_new (br_store b)) = br_minted_objects b" "br_store (bridge_new (br_store b)) = br_store b"
proof -
  have s: "tbl_ok (st_bridge_transfers (br_store b))" "tbl_ok (st_minted_proofs (br_store b))"
    "\<forall>tid t. tbl_get (st_bridge_transfers (br_store b)) tid = Some t \<longrightarrow> bt_id t = tid"
    and c: "br_transfers b = st_bridge_transfers (br_store b)" "br_minted_objects b = st_minted_proofs (br_store b)"
    using assms by (simp_all add: coherent_def)
  show "coherent (bridge_new (br_store b))" by (rule bridge_new_coherent(1) [OF s])
  show "br_transfers (bridge_new (br_store b)) = br_transfers b" unfolding c(1) by (rule bridge_new_coherent(2) [OF s])
  show "br_minted_objects (bridge_new (br_store b)) = br_minted_objects b"
    unfolding c(2) by (rule bridge_new_coherent(3) [OF s])
  show "br_store (bridge_new (br_store b)) = br_store b" by (simp add: bridge_new_def)
qed

section \<open>Histories\<close>

text \<open>
  What happens to a bridge between two looks at it: its three operations, the objects that the
  block processor writes to the shared store (WriteOp), and restarts of the node.
\<close>

datatype bridge_op =
    LockOp i64 string string string string string string
  | MintOp consensus i64 string cross_chain_proof
  | CancelOp i64 string string string
  | WriteOp smart_object
  | Restart

fun bridge_step :: "libs \<Rightarrow> bridge_op \<Rightarrow> bridge_manager \<Rightarrow> (bridge_error + bridge_transfer) option \<times> bridge_manager" where
  "bridge_step L (LockOp now source_chain object_id dest_chain dest_owner caller sig) b =
     map_prod Some (\<lambda>x. x) (lock_assets L now source_chain object_id dest_chain dest_owner caller sig b)"
| "bridge_step L (MintOp cm now transfer_id pr) b = map_prod Some (\<lambda>x. x) (mint_from_proof L cm now transfer_id pr b)"
| "bridge_step L (CancelOp now transfer_id caller sig) b =
     map_prod Some (\<lambda>x. x) (cancel_transfer L now transfer_id caller sig b)"
| "bridge_step L (WriteOp obj) b = (None, bridge_save_object L obj b)"
| "bridge_step L Restart b = (None, bridge_new (br_store b))"

lemma replay_guard_eq:
  "replay_guard tid oid b =
     (case tbl_get (st_minted_proofs (br_store b)) oid of
        None \<Rightarrow> (Inr (), b\<lparr>br_store := (br_store b)\<lparr>st_minted_proofs := tbl_insert oid tid (st_minted_proofs (br_store b))\<rparr>,
                        br_minted_objects := tbl_insert oid tid (br_minted_objects b)\<rparr>)
      | Some e \<Rightarrow>
          if e \<noteq> tid then (Inl (ReplayRejected oid e tid), b)
          else (case tbl_get (br_transfers b) tid of
                  None \<Rightarrow> (Inr (), b\<lparr>br_minted_objects := tbl_insert oid tid (br_minted_objects b)\<rparr>)
                | Some t \<Rightarrow>
                    if final_status (bt_status t) then (Inl (AlreadyMinted tid (bt_status t)), b)
                    else (Inr (), b\<lparr>br_minted_objects := tbl_insert oid tid (br_minted_objects b)\<rparr>)))"
  by (cases "tbl_get (st_minted_proofs (br_store b)) oid")
    (simp_all add: replay_guard_def check_and_insert_minted_proof_def get_minted_proof_def Let_def split: option.split)

lemma coherent_replay_guard: "coherent b \<Longrightarrow> coherent (snd (replay_guard tid oid b))"
  by (auto simp: replay_guard_eq coherent_def tbl_insert_same split: option.split)

lemma coherent_step: "coherent b \<Longrightarrow> coherent (snd (bridge_step L op b))"
proof (cases op)
  case (LockOp now sc oid dc own caller sig)
  assume "coherent b"
  then show ?thesis unfolding LockOp
    by (auto simp: lock_assets_def Let_def split: option.split sum.split)
next
  case (MintOp cm now tid pr)
  assume "coherent b"
  then have "coherent (snd (replay_guard tid (ccp_object_id pr) b))" by (rule coherent_replay_guard)
  then show ?thesis unfolding MintOp
    by (auto simp: mint_from_proof_def mint_verified_def Let_def coherent_unlock coherent_update
        split: option.split sum.split prod.splits)
next
  case (CancelOp now tid caller sig)
  assume b: "coherent b"
  have "coherent b1" if "unlock_object L now t b = (r, b1)" for t r b1
    using coherent_unlock [OF b, of L now t] that by simp
  with b show ?thesis unfolding CancelOp
    by (auto simp: cancel_transfer_def Let_def split: option.split sum.split prod.splits)
next
  case (WriteOp obj)
  assume "coherent b"
  then show ?thesis unfolding WriteOp by auto
next
  case Restart
  assume "coherent b"
  then show ?thesis unfolding Restart by (simp add: coherent_restart(1))
qed

text \<open>The bridge writes objects, transfers and mint records to the store, and nothing else.\<close>

locale bridge_kept = object_kept L P
  for L :: libs and P :: "store \<Rightarrow> bool" +
  assumes kept_transfer: "P s \<Longrightarrow> P (save_bridge_transfer t s)"
    and kept_minted: "P s \<Longrightarrow> P (s\<lparr>st_minted_proofs := m\<rparr>)"
begin

lemma replay_guard_kept: "P (br_store b) \<Longrightarrow> P (br_store (snd (replay_guard tid oid b)))"
  by (auto simp: replay_guard_eq kept_minted split: option.split)

lemma unlock_kept: "P (br_store b) \<Longrightarrow> P (br_store (snd (unlock_object L now t b)))"
  by (auto simp: unlock_object_def Let_def kept_object split: option.split)

lemma mint_kept:
  assumes "P (br_store b)"
  shows "P (br_store (snd (mint_from_proof L cm now tid pr b)))"
proof -
  have "P (br_store b1)" if "replay_guard tid (ccp_object_id pr) b = (r, b1)" for r b1
    using replay_guard_kept [OF assms, of tid "ccp_object_id pr"] that by simp
  then show ?thesis
    by (auto simp: mint_from_proof_def mint_verified_def Let_def kept_object kept_transfer intro!: unlock_kept
        split: option.split sum.split prod.split)
qed

lemma cancel_kept:
  assumes "P (br_store b)"
  shows "P (br_store (snd (cancel_transfer L now tid caller sig b)))"
proof -
  have "P (br_store b1)" if "unlock_object L now t b = (r, b1)" for t r b1
    using unlock_kept [OF assms, of now t] that by simp
  then show ?thesis using assms
    by (auto simp: cancel_transfer_def Let_def kept_transfer split: option.split sum.split prod.split)
qed

lemma bridge_step_kept: "P (br_store b) \<Longrightarrow> P (br_store (snd (bridge_step L op b)))"
proof (cases op)
  case (LockOp now sc oid dc own caller sig)
  then show "P (br_store b) \<Longrightarrow> ?thesis"
    by (auto simp: lock_assets_def Let_def kept_object kept_transfer split: option.split sum.split)
qed (simp_all add: mint_kept cancel_kept kept_object bridge_new_def)

end

interpretation bridge_blocks: bridge_kept L "\<lambda>s. (st_blocks s, st_chain_meta s) = v" for L v
  by unfold_locales (simp_all add: save_bridge_transfer_def)

fun bridge_run :: "libs \<Rightarrow> bridge_op list \<Rightarrow> bridge_manager \<Rightarrow> bridge_manager" where
  "bridge_run L [] b = b"
| "bridge_run L (x # xs) b = bridge_run L xs (snd (bridge_step L x b))"

lemma coherent_run: "coherent b \<Longrightarrow> coherent (bridge_run L ops b)"
  by (induction ops arbitrary: b) (auto intro: coherent_step)

text \<open>
  A restart loses nothing but the event log: after any history of locks, mints, cancellations,
  object writes of the block processor and restarts, the manager that bridge_new builds from the store has exactly
  the transfers and the replay guard of the running one.
\<close>

theorem bridge_restart:
  "br_transfers (bridge_new (br_store (bridge_run L ops (bridge_new (empty_store L)))))
     = br_transfers (bridge_run L ops (bridge_new (empty_store L)))
   \<and> br_minted_objects (bridge_new (br_store (bridge_run L ops (bridge_new (empty_store L)))))
     = br_minted_objects (bridge_run L ops (bridge_new (empty_store L)))"
proof -
  have "coherent (bridge_new (empty_store L))"
    by (rule bridge_new_coherent(1)) (simp_all add: empty_store_def)
  then have "coherent (bridge_run L ops (bridge_new (empty_store L)))" by (rule coherent_run)
  then show ?thesis by (simp add: coherent_restart)
qed

section \<open>No object is minted twice\<close>

text \<open>
  An object is used up when its entry in the replay guard names a transfer of that object in a
  final status.
\<close>

definition used_up :: "bridge_manager \<Rightarrow> string \<Rightarrow> bool" where
  "used_up b oid \<longleftrightarrow> (\<exists>tid t. tbl_get (st_minted_proofs (br_store b)) oid = Some tid
     \<and> tbl_get (br_transfers b) tid = Some t \<and> bt_source_object_id t = oid \<and> final_status (bt_status t))"

text \<open>What a successful mint went through.\<close>

lemma mint_success:
  assumes "mint_from_proof L cm now tid pr b = (Inr t2, b2)"
  obtains b1 t where "replay_guard tid (ccp_object_id pr) b = (Inr (), b1)"
    "tbl_get (br_transfers b1) tid = Some t" "\<not> final_status (bt_status t)"
    "vr_valid (cross_verify_proof L cm pr)"
    "ccp_object_id pr = bt_source_object_id t" "ccp_source_chain pr = bt_source_chain t"
    "mint_verified L now tid pr (cross_verify_proof L cm pr) t b1 = (Inr t2, b2)"
    "t2 = t\<lparr>bt_status := Minted, bt_completed_at := Some now\<rparr>"
proof -
  from assms obtain b1 t where "replay_guard tid (ccp_object_id pr) b = (Inr (), b1)"
    "tbl_get (br_transfers b1) tid = Some t" "\<not> final_status (bt_status t)"
    "vr_valid (cross_verify_proof L cm pr)"
    and m: "mint_verified L now tid pr (cross_verify_proof L cm pr) t b1 = (Inr t2, b2)"
    by (auto simp: mint_from_proof_def Let_def split: prod.splits sum.splits option.splits if_splits)
  moreover from m have "ccp_object_id pr = bt_source_object_id t" "ccp_source_chain pr = bt_source_chain t"
    "t2 = t\<lparr>bt_status := Minted, bt_completed_at := Some now\<rparr>"
    by (auto simp: mint_verified_def Let_def split: if_splits)
  ultimately show thesis using that m by blast
qed

lemma guard_minted:
  assumes "replay_guard tid oid b = (Inr (), b1)"
  shows "tbl_get (st_minted_proofs (br_store b1)) oid = Some tid" "br_transfers b1 = br_transfers b"
    "\<And>x y. tbl_get (st_minted_proofs (br_store b)) x = Some y \<Longrightarrow> tbl_get (st_minted_proofs (br_store b1)) x = Some y"
    "\<not> used_up b oid"
    "st_objects (br_store b1) = st_objects (br_store b)"
  using assms by (auto simp: replay_guard_eq used_up_def split: option.splits if_splits)

lemma mint_uses_up:
  assumes c: "coherent b" and m: "mint_from_proof L cm now tid pr b = (Inr t2, b2)"
  shows "\<not> used_up b (ccp_object_id pr)" "used_up b2 (ccp_object_id pr)"
proof -
  from m obtain b1 t where g: "replay_guard tid (ccp_object_id pr) b = (Inr (), b1)"
    and t: "tbl_get (br_transfers b1) tid = Some t" and src: "ccp_object_id pr = bt_source_object_id t"
    and mv: "mint_verified L now tid pr (cross_verify_proof L cm pr) t b1 = (Inr t2, b2)"
    by (rule mint_success) 
  note gm = guard_minted [OF g]
  show "\<not> used_up b (ccp_object_id pr)" by (rule gm(4))
  have "coherent b1" using coherent_replay_guard [OF c, of tid "ccp_object_id pr"] g by simp
  then have id: "bt_id t = tid" using t by (auto simp: coherent_def)
  from mv have "tbl_get (st_minted_proofs (br_store b2)) = tbl_get (st_minted_proofs (br_store b1))"
    "\<exists>t'. tbl_get (br_transfers b2) tid = Some t' \<and> bt_source_object_id t' = bt_source_object_id t \<and> bt_status t' = Minted"
    using id by (auto simp: mint_verified_def Let_def split: if_splits)
  then show "used_up b2 (ccp_object_id pr)"
    using gm(1) src by (auto simp: used_up_def final_status_def)
qed

lemma unlock_parts [simp]:
  "br_transfers (snd (unlock_object L now t b)) = br_transfers b"
  "st_minted_proofs (br_store (snd (unlock_object L now t b))) = st_minted_proofs (br_store b)"
  by (auto simp: unlock_object_def Let_def split: option.split)

text \<open>
  Every operation keeps the replay guard's entries and the transfers in a final status, with one
  exception: the id of a transfer ends in the second of its lock, and a lock does not look whether
  its id is in use, so a second lock of the same second can replace a finished transfer by a
  Locked one. The operation then reopens the object of the transfer it replaced.
\<close>

definition reopens :: "libs \<Rightarrow> bridge_op \<Rightarrow> bridge_manager \<Rightarrow> string list" where
  "reopens L x b =
     (case (x, fst (bridge_step L x b)) of
        (LockOp now source_chain object_id dest_chain _ _ _, Some (Inr _)) \<Rightarrow>
          (case tbl_get (br_transfers b) (transfer_id_of source_chain dest_chain object_id now) of
             Some t \<Rightarrow> if final_status (bt_status t) then [bt_source_object_id t] else []
           | None \<Rightarrow> [])
      | _ \<Rightarrow> [])"

definition progress :: "bridge_manager \<Rightarrow> bridge_manager \<Rightarrow> bool" where
  "progress b b' \<longleftrightarrow>
     (\<forall>oid tid. tbl_get (st_minted_proofs (br_store b)) oid = Some tid \<longrightarrow>
        tbl_get (st_minted_proofs (br_store b')) oid = Some tid)
   \<and> (\<forall>tid t. tbl_get (br_transfers b) tid = Some t \<and> final_status (bt_status t) \<longrightarrow>
        tbl_get (br_transfers b') tid = Some t)"

lemma progress_used_up: "progress b b' \<Longrightarrow> used_up b oid \<Longrightarrow> used_up b' oid"
  by (fastforce simp: progress_def used_up_def)

lemma mint_state:
  assumes "replay_guard tid (ccp_object_id pr) b = (r, b1)"
  obtains (stopped) "snd (mint_from_proof L cm now tid pr b) = b1"
  | (failed) t where "tbl_get (br_transfers b1) tid = Some t" "\<not> final_status (bt_status t)"
      "snd (mint_from_proof L cm now tid pr b)
         = snd (unlock_object L now (t\<lparr>bt_status := Failed\<rparr>) (update_transfer (t\<lparr>bt_status := Failed\<rparr>) b1))"
  | (verified) t v where "tbl_get (br_transfers b1) tid = Some t" "\<not> final_status (bt_status t)"
      "snd (mint_from_proof L cm now tid pr b) = snd (mint_verified L now tid pr v t b1)"
proof (cases "tbl_get (br_transfers b1) tid")
  case None
  then show thesis using assms by (intro stopped) (cases r, simp_all add: mint_from_proof_def)
next
  case (Some t)
  show thesis
  proof (cases "(\<exists>e. r = Inl e) \<or> final_status (bt_status t)")
    case True
    with Some show thesis using assms by (intro stopped) (cases r, auto simp: mint_from_proof_def)
  next
    case False
    then have r: "r = Inr ()" and nf: "\<not> final_status (bt_status t)" by (cases r; simp)+
    show thesis
    proof (cases "vr_valid (cross_verify_proof L cm pr)")
      case True
      with Some r nf show thesis using assms
        by (intro verified [of t "cross_verify_proof L cm pr"]) (simp_all add: mint_from_proof_def)
    next
      case False
      with Some r nf show thesis using assms
        by (intro failed [of t]) (simp_all add: mint_from_proof_def Let_def)
    qed
  qed
qed

lemma mint_verified_parts:
  "st_minted_proofs (br_store (snd (mint_verified L now tid pr v t b))) = st_minted_proofs (br_store b)"
  "x \<noteq> bt_id t \<Longrightarrow> tbl_get (br_transfers (snd (mint_verified L now tid pr v t b))) x = tbl_get (br_transfers b) x"
  by (simp_all add: mint_verified_def Let_def)

lemma progress_mint:
  assumes c: "coherent b"
  shows "progress b (snd (mint_from_proof L cm now tid pr b))"
proof (cases "replay_guard tid (ccp_object_id pr) b")
  case (Pair r b1)
  let ?b2 = "snd (mint_from_proof L cm now tid pr b)"
  have c1: "coherent b1" using coherent_replay_guard [OF c, of tid "ccp_object_id pr"] Pair by simp
  have minted: "tbl_get (st_minted_proofs (br_store b1)) x = Some y" if "tbl_get (st_minted_proofs (br_store b)) x = Some y" for x y
    using Pair that by (auto simp: replay_guard_eq split: option.splits if_splits)
  have tr: "br_transfers b1 = br_transfers b"
    using Pair by (auto simp: replay_guard_eq split: option.splits if_splits)
  have id: "bt_id t = tid" if "tbl_get (br_transfers b1) tid = Some t" for t
    using c1 that by (auto simp: coherent_def)
  have "st_minted_proofs (br_store ?b2) = st_minted_proofs (br_store b1)
    \<and> (\<forall>x t. tbl_get (br_transfers b1) x = Some t \<and> final_status (bt_status t) \<longrightarrow> tbl_get (br_transfers ?b2) x = Some t)"
    using Pair
  proof (cases rule: mint_state [where L = L and cm = cm and now = now])
    case stopped
    then show ?thesis by simp
  next
    case (failed t)
    then show ?thesis using id [OF failed(1)] by auto
  next
    case (verified t v)
    then show ?thesis using id [OF verified(1)] mint_verified_parts by (metis option.inject)
  qed
  with minted tr show ?thesis by (simp add: progress_def)
qed

lemma progress_cancel:
  assumes c: "coherent b"
  shows "progress b (snd (cancel_transfer L now tid caller sig b))"
proof -
  have id: "bt_id t = tid" if "tbl_get (br_transfers b) tid = Some t" for t
    using c that by (auto simp: coherent_def)
  have unl: "br_transfers b1 = br_transfers b \<and> st_minted_proofs (br_store b1) = st_minted_proofs (br_store b)"
    if "unlock_object L now t b = (r, b1)" for t r b1
    using unlock_parts [of L now t b] that by simp
  show ?thesis
    unfolding progress_def
    by (auto simp: cancel_transfer_def Let_def id final_status_def split: option.split sum.split prod.split dest!: unl)
qed

lemma progress_step:
  assumes "coherent b" "\<And>now sc oid dc own caller sig. x \<noteq> LockOp now sc oid dc own caller sig"
  shows "progress b (snd (bridge_step L x b))"
proof (cases x)
  case (LockOp now sc oid dc own caller sig)
  with assms(2) show ?thesis by blast
next
  case (MintOp cm now tid pr)
  then show ?thesis using progress_mint [OF assms(1)] by simp
next
  case (CancelOp now tid caller sig)
  then show ?thesis using progress_cancel [OF assms(1)] by simp
next
  case (WriteOp obj)
  then show ?thesis by (simp add: progress_def)
next
  case Restart
  then show ?thesis using assms(1) by (simp add: progress_def coherent_restart)
qed

lemma lock_step:
  "(\<exists>e. fst (lock_assets L now sc oid dc own caller sig b) = Inl e) \<and> snd (lock_assets L now sc oid dc own caller sig b) = b
   \<or> (\<exists>t. fst (lock_assets L now sc oid dc own caller sig b) = Inr t \<and> bt_id t = transfer_id_of sc dc oid now
        \<and> br_transfers (snd (lock_assets L now sc oid dc own caller sig b)) = tbl_insert (transfer_id_of sc dc oid now) t (br_transfers b)
        \<and> st_minted_proofs (br_store (snd (lock_assets L now sc oid dc own caller sig b))) = st_minted_proofs (br_store b))"
  by (auto simp: lock_assets_def Let_def split: option.split sum.split)

lemma used_up_step:
  assumes "coherent b" "used_up b oid"
  shows "used_up (snd (bridge_step L x b)) oid \<or> reopens L x b = [oid]"
proof (cases "\<exists>now sc i dc own caller sig. x = LockOp now sc i dc own caller sig")
  case True
  then obtain now sc i dc own caller sig where x: "x = LockOp now sc i dc own caller sig" by blast
  let ?tid = "transfer_id_of sc dc i now"
  obtain tid t where t: "tbl_get (st_minted_proofs (br_store b)) oid = Some tid" "tbl_get (br_transfers b) tid = Some t"
    "bt_source_object_id t = oid" "final_status (bt_status t)"
    using assms(2) by (auto simp: used_up_def)
  from lock_step [of L now sc i dc own caller sig b] show ?thesis
  proof (elim disjE exE conjE)
    assume "snd (lock_assets L now sc i dc own caller sig b) = b"
    then show ?thesis using assms(2) by (simp add: x)
  next
    fix t'
    assume r: "fst (lock_assets L now sc i dc own caller sig b) = Inr t'"
      and b': "br_transfers (snd (lock_assets L now sc i dc own caller sig b)) = tbl_insert ?tid t' (br_transfers b)"
        "st_minted_proofs (br_store (snd (lock_assets L now sc i dc own caller sig b))) = st_minted_proofs (br_store b)"
    show ?thesis
    proof (cases "tid = ?tid")
      case True
      then show ?thesis using t r by (simp add: x reopens_def)
    next
      case False
      then show ?thesis using t b' by (auto simp: x used_up_def)
    qed
  qed
next
  case False
  then show ?thesis using progress_used_up [OF progress_step] assms by blast
qed

text \<open>
  Along a history: the source objects of the successful mints, the objects reopened, and the ids
  of the successful locks.
\<close>

fun minted_ids :: "libs \<Rightarrow> bridge_op list \<Rightarrow> bridge_manager \<Rightarrow> string list" where
  "minted_ids L [] b = []"
| "minted_ids L (x # xs) b =
     (case (x, fst (bridge_step L x b)) of
        (MintOp cm now tid pr, Some (Inr t)) \<Rightarrow> [ccp_object_id pr]
      | _ \<Rightarrow> []) @ minted_ids L xs (snd (bridge_step L x b))"

fun reopened :: "libs \<Rightarrow> bridge_op list \<Rightarrow> bridge_manager \<Rightarrow> string list" where
  "reopened L [] b = []"
| "reopened L (x # xs) b = reopens L x b @ reopened L xs (snd (bridge_step L x b))"

fun lock_ids :: "libs \<Rightarrow> bridge_op list \<Rightarrow> bridge_manager \<Rightarrow> string list" where
  "lock_ids L [] b = []"
| "lock_ids L (x # xs) b =
     (case (x, fst (bridge_step L x b)) of
        (LockOp now source_chain object_id dest_chain own caller sig, Some (Inr t)) \<Rightarrow> [bt_id t]
      | _ \<Rightarrow> []) @ lock_ids L xs (snd (bridge_step L x b))"

lemma distinct_count_le_1: "(\<forall>x. count_list xs x \<le> Suc 0) \<Longrightarrow> distinct xs"
proof (induction xs)
  case (Cons y ys)
  then have "count_list ys y = 0" by (metis Suc_eq_plus1 Suc_le_mono count_list.simps(2) le_zero_eq)
  moreover have "\<forall>x. count_list ys x \<le> Suc 0" using Cons.prems by (auto split: if_splits) (metis le0)
  ultimately show ?case using Cons.IH by (simp add: count_list_0_iff)
qed simp

lemma minted_bound:
  "coherent b \<Longrightarrow> count_list (minted_ids L ops b) oid + of_bool (used_up b oid) \<le> Suc (count_list (reopened L ops b) oid)"
proof (induction ops arbitrary: b)
  case (Cons x xs)
  let ?b' = "snd (bridge_step L x b)"
  have c: "coherent ?b'" using Cons.prems by (rule coherent_step)
  note ih = Cons.IH [OF c]
  show ?case
  proof (cases "\<exists>cm now tid pr t. x = MintOp cm now tid pr \<and> fst (bridge_step L x b) = Some (Inr t)")
    case True
    then obtain cm now tid pr t where x: "x = MintOp cm now tid pr" and r: "fst (bridge_step L x b) = Some (Inr t)"
      by blast
    then have m: "mint_from_proof L cm now tid pr b = (Inr t, ?b')" by (auto simp: prod_eq_iff)
    have "minted_ids L (x # xs) b = ccp_object_id pr # minted_ids L xs ?b'" using x r by simp
    moreover have "used_up b oid \<Longrightarrow> used_up ?b' oid"
      using progress_used_up [OF progress_step [OF Cons.prems]] x by blast
    ultimately show ?thesis using ih mint_uses_up [OF Cons.prems m]
      by (cases "oid = ccp_object_id pr") (auto simp: of_bool_def split: if_splits)
  next
    case False
    then have "minted_ids L (x # xs) b = minted_ids L xs ?b'"
      by (auto split: bridge_op.split option.split sum.split)
    then show ?thesis using ih used_up_step [OF Cons.prems, of oid L x] by (auto simp: of_bool_def split: if_splits)
  qed
qed simp

lemma transfer_keys_step:
  assumes "coherent b" "tbl_get (br_transfers b) tid = None" "tbl_get (br_transfers (snd (bridge_step L x b))) tid = Some t"
  shows "tid \<in> set (lock_ids L [x] b)"
proof (cases x)
  case (LockOp now sc i dc own caller sig)
  from lock_step [of L now sc i dc own caller sig b] show ?thesis
    using assms(2,3) by (auto simp: LockOp split: if_splits)
next
  case (MintOp cm now i pr)
  obtain r b1 where g: "replay_guard i (ccp_object_id pr) b = (r, b1)" by (cases "replay_guard i (ccp_object_id pr) b")
  then have tr: "br_transfers b1 = br_transfers b" by (auto simp: replay_guard_eq split: option.splits if_splits)
  have id: "bt_id u = i" if "tbl_get (br_transfers b1) i = Some u" for u
    using assms(1) that by (auto simp: tr coherent_def)
  from g show ?thesis
  proof (cases rule: mint_state [where L = L and cm = cm and now = now])
    case stopped
    then show ?thesis using assms tr by (simp add: MintOp)
  next
    case (failed u)
    then show ?thesis using assms tr id [OF failed(1)] by (auto simp: MintOp split: if_splits)
  next
    case (verified u v)
    then show ?thesis using assms tr id [OF verified(1)] mint_verified_parts(2) [of tid u L now i pr v b1]
      by (cases "tid = i") (auto simp: MintOp)
  qed
next
  case (CancelOp now i caller sig)
  have id: "bt_id u = i" if "tbl_get (br_transfers b) i = Some u" for u
    using assms(1) that by (auto simp: coherent_def)
  have unl: "br_transfers b1 = br_transfers b" if "unlock_object L now u b = (r, b1)" for u r b1
    using unlock_parts(1) [of L now u b] that by simp
  have "tbl_get (br_transfers b) i = None \<Longrightarrow> snd (cancel_transfer L now i caller sig b) = b"
    by (simp add: cancel_transfer_def)
  then show ?thesis using assms(2,3) id unl
    by (cases "tid = i") (auto simp: CancelOp cancel_transfer_def Let_def split: option.splits sum.splits prod.splits if_splits)
next
  case (WriteOp obj)
  then show ?thesis using assms by simp
next
  case Restart
  then show ?thesis using assms by (simp add: coherent_restart)
qed

lemma distinct_locks_reopen_nothing:
  "coherent b \<Longrightarrow> distinct (lock_ids L ops b) \<Longrightarrow> \<forall>tid \<in> set (lock_ids L ops b). tbl_get (br_transfers b) tid = None
     \<Longrightarrow> reopened L ops b = []"
proof (induction ops arbitrary: b)
  case (Cons x xs)
  let ?b' = "snd (bridge_step L x b)"
  have ids: "lock_ids L (x # xs) b = lock_ids L [x] b @ lock_ids L xs ?b'" by simp
  have c: "coherent ?b'" using Cons.prems(1) by (rule coherent_step)
  have "tbl_get (br_transfers ?b') tid = None" if "tid \<in> set (lock_ids L xs ?b')" for tid
  proof (rule ccontr)
    assume "tbl_get (br_transfers ?b') tid \<noteq> None"
    then obtain t where "tbl_get (br_transfers ?b') tid = Some t" by auto
    moreover have "tbl_get (br_transfers b) tid = None" using Cons.prems(3) that unfolding ids by simp
    ultimately have "tid \<in> set (lock_ids L [x] b)" using transfer_keys_step Cons.prems(1) by blast
    with that Cons.prems(2) show False unfolding ids by auto
  qed
  then have "reopened L xs ?b' = []" using Cons.IH [OF c] Cons.prems(2) unfolding ids by auto
  moreover have "reopens L x b = []"
  proof (cases x)
    case (LockOp now sc i dc own caller sig)
    from lock_step [of L now sc i dc own caller sig b] show ?thesis
      using Cons.prems(3) by (auto simp: LockOp reopens_def split: option.splits sum.splits if_splits)
  qed (simp_all add: reopens_def)
  ultimately show ?case by simp
qed simp

text \<open>
  C5. How often a source object can be minted. In every history of locks, mints, cancellations,
  object writes of the block processor and restarts, whatever proofs and validator sets are
  presented, an object is minted at most once more than it was reopened, that is, than a lock
  replaced its finished transfer because it got the id of it. So if no two successful locks of
  the history have the same id, no object is minted twice.
\<close>

theorem no_double_mint:
  "(\<forall>oid. count_list (minted_ids L ops (bridge_new (empty_store L))) oid
       \<le> Suc (count_list (reopened L ops (bridge_new (empty_store L))) oid))
   \<and> (distinct (lock_ids L ops (bridge_new (empty_store L))) \<longrightarrow>
        distinct (minted_ids L ops (bridge_new (empty_store L))))"
proof -
  let ?b = "bridge_new (empty_store L)"
  have c: "coherent ?b" by (rule bridge_new_coherent(1)) (simp_all add: empty_store_def)
  have "br_transfers ?b = []" by (simp add: bridge_new_def empty_store_def get_all_bridge_transfers_def)
  then have "distinct (lock_ids L ops ?b) \<Longrightarrow> reopened L ops ?b = []"
    by (intro distinct_locks_reopen_nothing [OF c]) (simp_all add: tbl_get_def)
  moreover have bound: "count_list (minted_ids L ops ?b) oid \<le> Suc (count_list (reopened L ops ?b) oid)" for oid
    using minted_bound [OF c, of L ops oid] by simp
  ultimately show ?thesis using distinct_count_le_1 by fastforce
qed

definition demo_owner :: string where
  "demo_owner = hex_encode demo_libs (replicate 33 7)"

definition demo_asset :: smart_object where
  "demo_asset = (demo_object ''a1'' ''t:0'')\<lparr>obj_owner := demo_owner\<rparr>"

definition demo_signature :: "string \<Rightarrow> string" where
  "demo_signature msg = hex_encode demo_libs (sha256 demo_libs (as_bytes msg))"

definition demo_lock :: bridge_op where
  "demo_lock = LockOp 0 ''btc'' ''a1'' ''jkc'' ''bob'' demo_owner (demo_signature (lock_message ''btc'' ''a1'' ''jkc'' ''bob''))"

definition demo_tid :: string where
  "demo_tid = transfer_id_of ''btc'' ''jkc'' ''a1'' 0"

lemma demo_owner_facts:
  "hex_decode demo_libs demo_owner = Some (replicate 33 7)"
  "hex_decode demo_libs (demo_signature m) = Some (sha256 demo_libs (as_bytes m))"
  "pubkey_parse demo_libs (replicate 33 7)" "ecdsa_sig_parse demo_libs sg" "ecdsa_verify demo_libs sg sg p"
  using demo_libs_ok(2) unfolding hex_roundtrip_def demo_owner_def demo_signature_def
  by (simp_all only: simp_thms) (simp_all add: demo_libs_def)

lemma demo_owner_unlocked: "strip_prefix lock_prefix demo_owner = None"
proof -
  have "demo_owner = hex_encode demo_libs (7 # replicate 32 7)" by (simp add: demo_owner_def eval_nat_numeral)
  then have "\<exists>r. demo_owner = CHR ''0'' # r" by (simp add: demo_libs_def hex_digit_def) blast
  then obtain r where r: "demo_owner = CHR ''0'' # r" by blast
  show ?thesis unfolding r by (simp add: strip_prefix_def starts_with_def lock_prefix_def)
qed

lemma demo_check: "check_signature demo_libs (sha256 demo_libs (as_bytes m)) demo_owner (demo_signature m) = Inr ()"
  by (simp add: check_signature_def demo_owner_facts)

section \<open>Locks, cancellations and mints\<close>

lemma rejected_lock_changes_nothing:
  "lock_assets L now sc oid dc own caller sig b = (Inl e, b') \<Longrightarrow> b' = b"
  by (auto simp: lock_assets_def Let_def split: option.splits sum.splits if_splits)

lemma lock_success:
  assumes "lock_assets L now sc oid dc own caller sig b = (Inr t, b')"
  obtains obj where "get_object (br_store b) oid = Some obj" "obj_owner obj = caller"
    "strip_prefix lock_prefix caller = None"
    "check_signature L (sha256 L (as_bytes (lock_message sc oid dc own))) caller sig = Inr ()"
    "t = \<lparr>bt_id = transfer_id_of sc dc oid now, bt_source_chain = sc, bt_source_object_id = oid,
       bt_dest_chain = dc, bt_dest_owner = own, bt_amount = obj_satoshis obj, bt_status = Locked,
       bt_created_at = now, bt_completed_at = None\<rparr>"
    "br_store b' = save_bridge_transfer t (save_object L (obj\<lparr>obj_owner := lock_prefix @ caller\<rparr>) (br_store b))"
    "br_transfers b' = tbl_insert (bt_id t) t (br_transfers b)"
  using assms
  by (auto simp: lock_assets_def Let_def split: option.splits sum.splits if_splits)

lemma check_signature_Inr:
  "check_signature L d pk sg = Inr u \<longleftrightarrow>
     (\<exists>p s. hex_decode L pk = Some p \<and> hex_decode L sg = Some s \<and> pubkey_parse L p
        \<and> ecdsa_sig_parse L s \<and> ecdsa_verify L s d p)"
  by (auto simp: check_signature_def split: option.split)

lemma objects_after_save:
  "st_objects (save_object L ob s) = tbl_insert (obj_object_id ob) ob (st_objects s)"
  "get_object (save_object L ob s) x = (if x = obj_object_id ob then Some ob else get_object s x)"
  by (simp_all add: save_object_tables get_object_def)

lemma save_object_restores:
  assumes "tbl_ok (st_objects s)" "tbl_get (st_objects s) (obj_object_id ob) = Some ob" "obj_object_id ob' = obj_object_id ob"
  shows "st_objects (save_object L ob (save_bridge_transfer t (save_object L ob' s))) = st_objects s"
  using assms by (simp add: objects_after_save tbl_insert_twice tbl_insert_same)

lemma lock_parts:
  assumes "lock_assets L now sc oid dc own caller sig b = (Inr t, b')" "keyed (st_objects (br_store b))"
  obtains obj where "get_object (br_store b) oid = Some obj" "obj_owner obj = caller" "obj_object_id obj = oid"
    "bt_status t = Locked" "bt_created_at t = now" "bt_source_object_id t = oid" "bt_source_chain t = sc"
    "bt_id t = transfer_id_of sc dc oid now"
    "tbl_get (br_transfers b') = (tbl_get (br_transfers b))(bt_id t \<mapsto> t)"
    "get_object (br_store b') = (get_object (br_store b))(oid \<mapsto> obj\<lparr>obj_owner := lock_prefix @ caller\<rparr>)"
    "st_minted_proofs (br_store b') = st_minted_proofs (br_store b)"
    "st_objects (save_object L obj (br_store b')) = st_objects (br_store b)"
proof -
  from assms(1) obtain obj where o: "get_object (br_store b) oid = Some obj" "obj_owner obj = caller"
    and t: "t = \<lparr>bt_id = transfer_id_of sc dc oid now, bt_source_chain = sc, bt_source_object_id = oid,
       bt_dest_chain = dc, bt_dest_owner = own, bt_amount = obj_satoshis obj, bt_status = Locked,
       bt_created_at = now, bt_completed_at = None\<rparr>"
    and b': "br_store b' = save_bridge_transfer t (save_object L (obj\<lparr>obj_owner := lock_prefix @ caller\<rparr>) (br_store b))"
      "br_transfers b' = tbl_insert (bt_id t) t (br_transfers b)"
    by (rule lock_success)
  have id: "obj_object_id obj = oid" using assms(2) o by (auto simp: keyed_def get_object_def)
  show thesis
  proof (rule that [OF o id])
    show "get_object (br_store b') = (get_object (br_store b))(oid \<mapsto> obj\<lparr>obj_owner := lock_prefix @ caller\<rparr>)"
      using id by (simp add: b' objects_after_save fun_eq_iff)
    show "st_objects (save_object L obj (br_store b')) = st_objects (br_store b)"
      unfolding b'(1) using assms(2) o(1) id
      by (intro save_object_restores) (simp_all add: keyed_def get_object_def)
  qed (simp_all add: t b' fun_eq_iff)
qed

text \<open>
  C23. Only the owner locks. A successful lock names a stored object whose owner is the caller and
  carries the caller's ECDSA signature over exactly this lock; it books the object's value under a
  transfer that can be read back, rewrites the owner of this object and of no other, and until
  something unlocks the object every further lock of it, by whomever, is refused.
\<close>

theorem lock_authorised:
  assumes lock: "lock_assets L now sc oid dc own caller sig b = (Inr t, b')"
    and keyed: "keyed (st_objects (br_store b))"
  shows "(\<exists>obj p s. get_object (br_store b) oid = Some obj \<and> obj_owner obj = caller
      \<and> hex_decode L caller = Some p \<and> hex_decode L sig = Some s
      \<and> ecdsa_verify L s (sha256 L (as_bytes (lock_message sc oid dc own))) p
      \<and> bt_amount t = obj_satoshis obj \<and> bt_source_object_id t = oid \<and> bt_dest_owner t = own \<and> bt_status t = Locked
      \<and> get_transfer b' (bt_id t) = Some t
      \<and> get_object (br_store b') = (get_object (br_store b))(oid \<mapsto> obj\<lparr>obj_owner := lock_prefix @ caller\<rparr>))
    \<and> (\<forall>L' now' sc' dc' own' caller' sig'.
         lock_assets L' now' sc' oid dc' own' caller' sig' b' = (Inl (AlreadyLocked oid caller), b'))"
proof -
  from lock keyed obtain obj where o: "get_object (br_store b) oid = Some obj" "obj_owner obj = caller"
    and tr: "tbl_get (br_transfers b') = (tbl_get (br_transfers b))(bt_id t \<mapsto> t)"
    and g: "get_object (br_store b') = (get_object (br_store b))(oid \<mapsto> obj\<lparr>obj_owner := lock_prefix @ caller\<rparr>)"
    by (rule lock_parts)
  from lock obtain obj' where "get_object (br_store b) oid = Some obj'"
    and sig: "check_signature L (sha256 L (as_bytes (lock_message sc oid dc own))) caller sig = Inr ()"
    and t: "t = \<lparr>bt_id = transfer_id_of sc dc oid now, bt_source_chain = sc, bt_source_object_id = oid,
       bt_dest_chain = dc, bt_dest_owner = own, bt_amount = obj_satoshis obj', bt_status = Locked,
       bt_created_at = now, bt_completed_at = None\<rparr>"
    by (rule lock_success)
  then have tf: "bt_amount t = obj_satoshis obj" "bt_source_object_id t = oid" "bt_dest_owner t = own" "bt_status t = Locked"
    using o by (auto simp: t)
  from sig obtain p s where "hex_decode L caller = Some p" "hex_decode L sig = Some s"
    "ecdsa_verify L s (sha256 L (as_bytes (lock_message sc oid dc own))) p"
    by (auto simp: check_signature_Inr)
  moreover have "get_transfer b' (bt_id t) = Some t" by (simp add: get_transfer_def tr)
  ultimately show ?thesis using o tf g by (auto simp: lock_assets_def)
qed

text \<open>
  C24. A lock can be undone by its owner and by nobody else. Before RECLAIM_TIMEOUT_SECS have passed
  every cancellation is refused; a caller other than the locker is refused at any time; afterwards
  the locker's signed cancellation succeeds, marks the transfer failed and leaves the table of
  objects exactly as it was before the lock.
\<close>

theorem lock_then_cancel:
  assumes lock: "lock_assets L now sc oid dc own caller sig b = (Inr t, b1)"
    and keyed: "keyed (st_objects (br_store b))"
  shows "(later - now < 3600 \<longrightarrow>
      cancel_transfer L later (bt_id t) who csig b1 = (Inl (TimeoutNotReached (later - now)), b1))
    \<and> (who \<noteq> caller \<longrightarrow> (\<exists>e. cancel_transfer L later (bt_id t) who csig b1 = (Inl e, b1)))
    \<and> (3600 \<le> later - now \<and> check_signature L (sha256 L (as_bytes (''cancel:'' @ bt_id t))) caller csig = Inr () \<longrightarrow>
      (\<exists>b2. cancel_transfer L later (bt_id t) caller csig b1
          = (Inr (t\<lparr>bt_status := Failed, bt_completed_at := Some later\<rparr>), b2)
        \<and> st_objects (br_store b2) = st_objects (br_store b)
        \<and> get_transfer b2 (bt_id t) = Some (t\<lparr>bt_status := Failed, bt_completed_at := Some later\<rparr>)))"
proof -
  from assms obtain obj where o: "get_object (br_store b) oid = Some obj" "obj_owner obj = caller" "obj_object_id obj = oid"
    and tf: "bt_status t = Locked" "bt_created_at t = now" "bt_source_object_id t = oid" "bt_source_chain t = sc"
      "bt_id t = transfer_id_of sc dc oid now"
    and tr: "tbl_get (br_transfers b1) = (tbl_get (br_transfers b))(bt_id t \<mapsto> t)"
    and g: "get_object (br_store b1) = (get_object (br_store b))(oid \<mapsto> obj\<lparr>obj_owner := lock_prefix @ caller\<rparr>)"
    and m: "st_minted_proofs (br_store b1) = st_minted_proofs (br_store b)"
    and objs: "st_objects (save_object L obj (br_store b1)) = st_objects (br_store b)"
    by (rule lock_parts)
  have early: "cancel_transfer L later (bt_id t) who csig b1 = (Inl (TimeoutNotReached (later - now)), b1)"
    if "later - now < 3600"
    using that by (simp add: cancel_transfer_def tr tf RECLAIM_TIMEOUT_SECS_def)
  have other: "\<exists>e. cancel_transfer L later (bt_id t) who csig b1 = (Inl e, b1)" if "who \<noteq> caller"
    using that by (simp add: cancel_transfer_def tr tf g or_default_def)
  have restored: "obj\<lparr>obj_owner := lock_prefix @ caller, obj_owner := caller\<rparr> = obj"
    using o(2) by simp
  have "\<exists>b2. cancel_transfer L later (bt_id t) caller csig b1
          = (Inr (t\<lparr>bt_status := Failed, bt_completed_at := Some later\<rparr>), b2)
        \<and> st_objects (br_store b2) = st_objects (br_store b)
        \<and> get_transfer b2 (bt_id t) = Some (t\<lparr>bt_status := Failed, bt_completed_at := Some later\<rparr>)"
    if "3600 \<le> later - now" "check_signature L (sha256 L (as_bytes (''cancel:'' @ bt_id t))) caller csig = Inr ()"
    using that restored objs
    by (simp add: cancel_transfer_def tr tf g or_default_def RECLAIM_TIMEOUT_SECS_def unlock_object_def
        get_transfer_def as_bytes_def Let_def)
  with early other show ?thesis by blast
qed

text \<open>
  C22. What a successful mint rests on and does: the transfer was known and not final, the proof was
  accepted and names the transfer's object and chain; the transfer is now minted, the replay guard
  holds the source object, and the one object written has the locked amount and the transfer's
  destination owner.
\<close>

theorem mint_authorised:
  assumes c: "coherent b" and m: "mint_from_proof L cm now tid pr b = (Inr t2, b2)"
  shows "\<exists>t ob. get_transfer b tid = Some t \<and> \<not> final_status (bt_status t)
      \<and> vr_valid (cross_verify_proof L cm pr)
      \<and> ccp_object_id pr = bt_source_object_id t \<and> ccp_source_chain pr = bt_source_chain t
      \<and> t2 = t\<lparr>bt_status := Minted, bt_completed_at := Some now\<rparr> \<and> get_transfer b2 tid = Some t2
      \<and> get_minted_proof (br_store b2) (ccp_object_id pr) = Some tid
      \<and> obj_satoshis ob = bt_amount t \<and> obj_owner ob = bt_dest_owner t \<and> obj_state_data ob = ccp_object_data pr
      \<and> get_object (br_store b2) = (get_object (br_store b))(obj_object_id ob \<mapsto> ob)"
proof -
  from m obtain b1 t where g: "replay_guard tid (ccp_object_id pr) b = (Inr (), b1)"
    and t: "tbl_get (br_transfers b1) tid = Some t" "\<not> final_status (bt_status t)"
    and p: "vr_valid (cross_verify_proof L cm pr)" "ccp_object_id pr = bt_source_object_id t"
      "ccp_source_chain pr = bt_source_chain t"
    and mv: "mint_verified L now tid pr (cross_verify_proof L cm pr) t b1 = (Inr t2, b2)"
    and t2: "t2 = t\<lparr>bt_status := Minted, bt_completed_at := Some now\<rparr>"
    by (rule mint_success)
  note gm = guard_minted [OF g]
  have id: "bt_id t = tid" using c t(1) gm(2) by (auto simp: coherent_def)
  let ?ob = "minted_object now tid (t\<lparr>bt_status := Verified\<rparr>) pr"
  have obs: "get_object (br_store b1) = get_object (br_store b)" by (simp add: get_object_def fun_eq_iff gm(5))
  have "br_transfers b2 = tbl_insert tid t2 (br_transfers b1)"
    "st_minted_proofs (br_store b2) = st_minted_proofs (br_store b1)"
    "get_object (br_store b2) = (get_object (br_store b))(obj_object_id ?ob \<mapsto> ?ob)"
    using mv id p t2 obs by (auto simp: mint_verified_def Let_def tbl_insert_twice objects_after_save fun_eq_iff)
  moreover have "obj_satoshis ?ob = bt_amount t" "obj_owner ?ob = bt_dest_owner t" "obj_state_data ?ob = ccp_object_data pr"
    by (simp_all add: minted_object_def)
  ultimately show ?thesis using t p t2 gm(1,2) by (auto simp: get_transfer_def get_minted_proof_def)
qed

text \<open>
  What the guards do not exclude. A mint is only refused for a transfer in a final status, so a
  transfer that was cancelled (its object unlocked and back with its owner) can still be minted.
\<close>

lemma mint_runs:
  assumes "tbl_get (br_transfers b) tid = Some t" "\<not> final_status (bt_status t)"
    "tbl_get (st_minted_proofs (br_store b)) (ccp_object_id pr) \<in> {None, Some tid}"
    "vr_valid (cross_verify_proof L cm pr)"
    "ccp_object_id pr = bt_source_object_id t" "ccp_source_chain pr = bt_source_chain t"
  shows "fst (mint_from_proof L cm now tid pr b) = Inr (t\<lparr>bt_status := Minted, bt_completed_at := Some now\<rparr>)"
proof -
  from assms(1,2,3) obtain b1 where "replay_guard tid (ccp_object_id pr) b = (Inr (), b1)" "br_transfers b1 = br_transfers b"
    by (auto simp: replay_guard_eq)
  then show ?thesis using assms by (simp add: mint_from_proof_def mint_verified_def Let_def)
qed

lemma mint_records:
  assumes "mint_from_proof L cm now tid pr b = (Inr t2, b2)"
  shows "get_minted_proof (br_store b2) (ccp_object_id pr) = Some tid"
proof -
  from assms obtain b1 t where g: "replay_guard tid (ccp_object_id pr) b = (Inr (), b1)"
    and m: "mint_verified L now tid pr (cross_verify_proof L cm pr) t b1 = (Inr t2, b2)"
    by (rule mint_success)
  show ?thesis
    using guard_minted(1) [OF g] mint_verified_parts(1) [of L now tid pr "cross_verify_proof L cm pr" t b1] m
    by (simp add: get_minted_proof_def)
qed

lemma cancelled_transfer_mints:
  assumes lock: "lock_assets L now sc oid dc own caller sig b = (Inr t, b1)"
    and keyed: "keyed (st_objects (br_store b))" and obj: "get_object (br_store b) oid = Some obj"
    and cancel: "cancel_transfer L later (bt_id t) caller csig b1 = (Inr t', b2)"
    and unused: "tbl_get (st_minted_proofs (br_store b)) oid = None"
    and valid: "vr_valid (cross_verify_proof L cm pr)" "ccp_object_id pr = oid" "ccp_source_chain pr = sc"
  shows "get_object (br_store b2) oid = Some obj \<and> bt_status t' = Failed
    \<and> (\<exists>t''. fst (mint_from_proof L cm now' (bt_id t) pr b2) = Inr t'')"
proof -
  from lock keyed obtain obj' where o: "get_object (br_store b) oid = Some obj'" "obj_owner obj' = caller" "obj_object_id obj' = oid"
    and tf: "bt_status t = Locked" "bt_created_at t = now" "bt_source_object_id t = oid" "bt_source_chain t = sc"
      "bt_id t = transfer_id_of sc dc oid now"
    and tr: "tbl_get (br_transfers b1) = (tbl_get (br_transfers b))(bt_id t \<mapsto> t)"
    and g: "get_object (br_store b1) = (get_object (br_store b))(oid \<mapsto> obj'\<lparr>obj_owner := lock_prefix @ caller\<rparr>)"
    and m: "st_minted_proofs (br_store b1) = st_minted_proofs (br_store b)"
    by (rule lock_parts)
  have "obj'\<lparr>obj_owner := lock_prefix @ caller, obj_owner := caller\<rparr> = obj" using o obj by simp
  then have c: "t' = t\<lparr>bt_status := Failed, bt_completed_at := Some later\<rparr>"
    "tbl_get (br_transfers b2) (bt_id t) = Some t'" "get_object (br_store b2) oid = Some obj"
    "st_minted_proofs (br_store b2) = st_minted_proofs (br_store b)"
    using cancel o obj
    by (auto simp: cancel_transfer_def tr tf g m or_default_def unlock_object_def Let_def objects_after_save
        split: if_splits sum.splits)
  then have "fst (mint_from_proof L cm now' (bt_id t) pr b2) = Inr (t'\<lparr>bt_status := Minted, bt_completed_at := Some now'\<rparr>)"
    using unused valid tf by (intro mint_runs) (simp_all add: final_status_def)
  then show ?thesis using c by simp
qed

text \<open>
  A lock takes its transfer id from the two chains, the object and the second of the clock, and
  does not look whether the id is in use. When a minted object has come back to an owner without
  the prefix and is locked again in the same second, the replay guard sees its own transfer, which
  is no longer final, and the object is minted a second time.
\<close>

lemma relocked_object_mints_again:
  assumes lock: "lock_assets L now sc oid dc own caller sig b = (Inr t, b1)"
    and minted: "get_minted_proof (br_store b) oid = Some (transfer_id_of sc dc oid now)"
    and pr: "vr_valid (cross_verify_proof L cm pr)" "ccp_object_id pr = oid" "ccp_source_chain pr = sc"
  shows "fst (mint_from_proof L cm later (transfer_id_of sc dc oid now) pr b1)
    = Inr (t\<lparr>bt_status := Minted, bt_completed_at := Some later\<rparr>)"
proof -
  from lock obtain obj where t: "t = \<lparr>bt_id = transfer_id_of sc dc oid now, bt_source_chain = sc, bt_source_object_id = oid,
       bt_dest_chain = dc, bt_dest_owner = own, bt_amount = obj_satoshis obj, bt_status = Locked,
       bt_created_at = now, bt_completed_at = None\<rparr>"
    and b1: "br_store b1 = save_bridge_transfer t (save_object L (obj\<lparr>obj_owner := lock_prefix @ caller\<rparr>) (br_store b))"
      "br_transfers b1 = tbl_insert (bt_id t) t (br_transfers b)" by (rule lock_success)
  show ?thesis using minted pr t by (intro mint_runs) (simp_all add: b1 get_minted_proof_def final_status_def)
qed

text \<open>
  The replay guard takes the entry before the transfer is looked up, so a mint for a transfer id
  that does not exist occupies the object for good: no other transfer of it can ever be minted.
\<close>

lemma unknown_transfer_blocks:
  assumes "tbl_get (br_transfers b) ghost = None" "tbl_get (st_minted_proofs (br_store b)) (ccp_object_id pr) = None"
    and "mint_from_proof L cm now ghost pr b = (r, b1)"
    and "tid \<noteq> ghost" "ccp_object_id pr' = ccp_object_id pr"
  shows "r = Inl (TransferNotFound ghost)
    \<and> fst (mint_from_proof L cm' now' tid pr' b1) = Inl (ReplayRejected (ccp_object_id pr) ghost tid)"
  using assms by (auto simp: mint_from_proof_def replay_guard_eq)

text \<open>A proof that fails, whoever sends it, fails the transfer and unlocks its object.\<close>

lemma any_bad_proof_fails_transfer:
  assumes "coherent b" "tbl_get (br_transfers b) tid = Some t" "\<not> final_status (bt_status t)"
    "tbl_get (st_minted_proofs (br_store b)) (ccp_object_id pr) = None"
    "\<not> vr_valid (cross_verify_proof L cm pr)"
    "get_object (br_store b) (bt_source_object_id t) = Some obj" "obj_object_id obj = bt_source_object_id t"
    "obj_owner obj = lock_prefix @ own"
    and "mint_from_proof L cm now tid pr b = (r, b1)"
  shows "get_transfer b1 tid = Some (t\<lparr>bt_status := Failed\<rparr>)
    \<and> get_object (br_store b1) (bt_source_object_id t) = Some (obj\<lparr>obj_owner := own\<rparr>)"
proof -
  have "bt_id t = tid" using assms(1,2) by (auto simp: coherent_def)
  then show ?thesis using assms(2-)
    by (auto simp: mint_from_proof_def replay_guard_eq unlock_object_def Let_def get_transfer_def objects_after_save
        get_object_def)
qed

text \<open>
  The lock is a prefix of the owner, and the block processor does not look at it: a call that
  spends the seal of a locked object and names a new owner gives it to that owner, without the
  prefix, while the transfer stays Locked and can still be minted on the other chain.
\<close>

lemma locked_object_still_moves:
  assumes lock: "lock_assets L now sc oid dc own caller sig b = (Inr t, b1)" and keyed: "keyed (st_objects (br_store b))"
    and obj: "get_object (br_store b1) oid = Some obj" "obj_code_hash obj = ''wasm_default''"
    and args: "json_get metadata ''args'' = Some args" "json_get_str args ''to'' = Some new_owner"
    and call: "process_call L E bp now' tx h i out metadata obj (br_store b1) = (r, s)"
  shows "(\<exists>obj'. get_object s oid = Some obj' \<and> obj_owner obj' = new_owner) \<and> r = Inr (Some oid)
    \<and> get_bridge_transfer s (bt_id t) = Some t \<and> bt_status t = Locked"
proof -
  have t: "bt_status t = Locked" "tbl_get (st_bridge_transfers (br_store b1)) (bt_id t) = Some t"
    using lock by (auto elim!: lock_success)
  obtain obj' where "obj_object_id obj' = oid"
    "get_object (br_store b1) = (get_object (br_store b))(oid \<mapsto> obj'\<lparr>obj_owner := lock_prefix @ caller\<rparr>)"
    by (rule lock_parts [OF lock keyed])
  then have id: "obj_object_id obj = oid" using obj(1) by auto
  show ?thesis using call t obj(2) args id
    by (auto simp: process_call_def run_method_def Let_def or_default_def get_bridge_transfer_def objects_after_save
        moved_object_def save_transition_def save_undo_log_def get_object_def save_object_tables)
qed

text \<open>The demonstration bridge: one asset, locked by its owner.\<close>

definition demo_bridge :: bridge_manager where
  "demo_bridge = bridge_save_object demo_libs demo_asset (bridge_new (empty_store demo_libs))"

lemma demo_bridge_facts:
  "coherent demo_bridge" "keyed (st_objects (br_store demo_bridge))"
  "get_object (br_store demo_bridge) ''a1'' = Some demo_asset" "br_transfers demo_bridge = []"
  "st_minted_proofs (br_store demo_bridge) = []"
proof -
  have "coherent (bridge_new (empty_store demo_libs))"
    by (rule bridge_new_coherent(1)) (simp_all add: empty_store_def)
  then show "coherent demo_bridge" unfolding demo_bridge_def by (rule coherent_save)
  show "keyed (st_objects (br_store demo_bridge))" "get_object (br_store demo_bridge) ''a1'' = Some demo_asset"
    "br_transfers demo_bridge = []" "st_minted_proofs (br_store demo_bridge) = []"
    by (auto simp: demo_bridge_def bridge_new_def empty_store_def keyed_def objects_after_save demo_asset_def
        demo_object_def get_all_bridge_transfers_def tbl_ok_def tbl_get_def split: if_splits)
qed

lemma demo_lock_runs:
  obtains t b where "lock_assets demo_libs 0 ''btc'' ''a1'' ''jkc'' ''bob'' demo_owner
      (demo_signature (lock_message ''btc'' ''a1'' ''jkc'' ''bob'')) demo_bridge = (Inr t, b)"
proof -
  have "obj_owner demo_asset = demo_owner" by (simp add: demo_asset_def)
  then show thesis using that
    by (simp add: lock_assets_def demo_bridge_facts demo_owner_unlocked demo_check Let_def)
qed

lemma lock_authorised_witness:
  "\<exists>t b. lock_assets demo_libs 0 ''btc'' ''a1'' ''jkc'' ''bob'' demo_owner
      (demo_signature (lock_message ''btc'' ''a1'' ''jkc'' ''bob'')) demo_bridge = (Inr t, b)
    \<and> lock_assets demo_libs 1 ''btc'' ''a1'' ''jkc'' ''eve'' demo_owner [] b = (Inl (AlreadyLocked ''a1'' demo_owner), b)"
proof -
  obtain t b where l: "lock_assets demo_libs 0 ''btc'' ''a1'' ''jkc'' ''bob'' demo_owner
      (demo_signature (lock_message ''btc'' ''a1'' ''jkc'' ''bob'')) demo_bridge = (Inr t, b)"
    by (rule demo_lock_runs)
  from lock_authorised [OF l demo_bridge_facts(2)] l show ?thesis by blast
qed

lemma lock_then_cancel_witness:
  "\<exists>t b1 b2. lock_assets demo_libs 0 ''btc'' ''a1'' ''jkc'' ''bob'' demo_owner
      (demo_signature (lock_message ''btc'' ''a1'' ''jkc'' ''bob'')) demo_bridge = (Inr t, b1)
    \<and> cancel_transfer demo_libs 3600 (bt_id t) demo_owner (demo_signature (''cancel:'' @ bt_id t)) b1
        = (Inr (t\<lparr>bt_status := Failed, bt_completed_at := Some 3600\<rparr>), b2)
    \<and> st_objects (br_store b2) = st_objects (br_store demo_bridge)"
proof -
  obtain t b where l: "lock_assets demo_libs 0 ''btc'' ''a1'' ''jkc'' ''bob'' demo_owner
      (demo_signature (lock_message ''btc'' ''a1'' ''jkc'' ''bob'')) demo_bridge = (Inr t, b)"
    by (rule demo_lock_runs)
  have "(3600::int) \<le> 3600 - 0" by simp
  with lock_then_cancel [OF l demo_bridge_facts(2), of 3600] demo_check [of "''cancel:'' @ bt_id t"] l
  show ?thesis by blast
qed

lemma demo_lock_again:
  assumes "get_object (br_store b) ''a1'' = Some demo_asset"
  obtains t b' where "bridge_step demo_libs demo_lock b = (Some (Inr t), b')"
proof -
  have "obj_owner demo_asset = demo_owner" by (simp add: demo_asset_def)
  then show thesis using that assms
    by (simp add: demo_lock_def lock_assets_def demo_owner_unlocked demo_check Let_def)
qed

lemma demo_mint_runs:
  obtains t b1 t2 b2 where "lock_assets demo_libs 0 ''btc'' ''a1'' ''jkc'' ''bob'' demo_owner
      (demo_signature (lock_message ''btc'' ''a1'' ''jkc'' ''bob'')) demo_bridge = (Inr t, b1)"
    "bt_id t = demo_tid" "coherent b1" "br_transfers b1 = tbl_insert demo_tid t []"
    "mint_from_proof demo_libs demo_consensus 5 demo_tid (demo_proof ''a1'') b1 = (Inr t2, b2)"
proof -
  obtain t b where l: "lock_assets demo_libs 0 ''btc'' ''a1'' ''jkc'' ''bob'' demo_owner
      (demo_signature (lock_message ''btc'' ''a1'' ''jkc'' ''bob'')) demo_bridge = (Inr t, b)"
    by (rule demo_lock_runs)
  have c: "coherent b"
    using coherent_step [OF demo_bridge_facts(1), of demo_libs demo_lock] l by (simp add: demo_lock_def)
  from l demo_bridge_facts(2) obtain obj where tf: "bt_status t = Locked" "bt_source_object_id t = ''a1''" "bt_source_chain t = ''btc''"
    "bt_id t = demo_tid" and tr: "tbl_get (br_transfers b) = (tbl_get (br_transfers demo_bridge))(bt_id t \<mapsto> t)"
    and m: "st_minted_proofs (br_store b) = st_minted_proofs (br_store demo_bridge)"
    unfolding demo_tid_def by (rule lock_parts)
  have "tbl_ok (br_transfers b)" using c by (simp add: coherent_def)
  then have trs: "br_transfers b = tbl_insert demo_tid t []"
    by (rule tbl_ext) (auto simp: tr tf demo_bridge_facts fun_eq_iff tbl_ok_def tbl_get_def)
  have "fst (mint_from_proof demo_libs demo_consensus 5 demo_tid (demo_proof ''a1'') b)
      = Inr (t\<lparr>bt_status := Minted, bt_completed_at := Some 5\<rparr>)"
    using tf tr m demo_proof_valid
    by (intro mint_runs) (simp_all add: final_status_def demo_bridge_facts demo_proof_def)
  then show thesis using that [OF l tf(4) c trs] by (metis prod.collapse)
qed

lemma mint_authorised_witness:
  "\<exists>(b1 :: bridge_manager) (b2 :: bridge_manager) ob :: smart_object. get_object (br_store b2) (obj_object_id ob) = Some ob \<and> obj_owner ob = ''bob''
     \<and> get_minted_proof (br_store b1) ''a1'' = None \<and> get_minted_proof (br_store b2) ''a1'' = Some demo_tid"
proof -
  obtain t b1 t2 b2 where l: "lock_assets demo_libs 0 ''btc'' ''a1'' ''jkc'' ''bob'' demo_owner
      (demo_signature (lock_message ''btc'' ''a1'' ''jkc'' ''bob'')) demo_bridge = (Inr t, b1)"
    and c: "coherent b1" and trs: "br_transfers b1 = tbl_insert demo_tid t []"
    and m: "mint_from_proof demo_libs demo_consensus 5 demo_tid (demo_proof ''a1'') b1 = (Inr t2, b2)"
    by (rule demo_mint_runs)
  from l obtain obj where own: "bt_dest_owner t = ''bob''"
    by (auto elim: lock_success)
  have none: "get_minted_proof (br_store b1) ''a1'' = None"
    using lock_parts [OF l demo_bridge_facts(2)] demo_bridge_facts(5)
    by (metis get_minted_proof_def tbl_get_Nil)
  have src: "ccp_object_id (demo_proof ''a1'') = ''a1''" by (simp add: demo_proof_def)
  have "get_transfer b1 demo_tid = Some t" unfolding trs get_transfer_def by (simp add: tbl_get_def)
  with mint_authorised [OF c m] own obtain ob where "obj_owner ob = ''bob''"
    "get_minted_proof (br_store b2) ''a1'' = Some demo_tid"
    "get_object (br_store b2) (obj_object_id ob) = Some ob"
    unfolding src by auto
  with none show ?thesis by (intro exI [of _ b1] exI [of _ b2] exI [of _ ob]) simp
qed

lemma demo_double_mint:
  "minted_ids demo_libs [WriteOp demo_asset, demo_lock, MintOp demo_consensus 5 demo_tid (demo_proof ''a1''),
       WriteOp demo_asset, demo_lock, MintOp demo_consensus 6 demo_tid (demo_proof ''a1'')]
     (bridge_new (empty_store demo_libs)) = [''a1'', ''a1'']"
proof -
  let ?mint = "\<lambda>n. MintOp demo_consensus n demo_tid (demo_proof ''a1'')"
  have pr: "ccp_object_id (demo_proof ''a1'') = ''a1''" "ccp_source_chain (demo_proof ''a1'') = ''btc''"
    by (simp_all add: demo_proof_def)
  obtain t b1 t2 b2 where l: "lock_assets demo_libs 0 ''btc'' ''a1'' ''jkc'' ''bob'' demo_owner
      (demo_signature (lock_message ''btc'' ''a1'' ''jkc'' ''bob'')) demo_bridge = (Inr t, b1)"
    and c: "coherent b1" and m: "mint_from_proof demo_libs demo_consensus 5 demo_tid (demo_proof ''a1'') b1 = (Inr t2, b2)"
    by (rule demo_mint_runs)
  let ?b3 = "bridge_save_object demo_libs demo_asset b2"
  have "get_object (br_store ?b3) ''a1'' = Some demo_asset"
    by (simp add: objects_after_save) (simp add: demo_asset_def demo_object_def)
  then obtain t' b4 where l': "bridge_step demo_libs demo_lock ?b3 = (Some (Inr t'), b4)" by (rule demo_lock_again)
  have "get_minted_proof (br_store ?b3) ''a1'' = Some demo_tid"
    using mint_records [OF m] pr(1) by (simp add: get_minted_proof_def)
  moreover have "lock_assets demo_libs 0 ''btc'' ''a1'' ''jkc'' ''bob'' demo_owner
      (demo_signature (lock_message ''btc'' ''a1'' ''jkc'' ''bob'')) ?b3 = (Inr t', b4)"
    using l' by (auto simp: demo_lock_def map_prod_def split: prod.splits)
  ultimately have "fst (mint_from_proof demo_libs demo_consensus 6 demo_tid (demo_proof ''a1'') b4)
      = Inr (t'\<lparr>bt_status := Minted, bt_completed_at := Some 6\<rparr>)"
    using relocked_object_mints_again [of demo_libs 0 "''btc''" "''a1''" "''jkc''" _ _ _ ?b3] pr demo_proof_valid
    unfolding demo_tid_def by blast
  moreover have "bridge_step demo_libs demo_lock demo_bridge = (Some (Inr t), b1)"
    using l by (simp add: demo_lock_def)
  ultimately show ?thesis using m l' pr(1) unfolding demo_bridge_def [symmetric]
    by (simp add: demo_bridge_def [symmetric]) (simp add: demo_lock_def)
qed

lemma no_double_mint_witness:
  "minted_ids demo_libs [WriteOp demo_asset, demo_lock, MintOp demo_consensus 5 demo_tid (demo_proof ''a1''),
       Restart, MintOp demo_consensus 6 demo_tid (demo_proof ''a1'')] (bridge_new (empty_store demo_libs)) = [''a1'']"
proof -
  let ?rest = "[Restart, MintOp demo_consensus 6 demo_tid (demo_proof ''a1'')]"
  let ?ops = "WriteOp demo_asset # demo_lock # MintOp demo_consensus 5 demo_tid (demo_proof ''a1'') # ?rest"
  obtain t b1 t2 b2 where l: "lock_assets demo_libs 0 ''btc'' ''a1'' ''jkc'' ''bob'' demo_owner
      (demo_signature (lock_message ''btc'' ''a1'' ''jkc'' ''bob'')) demo_bridge = (Inr t, b1)"
    and m: "mint_from_proof demo_libs demo_consensus 5 demo_tid (demo_proof ''a1'') b1 = (Inr t2, b2)"
    by (rule demo_mint_runs)
  have step: "bridge_step demo_libs demo_lock demo_bridge = (Some (Inr t), b1)"
    using l by (simp add: demo_lock_def)
  have ids: "minted_ids demo_libs ?ops (bridge_new (empty_store demo_libs)) = ''a1'' # minted_ids demo_libs ?rest b2"
    using step m unfolding demo_bridge_def [symmetric]
    by (simp add: demo_bridge_def [symmetric] demo_proof_def) (simp add: demo_lock_def)
  have "lock_ids demo_libs ?ops (bridge_new (empty_store demo_libs)) = [bt_id t]"
    using step unfolding demo_bridge_def [symmetric]
    by (simp add: demo_bridge_def [symmetric]) (simp add: demo_lock_def)
  then have "distinct (minted_ids demo_libs ?ops (bridge_new (empty_store demo_libs)))"
    using no_double_mint [of demo_libs ?ops] by simp
  then have "''a1'' \<notin> set (minted_ids demo_libs ?rest b2)" unfolding ids by simp
  moreover have "set (minted_ids demo_libs ?rest b2) \<subseteq> {''a1''}"
    by (auto simp: demo_proof_def split: option.splits sum.splits)
  then have "set (minted_ids demo_libs ?rest b2) = {} \<or> set (minted_ids demo_libs ?rest b2) = {''a1''}"
    by (rule subset_singletonD)
  ultimately have "set (minted_ids demo_libs ?rest b2) = {}" by (metis singletonI)
  then have "minted_ids demo_libs ?rest b2 = []" by (simp only: set_empty)
  with ids show ?thesis by (simp only:)
qed

end
