(* ===== verification/Relay.thy ===== *)
theory Relay
  imports Verifier
begin

text \<open>
  packages/node/src/cross_chain/relay.rs: state roots relayed between chains. A relay record is
  created Relayed and moves to Verified or Failed each time it is checked against the validators
  of that moment. The ConsensusManager is passed as the state it reads; the clock is read
  once per operation. The records are a table by id where the code has a HashMap, so lists come
  in id order.
\<close>

section \<open>Data\<close>

record relay_message =
  rm_source_chain :: string
  rm_block_height :: u64
  rm_block_hash :: string
  rm_state_root :: string
  rm_timestamp :: i64
  rm_attestations :: "attestation list"

datatype relay_status = RelayPending | Relayed | RelayVerified | RelayFailed

record relay_record =
  rr_id :: string
  rr_message :: relay_message
  rr_dest_chain :: string
  rr_status :: relay_status
  rr_relayed_at :: "i64 option"
  rr_verified_at :: "i64 option"

type_synonym relay_records = "(string, relay_record) table"

datatype relay_error = BlockNotFound u64 | RecordNotFound string

section \<open>Operations\<close>

definition create_relay_message :: "store \<Rightarrow> consensus \<Rightarrow> string \<Rightarrow> u64 \<Rightarrow> relay_error + relay_message" where
  "create_relay_message s cm source_chain block_height =
     (case get_block s source_chain block_height of
        None \<Rightarrow> Inl (BlockNotFound block_height)
      | Some blk \<Rightarrow> Inr \<lparr>rm_source_chain = source_chain, rm_block_height = block_height,
          rm_block_hash = blk_block_hash blk, rm_state_root = blk_state_root blk,
          rm_timestamp = blk_timestamp blk, rm_attestations = get_attestations cm source_chain block_height\<rparr>)"

definition relay_id :: "relay_message \<Rightarrow> string \<Rightarrow> i64 \<Rightarrow> string" where
  "relay_id m dest_chain now =
     rm_source_chain m @ ''_'' @ dest_chain @ ''_'' @ dec (unat (rm_block_height m)) @ ''_'' @ dec_int now"

definition relay_to_chain :: "i64 \<Rightarrow> relay_message \<Rightarrow> string \<Rightarrow> relay_records \<Rightarrow> relay_record \<times> relay_records" where
  "relay_to_chain now m dest_chain rs =
     (let r = \<lparr>rr_id = relay_id m dest_chain now, rr_message = m, rr_dest_chain = dest_chain,
                rr_status = Relayed, rr_relayed_at = Some now, rr_verified_at = None\<rparr>
      in (r, tbl_insert (relay_id m dest_chain now) r rs))"

text \<open>The loop of verify_relay: attestations that verify, the first of each key.\<close>

fun relay_counted :: "libs \<Rightarrow> string list \<Rightarrow> attestation list \<Rightarrow> attestation list" where
  "relay_counted L seen [] = []"
| "relay_counted L seen (a # as) =
     (if \<not> verify_attestation L a then relay_counted L seen as
      else if att_validator_pubkey a \<in> set seen then relay_counted L seen as
      else a # relay_counted L (att_validator_pubkey a # seen) as)"

definition checked_record :: "libs \<Rightarrow> consensus \<Rightarrow> i64 \<Rightarrow> relay_record \<Rightarrow> relay_record" where
  "checked_record L cm now r =
     (if get_validator_count cm = 0 then r\<lparr>rr_status := RelayFailed\<rparr>
      else case winning_root (relay_counted L [] (rm_attestations (rr_message r))) of
        None \<Rightarrow> r\<lparr>rr_status := RelayFailed\<rparr>
      | Some (root, max_count) \<Rightarrow>
          if root = rm_state_root (rr_message r) \<and> two_thirds (get_validator_count cm) \<le> max_count
          then r\<lparr>rr_status := RelayVerified, rr_verified_at := Some now\<rparr>
          else r\<lparr>rr_status := RelayFailed\<rparr>)"

definition verify_relay :: "libs \<Rightarrow> consensus \<Rightarrow> i64 \<Rightarrow> string \<Rightarrow> relay_records
    \<Rightarrow> (relay_error + relay_record) \<times> relay_records" where
  "verify_relay L cm now record_id rs =
     (case tbl_get rs record_id of
        None \<Rightarrow> (Inl (RecordNotFound record_id), rs)
      | Some r \<Rightarrow> (Inr (checked_record L cm now r), tbl_insert record_id (checked_record L cm now r) rs))"

definition get_record :: "relay_records \<Rightarrow> string \<Rightarrow> relay_record option" where
  "get_record rs record_id = tbl_get rs record_id"

definition get_records_for_chain :: "relay_records \<Rightarrow> string \<Rightarrow> relay_record list" where
  "get_records_for_chain rs source_chain =
     filter (\<lambda>r. rm_source_chain (rr_message r) = source_chain) (map snd rs)"

definition height_le :: "relay_record \<Rightarrow> relay_record \<Rightarrow> bool" where
  "height_le r q \<longleftrightarrow> rm_block_height (rr_message r) \<le> rm_block_height (rr_message q)"

definition get_latest_relay :: "relay_records \<Rightarrow> string \<Rightarrow> relay_record option" where
  "get_latest_relay rs source_chain =
     max_by height_le
       (filter (\<lambda>r. rm_source_chain (rr_message r) = source_chain \<and> rr_status r = RelayVerified) (map snd rs))"

definition get_all_records :: "relay_records \<Rightarrow> relay_record list" where
  "get_all_records rs = map snd rs"

section \<open>The life of a relay record\<close>

text \<open>
  The record tables a running relay can have: it starts empty, records are added and checked, at
  any time and against any validators.
\<close>

inductive relay_reachable :: "libs \<Rightarrow> relay_records \<Rightarrow> bool" for L where
  start: "relay_reachable L []"
| relay: "relay_reachable L rs \<Longrightarrow> relay_reachable L (snd (relay_to_chain now m dest rs))"
| check: "relay_reachable L rs \<Longrightarrow> relay_reachable L (snd (verify_relay L cm now rid rs))"

text \<open>Enough distinct keys signed the root of the message, for some number of validators.\<close>

definition root_backed :: "libs \<Rightarrow> relay_message \<Rightarrow> nat \<Rightarrow> bool" where
  "root_backed L m n \<longleftrightarrow> 0 < n \<and> (\<exists>S. 2 * n \<le> 3 * card S
     \<and> (\<forall>k \<in> S. \<exists>a \<in> set (rm_attestations m). att_validator_pubkey a = k
          \<and> att_state_root a = rm_state_root m \<and> verify_attestation L a))"

definition record_ok :: "libs \<Rightarrow> string \<Rightarrow> relay_record \<Rightarrow> bool" where
  "record_ok L rid r \<longleftrightarrow> rr_id r = rid \<and> rr_status r \<noteq> RelayPending \<and> rr_relayed_at r \<noteq> None
     \<and> (rr_status r = RelayVerified \<longrightarrow> rr_verified_at r \<noteq> None \<and> (\<exists>n. root_backed L (rr_message r) n))"

lemma relay_counted_box:
  "distinct (map att_validator_pubkey (relay_counted L seen as))
   \<and> set (relay_counted L seen as) \<subseteq> {a \<in> set as. verify_attestation L a \<and> att_validator_pubkey a \<notin> set seen}"
  by (induction L seen as rule: relay_counted.induct) auto

lemma relay_quorum:
  assumes "winning_root (relay_counted L [] as) = Some (root, n)" "two_thirds v \<le> n"
  obtains S where "2 * v \<le> 3 * card S"
    "\<forall>k \<in> S. \<exists>a \<in> set as. att_validator_pubkey a = k \<and> att_state_root a = root \<and> verify_attestation L a"
proof -
  let ?c = "relay_counted L [] as"
  let ?S = "cmq.supporters root ?c"
  have box: "cmq.valid_box (map att_validator_pubkey ?c) ?c"
    unfolding cmq.valid_box_def using relay_counted_box [of L "[]" as] by simp
  have "n = card ?S"
    using winning_root_Some(1) [OF assms(1)] cmq.card_supporters [OF box]
    by (simp add: cmq.votes_def root_votes_def)
  then have "2 * v \<le> 3 * card ?S" using assms(2) by (simp add: two_thirds_def)
  moreover have "\<forall>k \<in> ?S. \<exists>a \<in> set as. att_validator_pubkey a = k \<and> att_state_root a = root \<and> verify_attestation L a"
    using relay_counted_box [of L "[]" as] by (auto simp: cmq.supporters_def)
  ultimately show thesis by (rule that)
qed

lemma checked_cases:
  obtains "checked_record L cm now r = r\<lparr>rr_status := RelayFailed\<rparr>"
  | "checked_record L cm now r = r\<lparr>rr_status := RelayVerified, rr_verified_at := Some now\<rparr>"
    "root_backed L (rr_message r) (get_validator_count cm)"
proof (cases "checked_record L cm now r = r\<lparr>rr_status := RelayFailed\<rparr>")
  case False
  then obtain n where w: "winning_root (relay_counted L [] (rm_attestations (rr_message r))) = Some (rm_state_root (rr_message r), n)"
    and n: "two_thirds (get_validator_count cm) \<le> n" "0 < get_validator_count cm"
    and r: "checked_record L cm now r = r\<lparr>rr_status := RelayVerified, rr_verified_at := Some now\<rparr>"
    by (auto simp: checked_record_def split: if_splits option.splits)
  from relay_quorum [OF w n(1)] n(2) have "root_backed L (rr_message r) (get_validator_count cm)"
    by (auto simp: root_backed_def)
  with r show thesis by (rule that(2))
qed (rule that(1))

lemma record_ok_checked: "record_ok L rid r \<Longrightarrow> record_ok L rid (checked_record L cm now r)"
  by (rule checked_cases [of L cm now r]) (auto simp: record_ok_def)

lemma reachable_ok: "relay_reachable L rs \<Longrightarrow> tbl_ok rs \<and> (\<forall>rid r. tbl_get rs rid = Some r \<longrightarrow> record_ok L rid r)"
proof (induction rule: relay_reachable.induct)
  case (relay rs now m dest)
  then show ?case by (auto simp: relay_to_chain_def record_ok_def Let_def)
next
  case (check rs cm now rid)
  then show ?case by (auto simp: verify_relay_def record_ok_checked split: option.splits)
qed simp

text \<open>
  A history of a relay: messages relayed and records checked, each check at a time and against
  the validators of that moment.
\<close>

datatype relay_event = RelayEv i64 relay_message string | CheckEv consensus i64 string

fun relay_step :: "libs \<Rightarrow> relay_records \<Rightarrow> relay_event \<Rightarrow> relay_records" where
  "relay_step L rs (RelayEv now m dest) = snd (relay_to_chain now m dest rs)"
| "relay_step L rs (CheckEv cm now rid) = snd (verify_relay L cm now rid rs)"

definition relay_run :: "libs \<Rightarrow> relay_event list \<Rightarrow> relay_records" where
  "relay_run L evs = foldl (relay_step L) [] evs"

lemma relay_run_snoc [simp]: "relay_run L (evs @ [e]) = relay_step L (relay_run L evs) e"
  by (simp add: relay_run_def)

lemma relay_reachable_run: "relay_reachable L rs \<longleftrightarrow> (\<exists>evs. rs = relay_run L evs)"
proof
  show "relay_reachable L rs \<Longrightarrow> \<exists>evs. rs = relay_run L evs"
  proof (induction rule: relay_reachable.induct)
    case start
    show ?case by (rule exI [of _ "[]"]) (simp add: relay_run_def)
  next
    case (relay rs now m dest)
    then show ?case by (metis relay_run_snoc relay_step.simps(1))
  next
    case (check rs cm now rid)
    then show ?case by (metis relay_run_snoc relay_step.simps(2))
  qed
next
  have "relay_reachable L (relay_run L evs)" for evs
  proof (induction evs rule: rev_induct)
    case Nil
    show ?case by (simp add: relay_run_def relay_reachable.start)
  next
    case (snoc e evs)
    then show ?case by (cases e) (auto intro: relay_reachable.intros)
  qed
  then show "\<exists>evs. rs = relay_run L evs \<Longrightarrow> relay_reachable L rs" by auto
qed

text \<open>Where a record comes from, and which check made it Verified: the last event of its id.\<close>

definition relayed_by :: "relay_event list \<Rightarrow> string \<Rightarrow> relay_record \<Rightarrow> bool" where
  "relayed_by evs rid r \<longleftrightarrow> (\<exists>t. RelayEv t (rr_message r) (rr_dest_chain r) \<in> set evs
     \<and> rid = relay_id (rr_message r) (rr_dest_chain r) t \<and> rr_relayed_at r = Some t)"

fun writes_record :: "string \<Rightarrow> relay_event \<Rightarrow> bool" where
  "writes_record rid (RelayEv now m dest) \<longleftrightarrow> relay_id m dest now = rid"
| "writes_record rid (CheckEv cm now i) \<longleftrightarrow> i = rid"

definition verified_by :: "libs \<Rightarrow> relay_event list \<Rightarrow> string \<Rightarrow> relay_record \<Rightarrow> bool" where
  "verified_by L evs rid r \<longleftrightarrow> (\<exists>pre cm now post. evs = pre @ CheckEv cm now rid # post
     \<and> (\<forall>e \<in> set post. \<not> writes_record rid e) \<and> rr_verified_at r = Some now
     \<and> root_backed L (rr_message r) (get_validator_count cm))"

lemma relayed_by_snoc: "relayed_by evs rid r \<Longrightarrow> relayed_by (evs @ [e]) rid r"
  by (auto simp: relayed_by_def)

lemma verified_by_snoc: "verified_by L evs rid r \<Longrightarrow> \<not> writes_record rid e \<Longrightarrow> verified_by L (evs @ [e]) rid r"
proof -
  assume "verified_by L evs rid r" and e: "\<not> writes_record rid e"
  then obtain pre cm now post where v: "evs = pre @ CheckEv cm now rid # post" "\<forall>x \<in> set post. \<not> writes_record rid x"
    "rr_verified_at r = Some now" "root_backed L (rr_message r) (get_validator_count cm)"
    by (auto simp: verified_by_def)
  then have "evs @ [e] = pre @ CheckEv cm now rid # (post @ [e])" "\<forall>x \<in> set (post @ [e]). \<not> writes_record rid x"
    using e by auto
  with v(3,4) show "verified_by L (evs @ [e]) rid r" unfolding verified_by_def by blast
qed

lemma verified_by_check:
  assumes "rr_status (checked_record L cm now r) = RelayVerified"
  shows "verified_by L (evs @ [CheckEv cm now rid]) rid (checked_record L cm now r)"
proof -
  from assms have "rr_verified_at (checked_record L cm now r) = Some now"
    "root_backed L (rr_message (checked_record L cm now r)) (get_validator_count cm)"
    by (auto intro: checked_cases [of L cm now r])
  then show ?thesis unfolding verified_by_def by fastforce
qed

lemma relayed_by_checked: "relayed_by evs rid r \<Longrightarrow> relayed_by evs rid (checked_record L cm now r)"
  by (rule checked_cases [of L cm now r]) (auto simp: relayed_by_def)

lemma step_record:
  assumes "tbl_ok rs" "tbl_get (relay_step L rs e) rid = Some r" "\<not> writes_record rid e"
  shows "tbl_get rs rid = Some r"
  using assms by (cases e) (auto simp: relay_to_chain_def verify_relay_def Let_def split: option.splits if_splits)

lemma relay_history:
  "tbl_ok (relay_run L evs) \<and> (\<forall>rid r. tbl_get (relay_run L evs) rid = Some r \<longrightarrow>
     relayed_by evs rid r \<and> (rr_status r = RelayVerified \<longrightarrow> verified_by L evs rid r))"
proof (induction evs rule: rev_induct)
  case Nil
  show ?case by (simp add: relay_run_def)
next
  case (snoc e evs)
  let ?rs = "relay_run L evs"
  have "relayed_by (evs @ [e]) rid r \<and> (rr_status r = RelayVerified \<longrightarrow> verified_by L (evs @ [e]) rid r)"
    if g: "tbl_get (relay_step L ?rs e) rid = Some r" for rid r
  proof (cases "writes_record rid e")
    case False
    with step_record [OF _ g] snoc.IH show ?thesis by (blast intro: relayed_by_snoc verified_by_snoc)
  next
    case True
    show ?thesis
    proof (cases e)
      case (RelayEv t m d)
      then show ?thesis using g True snoc.IH by (auto simp: relay_to_chain_def relayed_by_def Let_def)
    next
      case (CheckEv cm now i)
      with g True snoc.IH obtain r0 where "tbl_get ?rs rid = Some r0" "r = checked_record L cm now r0"
        by (auto simp: verify_relay_def split: option.splits)
      with CheckEv True snoc.IH show ?thesis
        by (auto intro: relayed_by_snoc relayed_by_checked verified_by_check)
    qed
  qed
  moreover have "tbl_ok (relay_step L ?rs e)"
    using snoc.IH by (cases e) (auto simp: relay_to_chain_def verify_relay_def Let_def split: option.splits)
  ultimately show ?case by simp
qed

lemma latest_relay_highest:
  assumes "tbl_ok rs" "get_latest_relay rs c = Some r"
  shows "(\<exists>rid. get_record rs rid = Some r) \<and> rm_source_chain (rr_message r) = c \<and> rr_status r = RelayVerified
    \<and> (\<forall>q \<in> set (get_records_for_chain rs c). rr_status q = RelayVerified \<longrightarrow> height_le q r)"
proof -
  let ?p = "\<lambda>r. rm_source_chain (rr_message r) = c \<and> rr_status r = RelayVerified"
  have m: "r \<in> set (filter ?p (map snd rs)) \<and> (\<forall>x \<in> set (filter ?p (map snd rs)). height_le x r)"
    by (rule max_by_member [OF _ _ assms(2) [unfolded get_latest_relay_def]]) (auto simp: height_le_def)
  moreover obtain p where "p \<in> set rs" "snd p = r" using m by auto
  moreover have "get_record rs (fst p) = Some r"
    using tbl_ok_get [OF assms(1), of "fst p" "snd p"] \<open>p \<in> set rs\<close> \<open>snd p = r\<close>
    by (auto simp: get_record_def)
  ultimately show ?thesis by (auto simp: get_records_for_chain_def)
qed

text \<open>
  C19. In every history of a relay each record carries a message that was relayed under its id at
  the time it shows. A record that is Verified owes it to the last event of its id, a check at
  the time it shows: the message holds valid signatures over exactly the relayed root by
  distinct keys, at least two thirds of the number of validators known at that check, which was
  not 0. get_latest_relay answers such a record, the highest one of its chain.
\<close>

theorem relay_verified_backed:
  assumes "rs = relay_run L evs"
  shows "(\<forall>rid r. get_record rs rid = Some r \<longrightarrow> relayed_by evs rid r
         \<and> (rr_status r = RelayVerified \<longrightarrow> verified_by L evs rid r))
    \<and> (\<forall>c r. get_latest_relay rs c = Some r \<longrightarrow> (\<exists>rid. get_record rs rid = Some r \<and> verified_by L evs rid r)
         \<and> rm_source_chain (rr_message r) = c
         \<and> (\<forall>q \<in> set (get_records_for_chain rs c). rr_status q = RelayVerified \<longrightarrow>
              rm_block_height (rr_message q) \<le> rm_block_height (rr_message r)))"
  using relay_history [of L evs] latest_relay_highest [of rs] unfolding assms get_record_def height_le_def by blast

lemma relay_verified_backed_witness:
  "\<exists>evs r. get_latest_relay (relay_run demo_libs evs) ''btc'' = Some r \<and> (\<exists>rid. verified_by demo_libs evs rid r)"
proof -
  let ?m = "\<lparr>rm_source_chain = ''btc'', rm_block_height = 7, rm_block_hash = ''h'', rm_state_root = ''r'',
    rm_timestamp = 0, rm_attestations = [demo_attestation demo_pk ''r'']\<rparr>"
  let ?evs = "[RelayEv 0 ?m ''jkc'', CheckEv demo_consensus 1 (relay_id ?m ''jkc'' 0)]"
  have "verify_attestation demo_libs (demo_attestation demo_pk ''r'')"
    by (rule demo_attestation_verifies) (simp add: demo_pk_def)
  moreover have "att_state_root (demo_attestation demo_pk ''r'') = ''r''"
    by (simp add: demo_attestation_def sign_state_root_def)
  ultimately have "get_latest_relay (relay_run demo_libs ?evs) ''btc'' \<noteq> None"
    by (simp add: relay_run_def relay_to_chain_def verify_relay_def checked_record_def get_latest_relay_def winning_root_def
        root_counts_def count_root_def tbl_get_def demo_consensus_def cm_new_def get_validator_count_def two_thirds_def Let_def)
  with relay_verified_backed [OF refl, of demo_libs ?evs] show ?thesis by (metis not_None_eq)
qed

text \<open>
  What is not checked: the keys need not belong to known validators, and the attestations may be
  for another chain and height than the message.
\<close>

lemma relay_accepts_unknown_keys:
  assumes "get_validator_count cm = 1" "verify_attestation L a" "att_state_root a = root"
    and "rm_attestations (rr_message r) = [a]" "rm_state_root (rr_message r) = root"
  shows "rr_status (checked_record L cm now r) = RelayVerified"
  using assms
  by (simp add: checked_record_def winning_root_def root_counts_def count_root_def tbl_get_def two_thirds_def)

end
