(* ===== verification/Script_Spec.thy ===== *)
theory Script_Spec
  imports Rust_Std
begin

text \<open>
  What the tapscripts built under packages/node/src/consensus are judged by: the stack machine
  of Bitcoin Script (BIP-112, BIP-342 and the re-enabled OP_CAT) for the opcodes the builders
  emit. This is the specification side: the consensus rules are not code of the repository, the
  stack effects are those that the comments of covenants.rs spell out. The signature check and the
  relative lock of the spending transaction are parameters. Every other opcode fails.
\<close>

section \<open>Reading a script\<close>

datatype script_op = Push bytes | Op byte

definition pushed :: "nat \<Rightarrow> bytes \<Rightarrow> (script_op \<times> bytes) option" where
  "pushed n r = (if n \<le> length r then Some (Push (take n r), drop n r) else None)"

fun read_op :: "bytes \<Rightarrow> (script_op \<times> bytes) option" where
  "read_op [] = None"
| "read_op (b # r) =
     (let n = unat b in
      if n \<le> 75 then pushed n r
      else if n = 76 then (if r = [] then None else pushed (unat (hd r)) (tl r))
      else if n = 77 then (if length r < 2 then None else pushed (from_le (take 2 r)) (drop 2 r))
      else if n = 78 then (if length r < 4 then None else pushed (from_le (take 4 r)) (drop 4 r))
      else if n = 79 then Some (Push [0x81], r)
      else if 81 \<le> n \<and> n \<le> 96 then Some (Push [b - 80], r)
      else Some (Op b, r))"

lemma read_op_shorter: "read_op bs = Some (x, r) \<Longrightarrow> length r < length bs"
  by (cases bs) (auto simp: pushed_def Let_def split: if_splits)

function parse_script :: "bytes \<Rightarrow> script_op list option" where
  "parse_script bs =
     (if bs = [] then Some []
      else case read_op bs of
        None \<Rightarrow> None
      | Some (x, r) \<Rightarrow> map_option ((#) x) (parse_script r))"
  by pat_completeness auto
termination
  by (relation "measure length") (auto simp: read_op_shorter)

declare parse_script.simps [simp del]

lemma parse_Nil [simp]: "parse_script [] = Some []"
  by (subst parse_script.simps) simp

lemma parse_read: "read_op bs = Some (x, r) \<Longrightarrow> parse_script bs = map_option ((#) x) (parse_script r)"
  by (subst parse_script.simps) (auto split: option.split)

lemma parse_op:
  "97 \<le> unat b \<Longrightarrow> parse_script (b # r) = map_option ((#) (Op b)) (parse_script r)"
  by (rule parse_read) simp

lemma parse_data:
  "length d \<le> 75 \<Longrightarrow> parse_script (word_of_nat (length d) # d @ r) = map_option ((#) (Push d)) (parse_script r)"
proof (rule parse_read)
  assume "length d \<le> 75"
  then have "unat (word_of_nat (length d) :: byte) = length d" by (intro of_nat_inverse [OF refl]) simp
  then show "read_op (word_of_nat (length d) # d @ r) = Some (Push d, r)"
    using \<open>length d \<le> 75\<close> by (simp add: pushed_def)
qed

section \<open>Numbers and truth values\<close>

text \<open>A number is little-endian with the sign in the top bit of its last byte.\<close>

definition script_number :: "bytes \<Rightarrow> int" where
  "script_number bs =
     (let n = int (from_le bs); m = 2 ^ (8 * length bs - 1) in
      if bs = [] then 0 else if m \<le> n then - (n - m) else n)"

definition truthy :: "bytes \<Rightarrow> bool" where
  "truthy bs \<longleftrightarrow> script_number bs \<noteq> 0"

definition truth :: "bool \<Rightarrow> bytes" where
  "truth b = (if b then [1] else [])"

lemma truthy_truth [simp]: "truthy (truth b) = b"
  by (simp add: truth_def truthy_def script_number_def from_le_def from_be_def Let_def)

section \<open>Execution\<close>

text \<open>
  env_checksig key sig: the signature is valid for the spending transaction; env_csv n: its input
  is at least n blocks (or units) old.
\<close>

record script_env =
  env_sha256 :: "bytes \<Rightarrow> bytes"
  env_checksig :: "bytes \<Rightarrow> bytes \<Rightarrow> bool"
  env_csv :: "int \<Rightarrow> bool"

type_synonym machine = "bytes list \<times> bytes list"

text \<open>BIP-342: an empty signature is false, any other must be valid; the key must be x-only.\<close>

definition check_sig :: "script_env \<Rightarrow> bytes \<Rightarrow> bytes \<Rightarrow> bool option" where
  "check_sig e key sig =
     (if key = [] then None
      else if length key \<noteq> 32 then Some (sig \<noteq> [])
      else if sig = [] then Some False
      else if env_checksig e key sig then Some True else None)"

definition check_sequence :: "script_env \<Rightarrow> bytes \<Rightarrow> bool" where
  "check_sequence e x =
     (let n = script_number x in length x \<le> 5 \<and> 0 \<le> n \<and> (odd (n div 2 ^ 31) \<or> env_csv e n))"

definition MAX_ELEMENT :: nat where
  "MAX_ELEMENT = 520"

fun exec_op :: "script_env \<Rightarrow> script_op \<Rightarrow> machine \<Rightarrow> machine option" where
  "exec_op e (Push d) (st, alt) = (if length d \<le> MAX_ELEMENT then Some (d # st, alt) else None)"
| "exec_op e (Op b) (st, alt) =
     (if b = 0x6b then (case st of x # st' \<Rightarrow> Some (st', x # alt) | _ \<Rightarrow> None)
      else if b = 0x6c then (case alt of x # alt' \<Rightarrow> Some (x # st, alt') | _ \<Rightarrow> None)
      else if b = 0x75 then (case st of x # st' \<Rightarrow> Some (st', alt) | _ \<Rightarrow> None)
      else if b = 0x7e then (case st of x # y # st' \<Rightarrow>
          if length y + length x \<le> MAX_ELEMENT then Some ((y @ x) # st', alt) else None | _ \<Rightarrow> None)
      else if b = 0xa8 then (case st of x # st' \<Rightarrow> Some (env_sha256 e x # st', alt) | _ \<Rightarrow> None)
      else if b = 0xac then (case st of key # sig # st' \<Rightarrow>
          map_option (\<lambda>ok. (truth ok # st', alt)) (check_sig e key sig) | _ \<Rightarrow> None)
      else if b = 0xad then (case st of key # sig # st' \<Rightarrow>
          if check_sig e key sig = Some True then Some (st', alt) else None | _ \<Rightarrow> None)
      else if b = 0x87 then (case st of x # y # st' \<Rightarrow> Some (truth (x = y) # st', alt) | _ \<Rightarrow> None)
      else if b = 0x91 then (case st of x # st' \<Rightarrow>
          if length x \<le> 4 then Some (truth (script_number x = 0) # st', alt) else None | _ \<Rightarrow> None)
      else if b = 0x69 then (case st of x # st' \<Rightarrow> if truthy x then Some (st', alt) else None | _ \<Rightarrow> None)
      else if b = 0xb2 then (case st of x # st' \<Rightarrow> if check_sequence e x then Some (st, alt) else None | _ \<Rightarrow> None)
      else None)"

fun exec :: "script_env \<Rightarrow> script_op list \<Rightarrow> machine \<Rightarrow> machine option" where
  "exec e [] m = Some m"
| "exec e (x # xs) m = (case exec_op e x m of None \<Rightarrow> None | Some m' \<Rightarrow> exec e xs m')"

text \<open>
  A script-path spend: the witness items before the script and the control block are the initial
  stack, the last item on top. BIP-342 bounds that stack, at most 1000 items of at most 520 bytes
  each; the script must leave exactly one element, and it must be true.
\<close>

definition MAX_STACK :: nat where
  "MAX_STACK = 1000"

definition stack_allowed :: "bytes list \<Rightarrow> bool" where
  "stack_allowed items \<longleftrightarrow> length items \<le> MAX_STACK \<and> (\<forall>x \<in> set items. length x \<le> MAX_ELEMENT)"

definition spends :: "script_env \<Rightarrow> bytes \<Rightarrow> bytes list \<Rightarrow> bool" where
  "spends e script items \<longleftrightarrow> stack_allowed items \<and>
     (case parse_script script of
        None \<Rightarrow> False
      | Some ops \<Rightarrow>
          (case exec e ops (rev items, []) of
             Some ([x], alt) \<Rightarrow> truthy x
           | _ \<Rightarrow> False))"

lemma exec_append: "exec e (xs @ ys) m = Option.bind (exec e xs m) (exec e ys)"
  by (induction xs arbitrary: m) (auto split: option.split)

end
