(* ===== verification/Covenants.thy ===== *)
theory Covenants
  imports Script_Spec Attestation
begin

text \<open>
  packages/node/src/consensus/covenants.rs: the tapleaf that is meant to let anyone slash an
  operator who signed two state roots, and the witness for it. The theorem says exactly which
  witnesses the leaf accepts, on the machine of Script_Spec; the witness the module builds is
  not among them.
\<close>

section \<open>The builders\<close>

definition OP_CAT :: byte where "OP_CAT = 0x7e"

definition OP_SHA256 :: byte where "OP_SHA256 = 0xa8"

definition OP_CHECKSIG :: byte where "OP_CHECKSIG = 0xac"

definition OP_CHECKSIGVERIFY :: byte where "OP_CHECKSIGVERIFY = 0xad"

definition OP_EQUAL :: byte where "OP_EQUAL = 0x87"

definition OP_VERIFY :: byte where "OP_VERIFY = 0x69"

definition OP_NOT :: byte where "OP_NOT = 0x91"

definition OP_TOALTSTACK :: byte where "OP_TOALTSTACK = 0x6b"

definition OP_FROMALTSTACK :: byte where "OP_FROMALTSTACK = 0x6c"

definition OP_DROP :: byte where "OP_DROP = 0x75"

definition OP_PUSHDATA1 :: byte where "OP_PUSHDATA1 = 0x4c"

lemmas opcode_defs = OP_CAT_def OP_SHA256_def OP_CHECKSIG_def OP_CHECKSIGVERIFY_def OP_EQUAL_def OP_VERIFY_def
  OP_NOT_def OP_TOALTSTACK_def OP_FROMALTSTACK_def OP_DROP_def OP_PUSHDATA1_def

datatype l1_error =
    CovenantKeyLength | OperatorKeyLength | ChallengerKeyLength | UserKeyLength
  | ObjectIdLength | PrevSealLength | NewSealLength | StateHashLength
  | StateRootLength | ConsumedSealLength | OperatorSignatureLength | IndexerKeyLength
  | CsvInactive | TaprootInactive | DisabledOpcodesInactive

definition push_bytes :: "bytes \<Rightarrow> bytes \<Rightarrow> bytes" where
  "push_bytes script d =
     (if length d \<le> 75 then script @ [word_of_nat (length d)]
      else if length d \<le> 255 then script @ [OP_PUSHDATA1, word_of_nat (length d)]
      else script @ [0x4d] @ le_bytes 2 (length d)) @ d"

definition build_equivocation_covenant :: "bytes \<Rightarrow> l1_error + bytes" where
  "build_equivocation_covenant operator_pubkey =
     (if length operator_pubkey \<noteq> 32 then Inl CovenantKeyLength
      else
        (let save = [OP_TOALTSTACK, OP_TOALTSTACK, OP_TOALTSTACK, OP_TOALTSTACK, OP_TOALTSTACK, OP_TOALTSTACK,
                     OP_TOALTSTACK, OP_TOALTSTACK, OP_TOALTSTACK, OP_TOALTSTACK, OP_TOALTSTACK, OP_TOALTSTACK];
             hash_preimage = (\<lambda>script. push_bytes (script @ [OP_FROMALTSTACK]) (as_bytes ''UTXO_VM_ATTESTATION_V1'')
               @ [OP_CAT, OP_FROMALTSTACK, OP_CAT, OP_FROMALTSTACK, OP_CAT, OP_FROMALTSTACK, OP_CAT, OP_SHA256]);
             verify_sig = (\<lambda>script. push_bytes (script @ [OP_FROMALTSTACK]) operator_pubkey
               @ [OP_CHECKSIGVERIFY, OP_DROP])
         in Inr (verify_sig (hash_preimage (verify_sig (hash_preimage save)))
                 @ [OP_FROMALTSTACK, OP_FROMALTSTACK, OP_EQUAL, OP_NOT, OP_VERIFY])))"

definition build_equivocation_witness :: "bytes \<Rightarrow> bytes \<Rightarrow> string \<Rightarrow> u64 \<Rightarrow> string \<Rightarrow> string \<Rightarrow> bytes
    \<Rightarrow> string \<Rightarrow> string \<Rightarrow> bytes \<Rightarrow> bytes \<Rightarrow> bytes list" where
  "build_equivocation_witness root_1 root_2 chain height block_hash_1 state_root_1 sig_1
     block_hash_2 state_root_2 sig_2 script_leaf =
     (let len_chain_field = len_u32_be chain @ as_bytes chain;
          height_field = u64_be height;
          len_bh_field_1 = len_u32_be block_hash_1 @ as_bytes block_hash_1;
          len_sr_field_1 = len_u32_be state_root_1 @ as_bytes state_root_1;
          len_bh_field_2 = len_u32_be block_hash_2 @ as_bytes block_hash_2;
          len_sr_field_2 = len_u32_be state_root_2 @ as_bytes state_root_2
      in [root_1, root_2, len_chain_field, height_field, len_bh_field_1, len_sr_field_1, sig_1,
          len_chain_field, height_field, len_bh_field_2, len_sr_field_2, sig_2, script_leaf])"

section \<open>Data pushes\<close>

text \<open>What push_bytes appends, the machine reads back as one push of exactly these bytes.\<close>

lemma read_pushed:
  assumes "length d < 65536"
  shows "\<exists>p. push_bytes script d = script @ p \<and> read_op (p @ r) = Some (Push d, r)"
proof -
  have u: "unat (word_of_nat (length d) :: byte) = length d" if "length d \<le> 255"
    using that by (intro of_nat_inverse [OF refl]) simp
  consider "length d \<le> 75" | "75 < length d" "length d \<le> 255" | "255 < length d" by linarith
  then show ?thesis
  proof cases
    case 1
    then show ?thesis using u by (intro exI [of _ "word_of_nat (length d) # d"]) (simp add: push_bytes_def pushed_def)
  next
    case 2
    then show ?thesis using u
      by (intro exI [of _ "OP_PUSHDATA1 # word_of_nat (length d) # d"]) (simp add: push_bytes_def pushed_def OP_PUSHDATA1_def)
  next
    case 3
    have "from_le (le_bytes 2 (length d)) = length d" using assms by (simp add: from_le_le_bytes)
    then show ?thesis using 3
      by (intro exI [of _ "0x4d # le_bytes 2 (length d) @ d"]) (simp add: push_bytes_def pushed_def)
  qed
qed

lemma short_push: "length d \<le> 75 \<Longrightarrow> push_bytes script d = script @ word_of_nat (length d) # d"
  by (simp add: push_bytes_def)

section \<open>What the covenant accepts\<close>

definition domain_tag :: bytes where
  "domain_tag = as_bytes ''UTXO_VM_ATTESTATION_V1''"

lemma domain_tag_length [simp]: "length domain_tag = 22"
  by (simp add: domain_tag_def as_bytes_def)

definition covenant_ops :: "bytes \<Rightarrow> script_op list" where
  "covenant_ops pk =
     replicate 12 (Op OP_TOALTSTACK)
     @ concat (replicate 2 [Op OP_FROMALTSTACK, Push domain_tag, Op OP_CAT, Op OP_FROMALTSTACK, Op OP_CAT,
          Op OP_FROMALTSTACK, Op OP_CAT, Op OP_FROMALTSTACK, Op OP_CAT, Op OP_SHA256,
          Op OP_FROMALTSTACK, Push pk, Op OP_CHECKSIGVERIFY, Op OP_DROP])
     @ [Op OP_FROMALTSTACK, Op OP_FROMALTSTACK, Op OP_EQUAL, Op OP_NOT, Op OP_VERIFY]"

lemma replicate_save: "replicate 12 x = [x, x, x, x, x, x, x, x, x, x, x, x]" "replicate 2 x = [x, x]"
  by (simp_all add: eval_nat_numeral)

lemma covenant_parses:
  assumes "length pk = 32"
  obtains script where "build_equivocation_covenant pk = Inr script" "parse_script script = Some (covenant_ops pk)"
proof -
  have dom: "parse_script (22 # domain_tag @ r) = map_option ((#) (Push domain_tag)) (parse_script r)" for r
    using parse_data [of domain_tag r] by simp
  have key: "parse_script (32 # pk @ r) = map_option ((#) (Push pk)) (parse_script r)" for r
    using parse_data [of pk r] assms by simp
  obtain script where s: "build_equivocation_covenant pk = Inr script"
    using assms by (simp add: build_equivocation_covenant_def)
  then have "parse_script script = Some (covenant_ops pk)"
    using assms
    by (auto simp: build_equivocation_covenant_def short_push simp flip: domain_tag_def)
      (simp add: dom key parse_op opcode_defs covenant_ops_def replicate_save)
  with s show thesis by (rule that)
qed

lemma exec_save:
  "exec e (replicate n (Op OP_TOALTSTACK)) (st, alt)
     = (if n \<le> length st then Some (drop n st, rev (take n st) @ alt) else None)"
proof (induction n arbitrary: st alt)
  case (Suc n)
  then show ?case by (cases st) (auto simp: OP_TOALTSTACK_def)
qed simp

lemma check_sig_verify [simp]: "(check_sig e key sig = Some True) = (sig \<noteq> [] \<and> key \<noteq> [] \<and> (length key = 32 \<longrightarrow> env_checksig e key sig))"
  by (auto simp: check_sig_def)

text \<open>
  The conditions the covenant really checks of its twelve items: they come back from the
  alternate stack in the order in which they were the witness, not in the order the preimages
  need.
\<close>

definition covenant_checks :: "script_env \<Rightarrow> bytes \<Rightarrow> bytes list \<Rightarrow> bool" where
  "covenant_checks e pk w \<longleftrightarrow>
     length (w ! 0) + length (w ! 1) + length (w ! 2) + length (w ! 3) + 22 \<le> MAX_ELEMENT
   \<and> length (w ! 5) + length (w ! 6) + length (w ! 7) + length (w ! 8) + 22 \<le> MAX_ELEMENT
   \<and> w ! 4 \<noteq> [] \<and> env_checksig e pk (w ! 4)
   \<and> w ! 9 \<noteq> [] \<and> env_checksig e pk (w ! 9)
   \<and> w ! 10 \<noteq> w ! 11"

lemma exec_covenant:
  assumes "length pk = 32" "length w = 12"
  shows "exec e (covenant_ops pk) (rev w @ st, [])
    = (if covenant_checks e pk w then Some (st, []) else None)"
proof -
  from assms(2) obtain a b c d f g h i j k l m where w: "w = [a, b, c, d, f, g, h, i, j, k, l, m]"
    by (auto simp: length_Suc_conv numeral_eq_Suc)
  have ne: "pk \<noteq> []" using assms(1) by auto
  have start: "exec e (replicate 12 (Op OP_TOALTSTACK)) (rev w @ st, []) = Some (st, w)"
    using assms(2) by (simp add: exec_save)
  show ?thesis
    unfolding covenant_ops_def exec_append start bind.bind_lunit
    using assms(1) ne
    by (auto simp: w replicate_save opcode_defs covenant_checks_def MAX_ELEMENT_def truth_def script_number_def
        from_le_def from_be_def truthy_def Let_def)
qed

lemma spends_covenant:
  assumes "build_equivocation_covenant pk = Inr script"
  shows "spends e script items \<longleftrightarrow>
    (\<exists>x w. items = x # w \<and> length w = 12 \<and> (\<forall>i \<in> set items. length i \<le> MAX_ELEMENT)
       \<and> truthy x \<and> covenant_checks e pk w)"
proof -
  have pk: "length pk = 32" using assms by (auto simp: build_equivocation_covenant_def split: if_splits)
  have parse: "parse_script script = Some (covenant_ops pk)"
    using covenant_parses [OF pk] assms by auto
  show ?thesis
  proof (cases "12 \<le> length items")
    case False
    then have "exec e (covenant_ops pk) (rev items, []) = None"
      unfolding covenant_ops_def exec_append by (simp add: exec_save)
    then show ?thesis using False by (auto simp: spends_def parse)
  next
    case True
    define n where "n = length items - 12"
    have split: "items = take n items @ drop n items" "length (drop n items) = 12"
      using True by (simp_all add: n_def)
    then have "rev items = rev (drop n items) @ rev (take n items)"
      by (metis rev_append)
    then have x: "exec e (covenant_ops pk) (rev items, [])
        = (if covenant_checks e pk (drop n items) then Some (rev (take n items), []) else None)"
      using exec_covenant [OF pk split(2), of e "rev (take n items)"] by simp
    show ?thesis
    proof
      assume sp: "spends e script items"
      then obtain y where y: "rev (take n items) = [y]" "truthy y" "covenant_checks e pk (drop n items)"
        by (auto simp: spends_def parse x split: if_splits list.splits)
      then have i: "items = y # drop n items" using split(1) by simp
      have "\<forall>i \<in> set items. length i \<le> MAX_ELEMENT" using sp by (simp add: spends_def stack_allowed_def)
      then show "\<exists>x w. items = x # w \<and> length w = 12 \<and> (\<forall>i \<in> set items. length i \<le> MAX_ELEMENT)
          \<and> truthy x \<and> covenant_checks e pk w"
        using i split(2) y(2,3) by blast
    next
      assume "\<exists>x w. items = x # w \<and> length w = 12 \<and> (\<forall>i \<in> set items. length i \<le> MAX_ELEMENT)
          \<and> truthy x \<and> covenant_checks e pk w"
      then obtain y w where "items = y # w" "length w = 12" "\<forall>i \<in> set items. length i \<le> MAX_ELEMENT"
        "truthy y" "covenant_checks e pk w" by blast
      then show "spends e script items"
        by (simp add: spends_def stack_allowed_def MAX_STACK_def parse exec_covenant [OF pk])
    qed
  qed
qed

lemma covenant_rejects_its_witness:
  assumes "build_equivocation_covenant pk = Inr script"
  shows "\<not> spends e script
    (butlast (build_equivocation_witness root_1 root_2 chain height bh_1 sr_1 sig_1 bh_2 sr_2 sig_2 script))"
  by (simp add: spends_covenant [OF assms] build_equivocation_witness_def Let_def)

text \<open>
  C25. The covenant leaf, exactly: it accepts a witness of thirteen items of at most 520 bytes each,
  the first of them true, whose fifth and tenth of the other twelve are signatures of the operator for the spending
  transaction itself, whose last two differ, and whose items before each signature fit in one
  preimage. So the operator alone can satisfy it, the
  attestation signatures and the two roots of the proof are never looked at, and the twelve-item
  witness built for a conviction is rejected whatever the evidence. The judge is Script_Spec, in
  which OP_CAT concatenates; under BIP-342 as it stands OP_CAT makes any witness succeed.
\<close>

theorem covenant_spend_iff:
  "case build_equivocation_covenant pk of
     Inl err \<Rightarrow> length pk \<noteq> 32
   | Inr script \<Rightarrow>
       (\<forall>items. spends e script items =
          (\<exists>x w. items = x # w \<and> length w = 12 \<and> list_all (\<lambda>i. length i \<le> MAX_ELEMENT) items
             \<and> truthy x \<and> covenant_checks e pk w))
     \<and> (\<forall>root_1 root_2 chain height bh_1 sr_1 sig_1 bh_2 sr_2 sig_2. \<not> spends e script
          (butlast (build_equivocation_witness root_1 root_2 chain height bh_1 sr_1 sig_1 bh_2 sr_2 sig_2 script)))"
proof (cases "build_equivocation_covenant pk")
  case (Inl err)
  then show ?thesis by (auto simp: build_equivocation_covenant_def Let_def split: if_splits)
next
  case (Inr script)
  then show ?thesis using spends_covenant [OF Inr] covenant_rejects_its_witness [OF Inr] by (simp add: list_all_iff)
qed

end
