(* ===== verification/L1_Scripts.thy ===== *)
theory L1_Scripts
  imports Covenants
begin

text \<open>
  packages/node/src/consensus/l1_scripts.rs: the tapscript trees of a bond and of a challenge,
  the OP_RETURN outputs, the number and length encodings below them and the softfork check at
  start-up. Scripts are byte lists; an error return is a value of l1_error. Of
  query_softfork_status the reading of the answer is here (read_softfork_status), the request in
  theory Node.
\<close>

section \<open>Encodings\<close>

definition OP_FALSE :: byte where "OP_FALSE = 0x00"

definition OP_CHECKSEQUENCEVERIFY :: byte where "OP_CHECKSEQUENCEVERIFY = 0xb2"

definition OP_RETURN :: byte where "OP_RETURN = 0x6a"

definition TAPROOT_LEAF_VERSION :: byte where "TAPROOT_LEAF_VERSION = 0xc0"

definition TAG_TAPLEAF :: bytes where "TAG_TAPLEAF = as_bytes ''TapLeaf''"

definition TAG_TAPBRANCH :: bytes where "TAG_TAPBRANCH = as_bytes ''TapBranch''"

definition TAG_TAPTWEAK :: bytes where "TAG_TAPTWEAK = as_bytes ''TapTweak''"

definition tagged_hash :: "libs \<Rightarrow> bytes \<Rightarrow> bytes \<Rightarrow> bytes" where
  "tagged_hash L tag d = (let tag_hash = sha256 L tag in sha256 L (tag_hash @ tag_hash @ d))"

definition hash160 :: "libs \<Rightarrow> bytes \<Rightarrow> bytes" where
  "hash160 L d = ripemd160 L (sha256 L d)"

definition push_minimal_uint :: "bytes \<Rightarrow> u64 \<Rightarrow> bytes" where
  "push_minimal_uint script v =
     (if v = 0 then script @ [0x00]
      else if v \<le> 16 then script @ [0x50 + ucast v]
      else if v \<le> 0xff then script @ [0x01, ucast v]
      else if v \<le> 0xffff then script @ [0x02] @ le_bytes 2 (unat v)
      else if v \<le> 0xffffff then script @ [0x03] @ take 3 (le_bytes 4 (unat v))
      else script @ [0x04] @ le_bytes 4 (unat v))"

definition push_size_compact :: "nat \<Rightarrow> bytes" where
  "push_size_compact len =
     (if len < 0xfd then [word_of_nat len]
      else if len \<le> 0xffff then 0xfd # le_bytes 2 len
      else if len \<le> 0xffffffff then 0xfe # le_bytes 4 len
      else 0xff # le_bytes 8 len)"

section \<open>The trees of the bond and of the challenge\<close>

record vault_config =
  vc_operator_pubkey :: bytes
  vc_challenger_pubkey :: bytes
  vc_unbond_delay :: u32
  vc_claim_delay :: u32
  vc_watcher_pubkeys :: "bytes list"
  vc_watcher_threshold :: u32

record challenge_utxo_config =
  cu_challenger_pubkey :: bytes
  cu_operator_pubkey :: bytes
  cu_claim_delay :: u32

record vault_script_tree =
  vt_operator_leaf :: bytes
  vt_challenge_leaf :: bytes
  vt_operator_pubkey :: bytes
  vt_challenger_pubkey :: bytes
  vt_num_watchers :: nat

record challenge_script_tree =
  ct_claim_leaf :: bytes
  ct_rebut_leaf :: bytes
  ct_challenger_pubkey :: bytes
  ct_operator_pubkey :: bytes

definition build_operator_unbond_leaf :: "bytes \<Rightarrow> u32 \<Rightarrow> l1_error + bytes" where
  "build_operator_unbond_leaf operator_pubkey unbond_delay =
     (if length operator_pubkey \<noteq> 32 then Inl OperatorKeyLength
      else Inr (push_minimal_uint [] (ucast unbond_delay) @ [OP_CHECKSEQUENCEVERIFY, OP_DROP]
                @ [32] @ operator_pubkey @ [OP_CHECKSIG]))"

definition build_covenant_challenge_leaf :: "bytes \<Rightarrow> l1_error + bytes" where
  "build_covenant_challenge_leaf operator_pubkey = build_equivocation_covenant operator_pubkey"

definition build_vault_script_tree :: "vault_config \<Rightarrow> l1_error + vault_script_tree" where
  "build_vault_script_tree config =
     (if length (vc_operator_pubkey config) \<noteq> 32 then Inl OperatorKeyLength
      else if length (vc_challenger_pubkey config) \<noteq> 32 then Inl ChallengerKeyLength
      else case build_operator_unbond_leaf (vc_operator_pubkey config) (vc_unbond_delay config) of
        Inl e \<Rightarrow> Inl e
      | Inr operator_leaf \<Rightarrow>
          (case build_covenant_challenge_leaf (vc_operator_pubkey config) of
             Inl e \<Rightarrow> Inl e
           | Inr challenge_leaf \<Rightarrow>
               Inr \<lparr>vt_operator_leaf = operator_leaf, vt_challenge_leaf = challenge_leaf,
                    vt_operator_pubkey = vc_operator_pubkey config,
                    vt_challenger_pubkey = vc_challenger_pubkey config, vt_num_watchers = 0\<rparr>))"

definition tapleaf_hash :: "libs \<Rightarrow> bytes \<Rightarrow> bytes" where
  "tapleaf_hash L script =
     tagged_hash L TAG_TAPLEAF ([TAPROOT_LEAF_VERSION] @ push_size_compact (length script) @ script)"

definition operator_leaf_hash :: "libs \<Rightarrow> vault_script_tree \<Rightarrow> bytes" where
  "operator_leaf_hash L t = tapleaf_hash L (vt_operator_leaf t)"

definition challenge_leaf_hash :: "libs \<Rightarrow> vault_script_tree \<Rightarrow> bytes" where
  "challenge_leaf_hash L t = tapleaf_hash L (vt_challenge_leaf t)"

definition tapbranch_hash :: "libs \<Rightarrow> bytes \<Rightarrow> bytes \<Rightarrow> bytes" where
  "tapbranch_hash L left right =
     (let (first, second) = if left < right then (left, right) else (right, left)
      in tagged_hash L TAG_TAPBRANCH (first @ second))"

definition vault_script_tree_root :: "libs \<Rightarrow> vault_script_tree \<Rightarrow> bytes" where
  "vault_script_tree_root L t = tapbranch_hash L (operator_leaf_hash L t) (challenge_leaf_hash L t)"

definition taproot_output :: "libs \<Rightarrow> bytes \<Rightarrow> bytes" where
  "taproot_output L merkle_root =
     (let internal_key = replicate 32 0;
          tweak = tagged_hash L TAG_TAPTWEAK (internal_key @ merkle_root)
      in [0x51, 32] @ take 32 tweak)"

definition vault_p2tr_output_script :: "libs \<Rightarrow> vault_script_tree \<Rightarrow> bytes" where
  "vault_p2tr_output_script L t = taproot_output L (vault_script_tree_root L t)"

definition covenant_witness_template :: "vault_script_tree \<Rightarrow> bytes \<Rightarrow> bytes \<Rightarrow> string \<Rightarrow> u64 \<Rightarrow> string \<Rightarrow> string
    \<Rightarrow> bytes \<Rightarrow> string \<Rightarrow> string \<Rightarrow> bytes \<Rightarrow> bytes list" where
  "covenant_witness_template t root_1 root_2 chain height block_hash_1 state_root_1 sig_1
     block_hash_2 state_root_2 sig_2 =
     build_equivocation_witness root_1 root_2 chain height block_hash_1 state_root_1 sig_1
       block_hash_2 state_root_2 sig_2 (vt_challenge_leaf t)"

definition committee_witness_template :: "vault_script_tree \<Rightarrow> bytes list \<Rightarrow> bytes list" where
  "committee_witness_template t signatures =
     rev (signatures @ replicate (vt_num_watchers t - length signatures) []) @ [vt_challenge_leaf t]"

definition build_challenge_claim_script_tree :: "challenge_utxo_config \<Rightarrow> l1_error + challenge_script_tree" where
  "build_challenge_claim_script_tree config =
     (if length (cu_challenger_pubkey config) \<noteq> 32 then Inl ChallengerKeyLength
      else if length (cu_operator_pubkey config) \<noteq> 32 then Inl OperatorKeyLength
      else
        (let claim_leaf = push_minimal_uint [] (ucast (cu_claim_delay config)) @ [OP_CHECKSEQUENCEVERIFY, OP_DROP]
               @ [32] @ cu_challenger_pubkey config @ [OP_CHECKSIG];
             rebut_leaf = [32] @ cu_operator_pubkey config @ [OP_CHECKSIG]
         in Inr \<lparr>ct_claim_leaf = claim_leaf, ct_rebut_leaf = rebut_leaf,
                 ct_challenger_pubkey = cu_challenger_pubkey config,
                 ct_operator_pubkey = cu_operator_pubkey config\<rparr>))"

definition claim_leaf_hash :: "libs \<Rightarrow> challenge_script_tree \<Rightarrow> bytes" where
  "claim_leaf_hash L t = tapleaf_hash L (ct_claim_leaf t)"

definition rebut_leaf_hash :: "libs \<Rightarrow> challenge_script_tree \<Rightarrow> bytes" where
  "rebut_leaf_hash L t = tapleaf_hash L (ct_rebut_leaf t)"

definition challenge_script_tree_root :: "libs \<Rightarrow> challenge_script_tree \<Rightarrow> bytes" where
  "challenge_script_tree_root L t = tapbranch_hash L (claim_leaf_hash L t) (rebut_leaf_hash L t)"

definition build_silence_escape_script :: "bytes \<Rightarrow> u32 \<Rightarrow> l1_error + bytes" where
  "build_silence_escape_script user_pubkey silence_delay =
     (if length user_pubkey \<noteq> 33 then Inl UserKeyLength
      else Inr (push_minimal_uint [] (ucast silence_delay) @ [OP_CHECKSEQUENCEVERIFY, OP_DROP]
                @ [32] @ drop 1 user_pubkey @ [OP_CHECKSIG]))"

section \<open>OP_RETURN and fee outputs\<close>

record seal_spend_proof =
  ss_object_id :: bytes
  ss_prev_seal :: bytes
  ss_new_seal :: bytes
  ss_state_hash :: bytes

definition build_seal_spend_output :: "seal_spend_proof \<Rightarrow> l1_error + bytes" where
  "build_seal_spend_output p =
     (if length (ss_object_id p) \<noteq> 32 then Inl ObjectIdLength
      else if length (ss_prev_seal p) \<noteq> 36 then Inl PrevSealLength
      else if length (ss_new_seal p) \<noteq> 36 then Inl NewSealLength
      else if length (ss_state_hash p) \<noteq> 32 then Inl StateHashLength
      else
        (let protocol = as_bytes ''utxovm:seal''
         in Inr ([OP_RETURN] @ [word_of_nat (length protocol)] @ protocol @ [0x20] @ ss_object_id p
                 @ [0x24] @ ss_prev_seal p @ [0x24] @ ss_new_seal p @ [0x20] @ ss_state_hash p)))"

text \<open>The loop over the consumed seals; it returns at the first seal of another length.\<close>

fun push_seals :: "bytes \<Rightarrow> bytes list \<Rightarrow> l1_error + bytes" where
  "push_seals script [] = Inr script"
| "push_seals script (seal # seals) =
     (if length seal \<noteq> 36 then Inl ConsumedSealLength else push_seals (script @ [0x24] @ seal) seals)"

definition build_batch_commitment_output :: "bytes \<Rightarrow> bytes list \<Rightarrow> u64 \<Rightarrow> bytes \<Rightarrow> l1_error + bytes" where
  "build_batch_commitment_output state_root consumed_seals total_fees operator_signature =
     (if length state_root \<noteq> 32 then Inl StateRootLength
      else
        (let protocol = as_bytes ''utxovm:batch'';
             script = push_minimal_uint ([OP_RETURN] @ [word_of_nat (length protocol)] @ protocol
               @ [0x20] @ state_root) (word_of_nat (length consumed_seals))
         in case push_seals script consumed_seals of
              Inl e \<Rightarrow> Inl e
            | Inr script' \<Rightarrow>
                if length operator_signature \<noteq> 65 then Inl OperatorSignatureLength
                else Inr (script' @ [0x08] @ u64_le total_fees @ [0x41] @ operator_signature)))"

definition build_indexer_fee_output :: "libs \<Rightarrow> bytes \<Rightarrow> u64 \<Rightarrow> l1_error + bytes" where
  "build_indexer_fee_output L indexer_pubkey fee_sats =
     (if length indexer_pubkey \<noteq> 33 then Inl IndexerKeyLength
      else (let pubkey_hash = hash160 L indexer_pubkey
            in Inr ([OP_FALSE] @ [word_of_nat (length pubkey_hash)] @ pubkey_hash)))"

section \<open>Softforks\<close>

record softfork_status =
  sf_csv_active :: bool
  sf_segwit_active :: bool
  sf_taproot_active :: bool
  sf_disabled_opcodes_active :: bool

definition assert_chain_supports_bonding :: "softfork_status \<Rightarrow> l1_error + unit" where
  "assert_chain_supports_bonding status =
     (if \<not> sf_csv_active status then Inl CsvInactive
      else if \<not> sf_taproot_active status then Inl TaprootInactive
      else if \<not> sf_disabled_opcodes_active status then Inl DisabledOpcodesInactive
      else Inr ())"

text \<open>
  The answer of getblockchaininfo as query_softfork_status reads it: the array "softforks", the
  object "deployments", and the block height where neither tells of the opcodes.
\<close>

definition json_flag :: "json \<Rightarrow> bool" where
  "json_flag j = or_default False (Option.bind (json_get j ''active'') json_as_bool)"

definition note_softfork :: "json \<Rightarrow> softfork_status \<Rightarrow> softfork_status" where
  "note_softfork sf st =
     (let name = or_default [] (json_get_str sf ''name''); active = json_flag sf in
      if name = ''csv'' then st\<lparr>sf_csv_active := active\<rparr>
      else if name = ''segwit'' then st\<lparr>sf_segwit_active := active\<rparr>
      else if name = ''taproot'' then st\<lparr>sf_taproot_active := active\<rparr>
      else if name = ''disabled_opcodes'' \<or> name = ''disabledopcodes'' \<or> name = ''reactivated_opcodes''
      then st\<lparr>sf_disabled_opcodes_active := active\<rparr>
      else st)"

definition deployed :: "json \<Rightarrow> string \<Rightarrow> bool" where
  "deployed j name =
     (case json_get j ''deployments'' of
        Some (JObject kvs) \<Rightarrow> (case map_of kvs name of Some d \<Rightarrow> json_flag d | None \<Rightarrow> False)
      | _ \<Rightarrow> False)"

definition read_softfork_status :: "json \<Rightarrow> softfork_status" where
  "read_softfork_status j =
     (let st = fold note_softfork (or_default [] (Option.bind (json_get j ''softforks'') json_as_array))
            \<lparr>sf_csv_active = False, sf_segwit_active = False, sf_taproot_active = False,
             sf_disabled_opcodes_active = False\<rparr>;
          opcodes = sf_disabled_opcodes_active st \<or> deployed j ''disabled_opcodes''
            \<or> deployed j ''disabledopcodes'' \<or> deployed j ''reactivated_opcodes''
      in \<lparr>sf_csv_active = sf_csv_active st \<or> deployed j ''csv'',
          sf_segwit_active = sf_segwit_active st \<or> deployed j ''segwit'',
          sf_taproot_active = sf_taproot_active st \<or> deployed j ''taproot'',
          sf_disabled_opcodes_active = opcodes
            \<or> (case Option.bind (json_get j ''blocks'') json_as_u64 of
                  Some height \<Rightarrow> 1155000 \<le> height
                | None \<Rightarrow> False)\<rparr>)"

text \<open>
  A JSON-RPC answer wraps what it returns in the field result; its own fields are result, error
  and id. On such an answer the reader finds nothing and bonding is refused on every chain.
\<close>

lemma rpc_envelope_refused:
  "assert_chain_supports_bonding
     (read_softfork_status (JObject [(''error'', JNull), (''id'', JString ''utxo-vm-startup''), (''result'', info)]))
   = Inl CsvInactive"
  by (simp add: read_softfork_status_def assert_chain_supports_bonding_def deployed_def Let_def)

section \<open>Numbers in scripts\<close>

text \<open>
  The delay a script reads back: as pushed while it is below the sign bit of its bytes, and
  otherwise its negation without that bit.
\<close>

definition sign_bit :: "nat \<Rightarrow> nat" where
  "sign_bit d = (if d < 256 then 2 ^ 7 else if d < 65536 then 2 ^ 15 else if d < 2 ^ 24 then 2 ^ 23 else 2 ^ 31)"

definition delay_read :: "nat \<Rightarrow> int" where
  "delay_read d = (if d < sign_bit d then int d else int (sign_bit d) - int d)"

lemma unat_ucast_byte: "v \<le> 0xff \<Longrightarrow> unat (ucast (v :: u64) :: byte) = unat v"
  by (simp add: unsigned_ucast_eq unsigned_take_bit_eq take_bit_eq_mod word_le_nat_alt)

lemma le_bytes_Suc: "le_bytes (Suc w) n = word_of_nat n # le_bytes w (n div 256)"
  by (simp add: le_bytes_def)

lemma le_bytes_0 [simp]: "le_bytes 0 n = []"
  by (simp add: le_bytes_def)

lemma take_le_bytes: "take 3 (le_bytes 4 n) = le_bytes 3 n"
proof -
  have "le_bytes 4 n = le_bytes (Suc (Suc (Suc (Suc 0)))) n" "le_bytes 3 n = le_bytes (Suc (Suc (Suc 0))) n"
    by (simp_all add: numeral_eq_Suc)
  then show ?thesis by (simp add: le_bytes_Suc)
qed

lemma script_number_le:
  assumes "0 < w" "n < 256 ^ w"
  shows "script_number (le_bytes w n) = (if n < 2 ^ (8 * w - 1) then int n else 2 ^ (8 * w - 1) - int n)"
proof -
  have "le_bytes w n \<noteq> []" using assms(1) by (metis length_0_conv length_le_bytes neq0_conv)
  moreover have "from_le (le_bytes w n) = n" using assms(2) by (simp add: from_le_le_bytes)
  moreover have "(2 :: int) ^ (8 * w - 1) \<le> int n \<longleftrightarrow> \<not> n < 2 ^ (8 * w - 1)"
    by (metis linorder_not_less of_nat_le_iff of_nat_numeral of_nat_power)
  ultimately show ?thesis by (simp add: script_number_def Let_def)
qed

lemma small_le: "unat v < 256 \<Longrightarrow> [ucast (v :: u64)] = le_bytes 1 (unat v)"
  by (simp add: le_bytes_Suc [of 0])

lemma read_minimal_uint:
  assumes "unat v < 2 ^ 32"
  shows "\<exists>p e. push_minimal_uint script v = script @ p \<and> (\<forall>r. read_op (p @ r) = Some (Push e, r))
    \<and> script_number e = delay_read (unat v) \<and> length e \<le> 4"
proof -
  have cmp: "v \<le> 16 \<longleftrightarrow> unat v \<le> 16" "v \<le> 0xff \<longleftrightarrow> unat v \<le> 255" "v \<le> 0xffff \<longleftrightarrow> unat v \<le> 65535"
    "v \<le> 0xffffff \<longleftrightarrow> unat v \<le> 16777215" "v = 0 \<longleftrightarrow> unat v = 0"
    by (simp_all add: word_le_nat_alt unat_eq_0)
  have num: "script_number (le_bytes w (unat v)) = delay_read (unat v)" "length (le_bytes w (unat v)) \<le> 4"
    if "sign_bit (unat v) = 2 ^ (8 * w - 1)" "0 < w" "w \<le> 4" "unat v < 256 ^ w" for w
    using that by (simp_all add: script_number_le delay_read_def)
  consider "v = 0" | "v \<noteq> 0" "unat v \<le> 16" | "16 < unat v" "unat v \<le> 255" | "255 < unat v" "unat v \<le> 65535"
    | "65535 < unat v" "unat v \<le> 16777215" | "16777215 < unat v"
    by linarith
  then show ?thesis
  proof cases
    case 1
    then show ?thesis
      by (intro exI [of _ "[0]"] exI [of _ "[]"])
        (simp add: push_minimal_uint_def pushed_def script_number_def delay_read_def sign_bit_def)
  next
    case 2
    have u: "unat (ucast v :: byte) = unat v" using 2 cmp by (intro unat_ucast_byte) simp
    then have "unat (80 + ucast v :: byte) = 80 + unat v" using 2 by (simp add: unat_word_ariths)
    moreover have "script_number [ucast v] = delay_read (unat v)"
      using num [of 1] 2 small_le [of v] by (simp add: sign_bit_def)
    moreover have "0 < unat v" using 2 cmp by simp
    ultimately show ?thesis using 2 cmp
      by (intro exI [of _ "[0x50 + ucast v]"] exI [of _ "[ucast v]"]) (simp add: push_minimal_uint_def)
  next
    case 3
    then show ?thesis using cmp num [of 1] small_le [of v]
      by (intro exI [of _ "[1, ucast v]"] exI [of _ "[ucast v]"])
        (simp add: push_minimal_uint_def pushed_def sign_bit_def)
  next
    case 4
    then show ?thesis using cmp num [of 2]
      by (intro exI [of _ "2 # le_bytes 2 (unat v)"] exI [of _ "le_bytes 2 (unat v)"])
        (simp add: push_minimal_uint_def pushed_def sign_bit_def)
  next
    case 5
    then show ?thesis using cmp num [of 3]
      by (intro exI [of _ "3 # le_bytes 3 (unat v)"] exI [of _ "le_bytes 3 (unat v)"])
        (simp add: push_minimal_uint_def pushed_def sign_bit_def take_le_bytes)
  next
    case 6
    then show ?thesis using assms cmp num [of 4]
      by (intro exI [of _ "4 # le_bytes 4 (unat v)"] exI [of _ "le_bytes 4 (unat v)"])
        (simp add: push_minimal_uint_def pushed_def sign_bit_def)
  qed
qed

section \<open>What the time-locked leaves accept\<close>

definition timelock_leaf :: "bytes \<Rightarrow> u32 \<Rightarrow> bytes" where
  "timelock_leaf key delay =
     push_minimal_uint [] (ucast delay) @ [OP_CHECKSEQUENCEVERIFY, OP_DROP] @ [32] @ key @ [OP_CHECKSIG]"

text \<open>The condition: one signature by the key, and the lock that the pushed delay reads as.\<close>

definition timelock_met :: "script_env \<Rightarrow> bytes \<Rightarrow> nat \<Rightarrow> bytes list \<Rightarrow> bool" where
  "timelock_met e key d items \<longleftrightarrow> (\<exists>sig. items = [sig] \<and> sig \<noteq> [] \<and> length sig \<le> MAX_ELEMENT \<and> env_checksig e key sig)
     \<and> (d < sign_bit d \<and> env_csv e (int d) \<or> d = sign_bit d \<and> env_csv e 0)"

lemma unat_u32_u64: "unat (ucast (d :: u32) :: u64) = unat d" "unat d < 2 ^ 32"
  using unsigned_less [of d, where ?'a = nat] by (simp_all add: unsigned_ucast_eq unsigned_take_bit_eq take_bit_eq_mod)

lemma sign_bit_bound: "sign_bit d \<le> 2 ^ 31" "0 < sign_bit d"
  by (simp_all add: sign_bit_def)

lemma check_sequence_delay:
  assumes "script_number x = delay_read d" "length x \<le> 4"
  shows "check_sequence e x \<longleftrightarrow> d < sign_bit d \<and> env_csv e (int d) \<or> d = sign_bit d \<and> env_csv e 0"
proof (cases "d < sign_bit d")
  case True
  then have "int d < 2 ^ 31" using sign_bit_bound(1) [of d] by (simp add: sign_bit_def split: if_splits)
  then have "int d div 2 ^ 31 = 0" by simp
  with True assms show ?thesis by (simp add: check_sequence_def delay_read_def)
next
  case False
  with assms show ?thesis by (auto simp: check_sequence_def delay_read_def Let_def)
qed

lemma timelock_spends:
  assumes key: "length key = 32"
  shows "spends e (timelock_leaf key delay) items \<longleftrightarrow> timelock_met e key (unat delay) items"
proof -
  obtain p x where p: "push_minimal_uint [] (ucast delay) = [] @ p" "\<forall>r. read_op (p @ r) = Some (Push x, r)"
    and x: "script_number x = delay_read (unat delay)" "length x \<le> 4"
    using read_minimal_uint [of "ucast delay" "[]"] unat_u32_u64 [of delay] by auto
  have k: "parse_script (32 # key @ r) = map_option ((#) (Push key)) (parse_script r)" for r
    using parse_data [of key r] key by simp
  have "timelock_leaf key delay = p @ ([OP_CHECKSEQUENCEVERIFY, OP_DROP] @ 32 # key @ [OP_CHECKSIG])"
    using p(1) by (simp add: timelock_leaf_def)
  moreover have "parse_script (p @ ([OP_CHECKSEQUENCEVERIFY, OP_DROP] @ 32 # key @ [OP_CHECKSIG]))
      = map_option ((#) (Push x)) (parse_script ([OP_CHECKSEQUENCEVERIFY, OP_DROP] @ 32 # key @ [OP_CHECKSIG]))"
    using p(2) by (intro parse_read) blast
  ultimately have parse: "parse_script (timelock_leaf key delay)
      = Some [Push x, Op OP_CHECKSEQUENCEVERIFY, Op OP_DROP, Push key, Op OP_CHECKSIG]"
    by (simp add: parse_op k opcode_defs OP_CHECKSEQUENCEVERIFY_def)
  have run: "exec e [Push x, Op OP_CHECKSEQUENCEVERIFY, Op OP_DROP, Push key, Op OP_CHECKSIG] (st, [])
      = (if check_sequence e x then
           (case st of sig # st' \<Rightarrow> map_option (\<lambda>ok. (truth ok # st', [])) (check_sig e key sig) | [] \<Rightarrow> None)
         else None)" for st
    using x(2) key by (auto simp: opcode_defs OP_CHECKSEQUENCEVERIFY_def MAX_ELEMENT_def split: list.split option.split)
  have ne: "key \<noteq> []" using key by auto
  show ?thesis
    unfolding spends_def parse run option.case timelock_met_def check_sequence_delay [OF x, symmetric]
    using key ne by (cases items rule: rev_cases)
      (auto simp: check_sig_def stack_allowed_def MAX_STACK_def split: list.splits option.splits if_splits)
qed

lemma rebut_spends:
  assumes key: "length key = 32"
  shows "spends e ([32] @ key @ [OP_CHECKSIG]) items \<longleftrightarrow>
    (\<exists>sig. items = [sig] \<and> sig \<noteq> [] \<and> length sig \<le> MAX_ELEMENT \<and> env_checksig e key sig)"
proof -
  have parse: "parse_script ([32] @ key @ [OP_CHECKSIG]) = Some [Push key, Op OP_CHECKSIG]"
    using parse_data [of key "[OP_CHECKSIG]"] key by (simp add: parse_op OP_CHECKSIG_def)
  have run: "exec e [Push key, Op OP_CHECKSIG] (st, [])
      = (case st of sig # st' \<Rightarrow> map_option (\<lambda>ok. (truth ok # st', [])) (check_sig e key sig) | [] \<Rightarrow> None)" for st
    using key by (auto simp: OP_CHECKSIG_def MAX_ELEMENT_def split: list.split option.split)
  have ne: "key \<noteq> []" using key by auto
  show ?thesis
    unfolding spends_def parse run option.case using key ne
    by (cases items rule: rev_cases) (auto simp: check_sig_def stack_allowed_def MAX_STACK_def split: list.splits option.splits if_splits)
qed

text \<open>
  C26. The time-locked leaves of a bond, a challenge and a silent exit, exactly: each takes one
  valid signature by its key after a relative lock. The lock is the configured delay only while
  that is below the sign bit of its bytes; at the sign bit it is no lock at all, and above it the
  number is negative and nobody can ever spend the leaf.
\<close>

theorem timelocked_leaves:
  "(case build_operator_unbond_leaf key d of
      Inl err \<Rightarrow> length key \<noteq> 32
    | Inr leaf \<Rightarrow> \<forall>items. spends e leaf items = timelock_met e key (unat d) items)
   \<and> (case build_silence_escape_script user d of
        Inl err \<Rightarrow> length user \<noteq> 33
      | Inr leaf \<Rightarrow> \<forall>items. spends e leaf items = timelock_met e (drop 1 user) (unat d) items)
   \<and> (case build_challenge_claim_script_tree config of
        Inl err \<Rightarrow> \<not> (length (cu_challenger_pubkey config) = 32 \<and> length (cu_operator_pubkey config) = 32)
      | Inr t \<Rightarrow>
          (\<forall>items. spends e (ct_claim_leaf t) items
             = timelock_met e (cu_challenger_pubkey config) (unat (cu_claim_delay config)) items)
        \<and> (\<forall>items. spends e (ct_rebut_leaf t) items
             = (\<exists>sig. items = [sig] \<and> sig \<noteq> [] \<and> length sig \<le> MAX_ELEMENT
                  \<and> env_checksig e (cu_operator_pubkey config) sig)))"
  by (simp add: build_operator_unbond_leaf_def build_silence_escape_script_def build_challenge_claim_script_tree_def
      timelock_spends [unfolded timelock_leaf_def, simplified] rebut_spends [simplified] Let_def)

text \<open>The claim delay of one day, 144 blocks, is beyond its sign bit.\<close>

lemma claim_delay_144_unspendable: "\<not> timelock_met e key 144 items"
  by (simp add: timelock_met_def sign_bit_def)

section \<open>The trees commit to their leaves\<close>

interpretation compact_code: prefix_code push_size_compact "\<lambda>n. n < 2 ^ 64"
proof unfold_locales
  have u: "unat (word_of_nat n :: byte) = n" if "n < 253" for n
    using that by (intro of_nat_inverse [OF refl]) simp
  have code: "\<exists>p. push_size_compact n = p \<and> p \<noteq> []
      \<and> length p = (if unat (hd p) < 253 then 1 else if unat (hd p) = 253 then 3 else if unat (hd p) = 254 then 5 else 9)
      \<and> n = (if unat (hd p) < 253 then unat (hd p) else from_le (tl p))" if "n < 2 ^ 64" for n
    using that u [of n] by (auto simp: push_size_compact_def from_le_le_bytes)
  show "x = y \<and> r = s" if wf: "x < 2 ^ 64" "y < 2 ^ 64" and eq: "push_size_compact x @ r = push_size_compact y @ s"
    for x y r s
  proof -
    from code [OF wf(1)] code [OF wf(2)] eq
    have h: "hd (push_size_compact x) = hd (push_size_compact y)" by (metis hd_append2)
    then have "length (push_size_compact x) = length (push_size_compact y)"
      using code [OF wf(1)] code [OF wf(2)] by auto
    then have "push_size_compact x = push_size_compact y" "r = s" using eq by simp_all
    then show ?thesis using code [OF wf(1)] code [OF wf(2)] by simp
  qed
qed

text \<open>The byte strings that are hashed on the way from a leaf to the root of its tree.\<close>

definition tagged_input :: "libs \<Rightarrow> bytes \<Rightarrow> bytes \<Rightarrow> bytes" where
  "tagged_input L tag d = sha256 L tag @ sha256 L tag @ d"

definition leaf_hash_input :: "libs \<Rightarrow> bytes \<Rightarrow> bytes" where
  "leaf_hash_input L script =
     tagged_input L TAG_TAPLEAF ([TAPROOT_LEAF_VERSION] @ push_size_compact (length script) @ script)"

definition branch_hash_input :: "libs \<Rightarrow> bytes \<Rightarrow> bytes \<Rightarrow> bytes" where
  "branch_hash_input L a b = tagged_input L TAG_TAPBRANCH (min a b @ max a b)"

definition collides :: "libs \<Rightarrow> bytes set \<Rightarrow> bool" where
  "collides L S \<longleftrightarrow> (\<exists>a \<in> S. \<exists>b \<in> S. a \<noteq> b \<and> sha256 L a = sha256 L b)"

lemma collides_eq: "\<not> collides L S \<Longrightarrow> a \<in> S \<Longrightarrow> b \<in> S \<Longrightarrow> sha256 L a = sha256 L b \<Longrightarrow> a = b"
  by (auto simp: collides_def)

lemma tapleaf_input: "tapleaf_hash L s = sha256 L (leaf_hash_input L s)"
  by (simp add: tapleaf_hash_def tagged_hash_def leaf_hash_input_def tagged_input_def Let_def)

lemma tapbranch_input: "tapbranch_hash L a b = sha256 L (branch_hash_input L a b)"
  by (cases a b rule: linorder_cases)
    (auto simp: tapbranch_hash_def tagged_hash_def branch_hash_input_def tagged_input_def Let_def dest: order.asym)

lemma tapleaf_input_inj:
  "leaf_hash_input L s = leaf_hash_input L t \<Longrightarrow> length s < 2 ^ 64 \<Longrightarrow> length t < 2 ^ 64 \<Longrightarrow> s = t"
  using compact_code.rest_cancel [of "length s" "length t" s t]
  by (simp add: leaf_hash_input_def tagged_input_def)

text \<open>The tree of two leaves, as the roots of both kinds of trees are built.\<close>

definition pair_root :: "libs \<Rightarrow> bytes \<Rightarrow> bytes \<Rightarrow> bytes" where
  "pair_root L s t = tapbranch_hash L (tapleaf_hash L s) (tapleaf_hash L t)"

definition pair_inputs :: "libs \<Rightarrow> bytes \<Rightarrow> bytes \<Rightarrow> bytes set" where
  "pair_inputs L s t = {leaf_hash_input L s, leaf_hash_input L t,
     branch_hash_input L (tapleaf_hash L s) (tapleaf_hash L t)}"

lemma min_max_pair: "{a, b} = {min a b, max a (b :: 'a :: linorder)}"
  by (cases "a \<le> b") auto

lemma pair_root_commits:
  assumes len: "sha256_len L" and short: "\<forall>x \<in> {s, t, s', t'}. length x < 2 ^ 64"
    and eq: "pair_root L s t = pair_root L s' t'"
    and nc: "\<not> collides L (pair_inputs L s t \<union> pair_inputs L s' t')"
  shows "{s, t} = {s', t'}"
proof -
  have l: "length (tapleaf_hash L x) = 32" for x using len by (simp add: tapleaf_input sha256_len_def)
  let ?h = "tapleaf_hash L"
  have "branch_hash_input L (?h s) (?h t) = branch_hash_input L (?h s') (?h t')"
    by (rule collides_eq [OF nc]) (use eq in \<open>simp_all add: pair_inputs_def pair_root_def tapbranch_input\<close>)
  moreover have "length (min (?h x) (?h y)) = 32" for x y using l by (simp add: min_def)
  ultimately have "min (?h s) (?h t) = min (?h s') (?h t')" "max (?h s) (?h t) = max (?h s') (?h t')"
    by (simp_all add: branch_hash_input_def tagged_input_def append_eq_append_conv)
  then have "{?h s, ?h t} = {?h s', ?h t'}" by (metis min_max_pair)
  then have hs: "?h s = ?h s' \<and> ?h t = ?h t' \<or> ?h s = ?h t' \<and> ?h t = ?h s'"
    by (simp only: doubleton_eq_iff)
  have inj: "x = y" if "x \<in> {s, t}" "y \<in> {s', t'}" "?h x = ?h y" for x y
  proof -
    have "leaf_hash_input L x = leaf_hash_input L y"
      by (rule collides_eq [OF nc]) (use that in \<open>auto simp: pair_inputs_def tapleaf_input\<close>)
    then show "x = y" by (rule tapleaf_input_inj) (use short that(1,2) in blast)+
  qed
  from hs show ?thesis
  proof (elim disjE conjE)
    assume "?h s = ?h s'" "?h t = ?h t'"
    then have "s = s'" and "t = t'" using inj [of s s'] inj [of t t'] by blast+
    then show ?thesis by simp
  next
    assume "?h s = ?h t'" "?h t = ?h s'"
    then have "s = t'" and "t = s'" using inj [of s t'] inj [of t s'] by blast+
    then show ?thesis by (simp add: insert_commute)
  qed
qed

lemma pair_root_swap: "pair_root L s t = pair_root L t s"
  by (simp add: pair_root_def tapbranch_input branch_hash_input_def min.commute max.commute)

text \<open>
  The root of a bond's or a challenge's script tree commits to both leaves: two trees with
  the same root have the same leaves, up to their order, unless two of the byte strings hashed for
  them collide. The order itself is not committed to.
\<close>

theorem script_trees_commit:
  assumes "sha256_len L"
    and "\<forall>x \<in> {vt_operator_leaf t, vt_challenge_leaf t, ct_claim_leaf u, ct_rebut_leaf u}. length x < 2 ^ 64"
    and "\<forall>x \<in> {vt_operator_leaf t', vt_challenge_leaf t', ct_claim_leaf u', ct_rebut_leaf u'}. length x < 2 ^ 64"
  shows "(vault_script_tree_root L t = vault_script_tree_root L t'
     \<and> \<not> collides L (pair_inputs L (vt_operator_leaf t) (vt_challenge_leaf t)
          \<union> pair_inputs L (vt_operator_leaf t') (vt_challenge_leaf t'))
     \<longrightarrow> {vt_operator_leaf t, vt_challenge_leaf t} = {vt_operator_leaf t', vt_challenge_leaf t'})
   \<and> (challenge_script_tree_root L u = challenge_script_tree_root L u'
     \<and> \<not> collides L (pair_inputs L (ct_claim_leaf u) (ct_rebut_leaf u)
          \<union> pair_inputs L (ct_claim_leaf u') (ct_rebut_leaf u'))
     \<longrightarrow> {ct_claim_leaf u, ct_rebut_leaf u} = {ct_claim_leaf u', ct_rebut_leaf u'})"
proof -
  have "vault_script_tree_root L t = pair_root L (vt_operator_leaf t) (vt_challenge_leaf t)" for t
    by (simp add: vault_script_tree_root_def operator_leaf_hash_def challenge_leaf_hash_def pair_root_def)
  moreover have "challenge_script_tree_root L u = pair_root L (ct_claim_leaf u) (ct_rebut_leaf u)" for u
    by (simp add: challenge_script_tree_root_def claim_leaf_hash_def rebut_leaf_hash_def pair_root_def)
  moreover have "{s, s'} = {r, r'}" if "pair_root L s s' = pair_root L r r'"
    "\<not> collides L (pair_inputs L s s' \<union> pair_inputs L r r')" "length s < 2 ^ 64" "length s' < 2 ^ 64"
    "length r < 2 ^ 64" "length r' < 2 ^ 64" for s s' r r'
    by (rule pair_root_commits [OF assms(1) _ that(1,2)]) (use that(3-6) in simp)
  ultimately show ?thesis using assms(2,3) by simp
qed

definition demo_tree :: "bytes \<Rightarrow> bytes \<Rightarrow> vault_script_tree" where
  "demo_tree a b = \<lparr>vt_operator_leaf = a, vt_challenge_leaf = b, vt_operator_pubkey = [],
     vt_challenger_pubkey = [], vt_num_watchers = 0\<rparr>"

text \<open>A hash that separates the inputs of these small trees: the length and the last 31 bytes.\<close>

definition demo_mix :: libs where
  "demo_mix = demo_libs\<lparr>sha256 := (\<lambda>x. word_of_nat (length x) # drop (length x) (replicate 31 0 @ x))\<rparr>"

lemma demo_mix_len: "sha256_len demo_mix"
  by (auto simp: demo_mix_def sha256_len_def)

definition demo_claim :: "bytes \<Rightarrow> bytes \<Rightarrow> challenge_script_tree" where
  "demo_claim a b = \<lparr>ct_claim_leaf = a, ct_rebut_leaf = b, ct_challenger_pubkey = [], ct_operator_pubkey = []\<rparr>"

lemma demo_no_collision: "\<not> collides demo_mix (pair_inputs demo_mix [1] [2] \<union> pair_inputs demo_mix [1] [3])"
  by code_simp

lemma script_trees_commit_witness:
  "vault_script_tree_root demo_mix (demo_tree [1] [2]) \<noteq> vault_script_tree_root demo_mix (demo_tree [1] [3])
   \<and> challenge_script_tree_root demo_mix (demo_claim [1] [2]) \<noteq> challenge_script_tree_root demo_mix (demo_claim [1] [3])"
proof -
  have "{[1], [2 :: byte]} \<noteq> {[1], [3]}" by (simp add: doubleton_eq_iff)
  then show ?thesis
    using script_trees_commit [of demo_mix "demo_tree [1] [2]" "demo_claim [1] [2]" "demo_tree [1] [3]" "demo_claim [1] [3]"]
      demo_mix_len demo_no_collision
    by (simp add: demo_tree_def demo_claim_def)
qed

section \<open>Outputs\<close>

text \<open>
  The OP_RETURN outputs read back push by push, so each determines the data it was built from.
\<close>

lemma parse_push_data:
  assumes "length d = unat b" "unat b \<le> 75"
  shows "parse_script (b # d @ r) = map_option ((#) (Push d)) (parse_script r)"
proof -
  have "b = word_of_nat (length d)" using assms(1) by simp
  then show ?thesis using parse_data [of d r] assms by simp
qed

lemmas parse_pushes = parse_push_data [where b = 8] parse_push_data [where b = 11] parse_push_data [where b = 12]
  parse_push_data [where b = 32] parse_push_data [where b = 36] parse_push_data [where b = 65]

lemma parse_return: "parse_script (OP_RETURN # r) = map_option ((#) (Op OP_RETURN)) (parse_script r)"
  by (rule parse_op) (simp add: OP_RETURN_def)

lemma tags: "length (as_bytes ''utxovm:seal'') = 11" "length (as_bytes ''utxovm:batch'') = 12"
  by (simp_all add: as_bytes_def)

lemma seal_output_parses:
  assumes "build_seal_spend_output p = Inr script"
  shows "parse_script script = Some [Op OP_RETURN, Push (as_bytes ''utxovm:seal''), Push (ss_object_id p),
    Push (ss_prev_seal p), Push (ss_new_seal p), Push (ss_state_hash p)]"
proof -
  have len: "length (ss_object_id p) = 32" "length (ss_prev_seal p) = 36" "length (ss_new_seal p) = 36"
    "length (ss_state_hash p) = 32"
    using assms by (auto simp: build_seal_spend_output_def Let_def split: if_splits)
  then have "script = OP_RETURN # 11 # as_bytes ''utxovm:seal'' @ 32 # ss_object_id p @ 36 # ss_prev_seal p
      @ 36 # ss_new_seal p @ 32 # ss_state_hash p @ []"
    using assms by (simp add: build_seal_spend_output_def Let_def tags)
  then show ?thesis using len tags
    by (simp add: parse_return parse_pushes del: append_Nil2)
qed

lemma push_seals_parse:
  "push_seals script seals = Inr script' \<Longrightarrow>
    \<exists>p. script' = script @ p \<and> (\<forall>r. parse_script (p @ r) = map_option ((@) (map Push seals)) (parse_script r))
      \<and> (\<forall>s \<in> set seals. length s = 36)"
proof (induction script seals rule: push_seals.induct)
  case (1 script)
  then show ?case by (simp add: option.map_ident)
next
  case (2 script seal seals)
  then have len: "length seal = 36" by (auto split: if_splits)
  with 2 obtain p where p: "script' = script @ [0x24] @ seal @ p"
    and parse: "\<And>r. parse_script (p @ r) = map_option ((@) (map Push seals)) (parse_script r)"
    and rest: "\<forall>s \<in> set seals. length s = 36" by auto
  have "parse_script (([0x24] @ seal @ p) @ r) = map_option ((@) (map Push (seal # seals))) (parse_script r)" for r
    using parse_pushes(5) [of seal "p @ r"] len
    by (cases "parse_script r") (simp_all add: parse)
  with p rest len show ?case
    by (intro exI [of _ "[0x24] @ seal @ p"] conjI allI) (simp_all add: map_option_case split: option.split)
qed

lemma batch_output_parses:
  assumes "build_batch_commitment_output root seals fees sig = Inr script" "length seals < 2 ^ 32"
  shows "\<exists>n. script_number n = delay_read (length seals) \<and> parse_script script =
    Some ([Op OP_RETURN, Push (as_bytes ''utxovm:batch''), Push root, Push n] @ map Push seals
      @ [Push (u64_le fees), Push sig])"
proof -
  let ?pre = "OP_RETURN # 12 # as_bytes ''utxovm:batch'' @ 32 # root"
  have count: "unat (word_of_nat (length seals) :: u64) = length seals"
    using assms(2) by (intro of_nat_inverse [OF refl]) simp
  then obtain p n where p: "push_minimal_uint ?pre (word_of_nat (length seals)) = ?pre @ p"
    "\<And>r. read_op (p @ r) = Some (Push n, r)" "script_number n = delay_read (length seals)"
    using read_minimal_uint [of "word_of_nat (length seals)" ?pre] assms(2) by auto
  have len: "length root = 32" "length sig = 65"
    using assms(1) by (auto simp: build_batch_commitment_output_def Let_def split: if_splits sum.splits)
  from assms(1) obtain s where s: "push_seals (?pre @ p) seals = Inr s"
    and script: "script = s @ 8 # u64_le fees @ 65 # sig"
    using p(1) len by (auto simp: build_batch_commitment_output_def Let_def tags split: sum.splits)
  from push_seals_parse [OF s] obtain q where q: "s = (?pre @ p) @ q"
    "\<And>r. parse_script (q @ r) = map_option ((@) (map Push seals)) (parse_script r)" by blast
  have "script = OP_RETURN # 12 # as_bytes ''utxovm:batch'' @ 32 # root @ p @ q @ 8 # u64_le fees @ 65 # sig @ []"
    using script q(1) by simp
  moreover have "parse_script (p @ r) = map_option ((#) (Push n)) (parse_script r)" for r
    by (rule parse_read) (rule p(2))
  ultimately have "parse_script script = Some ([Op OP_RETURN, Push (as_bytes ''utxovm:batch''), Push root, Push n]
      @ map Push seals @ [Push (u64_le fees), Push sig])"
    using len tags by (simp add: parse_return parse_pushes q(2) del: append_Nil2)
  with p(3) show ?thesis by blast
qed

end
