(* ===== verification/Challenge.thy ===== *)
theory Challenge
  imports L1_Scripts
begin

text \<open>
  packages/node/src/consensus/challenge.rs: building the transaction that challenges a bond after
  an equivocation. The theorems say exactly when it is built and what is in it, and
  that its witness can never satisfy the bond it spends. Posting it to the explorer
  (submit_challenge) is in theory Node, which has the client of the explorer.
\<close>

section \<open>Data\<close>

record challenge_input =
  ci_bond_txid :: string
  ci_bond_vout :: u32
  ci_bond_amount :: u64

record challenge_output =
  co_script_pubkey :: bytes
  co_amount :: u64

record challenge_evidence =
  ce_claimed_root :: bytes
  ce_correct_root :: bytes
  ce_operator_pubkey :: bytes
  ce_chain :: string
  ce_block_height :: u64

record challenge_transaction =
  cx_raw_hex :: string
  cx_challenge_output :: challenge_output
  cx_evidence_output :: bytes
  cx_fee :: u64

datatype challenge_error =
    EquivocationRejected
  | ScriptError l1_error
  | ClaimedRootLength | CorrectRootLength | EvidenceKeyLength | ChainNameTooLong
  | InvalidOperatorHex | InvalidSig1Hex | InvalidSig2Hex
  | BondBelowFee u64 u64
  | InvalidTxidHex | TxidLength nat

section \<open>Operations\<close>

definition build_evidence_output :: "challenge_evidence \<Rightarrow> challenge_error + bytes" where
  "build_evidence_output ev =
     (if length (ce_claimed_root ev) \<noteq> 32 then Inl ClaimedRootLength
      else if length (ce_correct_root ev) \<noteq> 32 then Inl CorrectRootLength
      else if length (ce_operator_pubkey ev) \<noteq> 32 then Inl EvidenceKeyLength
      else
        (let tag = as_bytes ''utxovm:challenge'';
             script = [OP_RETURN] @ [word_of_nat (length tag)] @ tag @ [0x20] @ ce_claimed_root ev
               @ [0x20] @ ce_correct_root ev @ [0x20] @ ce_operator_pubkey ev;
             chain_bytes = as_bytes (ce_chain ev)
         in if 64 < length chain_bytes then Inl ChainNameTooLong
            else Inr (script @ [word_of_nat (length chain_bytes)] @ chain_bytes
                      @ [0x08] @ u64_le (ce_block_height ev))))"

definition challenge_tree_p2tr_script :: "libs \<Rightarrow> challenge_script_tree \<Rightarrow> bytes" where
  "challenge_tree_p2tr_script L t = taproot_output L (challenge_script_tree_root L t)"

definition pad_to_32 :: "bytes \<Rightarrow> bytes" where
  "pad_to_32 d =
     (if length d = 32 then d
      else if 32 < length d then take 32 d
      else d @ replicate (32 - length d) 0)"

definition decode_or_hash :: "libs \<Rightarrow> string \<Rightarrow> bytes" where
  "decode_or_hash L s =
     (case hex_decode L s of
        Some d \<Rightarrow> pad_to_32 d
      | None \<Rightarrow> sha256 L (as_bytes s))"

definition witness_bytes :: "bytes list \<Rightarrow> bytes" where
  "witness_bytes w = word_of_nat (length w) # concat (map (\<lambda>item. word_of_nat (length item) # item) w)"

definition serialize_challenge_tx :: "libs \<Rightarrow> challenge_input \<Rightarrow> bytes \<Rightarrow> u64 \<Rightarrow> bytes \<Rightarrow> bytes list
    \<Rightarrow> challenge_error + string" where
  "serialize_challenge_tx L input challenge_script challenge_amount evidence_script w =
     (case hex_decode L (ci_bond_txid input) of
        None \<Rightarrow> Inl InvalidTxidHex
      | Some txid_bytes \<Rightarrow>
          if length txid_bytes \<noteq> 32 then Inl (TxidLength (length txid_bytes))
          else Inr (hex_encode L
            (u32_le 2 @ [1] @ rev txid_bytes @ u32_le (ci_bond_vout input) @ [0] @ u32_le 0xFFFFFFFD @ [2]
             @ u64_le challenge_amount @ [word_of_nat (length challenge_script)] @ challenge_script
             @ u64_le 0 @ [word_of_nat (length evidence_script)] @ evidence_script
             @ witness_bytes w @ u32_le 0)))"

definition challenge_witness :: "libs \<Rightarrow> vault_script_tree \<Rightarrow> equivocation_proof \<Rightarrow> bytes \<Rightarrow> bytes \<Rightarrow> bytes list" where
  "challenge_witness L vault_tree p sig_1 sig_2 =
     covenant_witness_template vault_tree
       (pad_to_32 (decode_or_hash L (att_state_root (eqv_first_attestation p))))
       (pad_to_32 (decode_or_hash L (att_state_root (eqv_second_attestation p))))
       (eqv_chain p) (eqv_block_height p)
       (att_block_hash (eqv_first_attestation p)) (att_state_root (eqv_first_attestation p)) sig_1
       (att_block_hash (eqv_second_attestation p)) (att_state_root (eqv_second_attestation p)) sig_2"

definition evidence_of :: "libs \<Rightarrow> equivocation_proof \<Rightarrow> bytes \<Rightarrow> challenge_evidence" where
  "evidence_of L p operator_pubkey =
     \<lparr>ce_claimed_root = pad_to_32 (decode_or_hash L (att_state_root (eqv_first_attestation p))),
      ce_correct_root = pad_to_32 (decode_or_hash L (att_state_root (eqv_second_attestation p))),
      ce_operator_pubkey = operator_pubkey, ce_chain = eqv_chain p, ce_block_height = eqv_block_height p\<rparr>"

definition build_challenge_transaction :: "libs \<Rightarrow> equivocation_proof \<Rightarrow> challenge_input \<Rightarrow> vault_config \<Rightarrow> u64
    \<Rightarrow> challenge_error + challenge_transaction" where
  "build_challenge_transaction L p input config miner_fee =
     (if \<not> verify_equivocation_proof L p then Inl EquivocationRejected
      else case build_vault_script_tree config of
        Inl e \<Rightarrow> Inl (ScriptError e)
      | Inr vault_tree \<Rightarrow>
      (case build_challenge_claim_script_tree
              \<lparr>cu_challenger_pubkey = vc_challenger_pubkey config,
               cu_operator_pubkey = vc_operator_pubkey config, cu_claim_delay = vc_claim_delay config\<rparr> of
        Inl e \<Rightarrow> Inl (ScriptError e)
      | Inr challenge_tree \<Rightarrow>
      (let challenge_script = challenge_tree_p2tr_script L challenge_tree in
       case hex_decode L (eqv_validator_pubkey p) of
        None \<Rightarrow> Inl InvalidOperatorHex
      | Some operator_pubkey \<Rightarrow>
      (case build_evidence_output (evidence_of L p operator_pubkey) of
        Inl e \<Rightarrow> Inl e
      | Inr evidence_output \<Rightarrow>
          if ci_bond_amount input < miner_fee then Inl (BondBelowFee (ci_bond_amount input) miner_fee)
          else
      (let challenge_amount = ci_bond_amount input - miner_fee in
       case hex_decode L (att_signature_hex (eqv_first_attestation p)) of
        None \<Rightarrow> Inl InvalidSig1Hex
      | Some sig_1 \<Rightarrow>
      (case hex_decode L (att_signature_hex (eqv_second_attestation p)) of
        None \<Rightarrow> Inl InvalidSig2Hex
      | Some sig_2 \<Rightarrow>
      (case serialize_challenge_tx L input challenge_script challenge_amount evidence_output
              (challenge_witness L vault_tree p sig_1 sig_2) of
        Inl e \<Rightarrow> Inl e
      | Inr raw_hex \<Rightarrow>
          Inr \<lparr>cx_raw_hex = raw_hex,
               cx_challenge_output = \<lparr>co_script_pubkey = challenge_script, co_amount = challenge_amount\<rparr>,
               cx_evidence_output = evidence_output, cx_fee = miner_fee\<rparr>)))))))"

section \<open>When it is built\<close>

lemma length_pad [simp]: "length (pad_to_32 d) = 32"
  by (simp add: pad_to_32_def)

lemma vault_tree_built:
  "(\<exists>t. build_vault_script_tree config = Inr t)
     \<longleftrightarrow> length (vc_operator_pubkey config) = 32 \<and> length (vc_challenger_pubkey config) = 32"
  by (auto simp: build_vault_script_tree_def build_operator_unbond_leaf_def build_covenant_challenge_leaf_def
      build_equivocation_covenant_def Let_def split: sum.splits)

lemma claim_tree_built:
  "(\<exists>t. build_challenge_claim_script_tree config = Inr t)
     \<longleftrightarrow> length (cu_challenger_pubkey config) = 32 \<and> length (cu_operator_pubkey config) = 32"
  by (simp add: build_challenge_claim_script_tree_def Let_def)

lemma evidence_built:
  "(\<exists>s. build_evidence_output ev = Inr s)
     \<longleftrightarrow> length (ce_claimed_root ev) = 32 \<and> length (ce_correct_root ev) = 32
       \<and> length (ce_operator_pubkey ev) = 32 \<and> length (ce_chain ev) \<le> 64"
  by (simp add: build_evidence_output_def Let_def as_bytes_def)

lemma serialized_iff:
  "(\<exists>s. serialize_challenge_tx L input cs amount es w = Inr s)
     \<longleftrightarrow> (\<exists>b. hex_decode L (ci_bond_txid input) = Some b \<and> length b = 32)"
  by (auto simp: serialize_challenge_tx_def split: option.split)

lemma equivocation_decodes:
  assumes "verify_equivocation_proof L p"
  obtains pk s1 s2 where "hex_decode L (eqv_validator_pubkey p) = Some pk"
    "hex_decode L (att_signature_hex (eqv_first_attestation p)) = Some s1"
    "hex_decode L (att_signature_hex (eqv_second_attestation p)) = Some s2"
  using assms
  by (auto simp: verify_equivocation_proof_def verify_single_def Let_def split: option.splits if_splits)

text \<open>The path through build_challenge_transaction, one equation per step.\<close>

lemma build_challenge_eq:
  "build_challenge_transaction L p input config fee = Inr tx \<longleftrightarrow>
     verify_equivocation_proof L p \<and> fee \<le> ci_bond_amount input
     \<and> (\<exists>vt ct pk es s1 s2 raw. build_vault_script_tree config = Inr vt
       \<and> build_challenge_claim_script_tree \<lparr>cu_challenger_pubkey = vc_challenger_pubkey config,
            cu_operator_pubkey = vc_operator_pubkey config, cu_claim_delay = vc_claim_delay config\<rparr> = Inr ct
       \<and> hex_decode L (eqv_validator_pubkey p) = Some pk
       \<and> build_evidence_output (evidence_of L p pk) = Inr es
       \<and> hex_decode L (att_signature_hex (eqv_first_attestation p)) = Some s1
       \<and> hex_decode L (att_signature_hex (eqv_second_attestation p)) = Some s2
       \<and> serialize_challenge_tx L input (challenge_tree_p2tr_script L ct) (ci_bond_amount input - fee) es
            (challenge_witness L vt p s1 s2) = Inr raw
       \<and> tx = \<lparr>cx_raw_hex = raw,
            cx_challenge_output = \<lparr>co_script_pubkey = challenge_tree_p2tr_script L ct,
              co_amount = ci_bond_amount input - fee\<rparr>,
            cx_evidence_output = es, cx_fee = fee\<rparr>)"
  unfolding build_challenge_transaction_def Let_def
  by (auto simp: not_less split: sum.split option.split)

lemma challenge_built_aux:
  "(\<exists>tx. build_challenge_transaction L p input config fee = Inr tx) \<longleftrightarrow>
     verify_equivocation_proof L p
   \<and> length (vc_operator_pubkey config) = 32 \<and> length (vc_challenger_pubkey config) = 32
   \<and> map_option length (hex_decode L (eqv_validator_pubkey p)) = Some 32
   \<and> length (eqv_chain p) \<le> 64
   \<and> fee \<le> ci_bond_amount input
   \<and> map_option length (hex_decode L (ci_bond_txid input)) = Some 32" (is "?built \<longleftrightarrow> ?conditions")
proof
  assume ?built
  then obtain tx where "build_challenge_transaction L p input config fee = Inr tx" by blast
  then obtain vt pk es s1 s2 raw w cs am where parts: "verify_equivocation_proof L p" "fee \<le> ci_bond_amount input"
    "build_vault_script_tree config = Inr vt" "hex_decode L (eqv_validator_pubkey p) = Some pk"
    "build_evidence_output (evidence_of L p pk) = Inr es" "serialize_challenge_tx L input cs am es w = Inr raw"
    unfolding build_challenge_eq by blast
  then have "\<exists>s. build_evidence_output (evidence_of L p pk) = Inr s" "\<exists>t. build_vault_script_tree config = Inr t"
    "\<exists>s. serialize_challenge_tx L input cs am es w = Inr s" by blast+
  then show ?conditions
    using parts unfolding evidence_built vault_tree_built serialized_iff by (auto simp: evidence_of_def)
next
  assume c: ?conditions
  then obtain pk s1 s2 where d: "hex_decode L (eqv_validator_pubkey p) = Some pk"
    "hex_decode L (att_signature_hex (eqv_first_attestation p)) = Some s1"
    "hex_decode L (att_signature_hex (eqv_second_attestation p)) = Some s2"
    using equivocation_decodes by blast
  let ?config = "\<lparr>cu_challenger_pubkey = vc_challenger_pubkey config,
    cu_operator_pubkey = vc_operator_pubkey config, cu_claim_delay = vc_claim_delay config\<rparr>"
  obtain vt where vt: "build_vault_script_tree config = Inr vt" using c vault_tree_built [of config] by blast
  obtain ct where ct: "build_challenge_claim_script_tree ?config = Inr ct" using c claim_tree_built [of ?config] by auto
  obtain es where es: "build_evidence_output (evidence_of L p pk) = Inr es"
    using c d(1) evidence_built [of "evidence_of L p pk"] by (auto simp: evidence_of_def)
  have "\<exists>b. hex_decode L (ci_bond_txid input) = Some b \<and> length b = 32" using c by auto
  then obtain raw where "serialize_challenge_tx L input (challenge_tree_p2tr_script L ct) (ci_bond_amount input - fee) es
      (challenge_witness L vt p s1 s2) = Inr raw"
    unfolding serialized_iff [symmetric, of L input "challenge_tree_p2tr_script L ct" "ci_bond_amount input - fee" es
      "challenge_witness L vt p s1 s2"] by blast
  with c d vt ct es show ?built unfolding build_challenge_eq by blast
qed

text \<open>
  C27. A challenge transaction is built exactly when the equivocation proof verifies, the two keys
  of the vault and the convicted key have 32 bytes, the chain name at most 64, the bond covers
  the fee and its txid is 32 bytes of hex. Nothing else can go wrong, and nothing ties the convicted
  key to the vault whose bond is spent.
\<close>

theorem challenge_built_iff:
  "(\<exists>tx. build_challenge_transaction L p input config fee = Inr tx) \<longleftrightarrow>
     verify_equivocation_proof L p
   \<and> length (vc_operator_pubkey config) = 32 \<and> length (vc_challenger_pubkey config) = 32
   \<and> map_option length (hex_decode L (eqv_validator_pubkey p)) = Some 32
   \<and> length (eqv_chain p) \<le> 64
   \<and> fee \<le> ci_bond_amount input
   \<and> map_option length (hex_decode L (ci_bond_txid input)) = Some 32"
  by (rule challenge_built_aux)

section \<open>What is in it\<close>

lemma challenge_tag: "length (as_bytes ''utxovm:challenge'') = 16"
  by (simp add: as_bytes_def)

lemma evidence_parses:
  assumes "build_evidence_output ev = Inr script"
  shows "parse_script script = Some [Op OP_RETURN, Push (as_bytes ''utxovm:challenge''), Push (ce_claimed_root ev),
    Push (ce_correct_root ev), Push (ce_operator_pubkey ev), Push (as_bytes (ce_chain ev)), Push (u64_le (ce_block_height ev))]"
proof -
  have len: "length (ce_claimed_root ev) = 32" "length (ce_correct_root ev) = 32" "length (ce_operator_pubkey ev) = 32"
    "length (as_bytes (ce_chain ev)) \<le> 64"
    using assms evidence_built [of ev] by (auto simp: as_bytes_def)
  have chain: "parse_script (word_of_nat (length (ce_chain ev)) # as_bytes (ce_chain ev) @ r)
      = map_option ((#) (Push (as_bytes (ce_chain ev)))) (parse_script r)" for r
    using len(4) parse_data [of "as_bytes (ce_chain ev)" r] by simp
  have "script = OP_RETURN # 16 # as_bytes ''utxovm:challenge'' @ 32 # ce_claimed_root ev @ 32 # ce_correct_root ev
      @ 32 # ce_operator_pubkey ev @ word_of_nat (length (as_bytes (ce_chain ev))) # as_bytes (ce_chain ev)
      @ 8 # u64_le (ce_block_height ev) @ []"
    using assms len by (simp add: build_evidence_output_def Let_def challenge_tag)
  then show ?thesis
    using len challenge_tag
    by (simp add: parse_return parse_pushes parse_push_data [where b = 16] chain del: append_Nil2)
qed

text \<open>
  What a built challenge transaction holds: the bond's value split into the challenge output and
  the fee without wrap-around, an evidence output that reads back as the two roots, the convicted
  key, the chain and the height, and an output script that commits to the claim and rebut leaves.
  Its witness never satisfies the covenant leaf of the bond it spends.
\<close>

theorem challenge_contents:
  assumes "build_challenge_transaction L p input config fee = Inr tx"
  shows "cx_fee tx = fee
    \<and> unat (co_amount (cx_challenge_output tx)) + unat fee = unat (ci_bond_amount input)
    \<and> (\<exists>pk vt ct s1 s2. hex_decode L (eqv_validator_pubkey p) = Some pk
        \<and> build_vault_script_tree config = Inr vt
        \<and> ct_claim_leaf ct = timelock_leaf (vc_challenger_pubkey config) (vc_claim_delay config)
        \<and> co_script_pubkey (cx_challenge_output tx) = challenge_tree_p2tr_script L ct
        \<and> parse_script (cx_evidence_output tx) = Some [Op OP_RETURN, Push (as_bytes ''utxovm:challenge''),
            Push (pad_to_32 (decode_or_hash L (att_state_root (eqv_first_attestation p)))),
            Push (pad_to_32 (decode_or_hash L (att_state_root (eqv_second_attestation p)))),
            Push pk, Push (as_bytes (eqv_chain p)), Push (u64_le (eqv_block_height p))]
        \<and> serialize_challenge_tx L input (co_script_pubkey (cx_challenge_output tx))
            (co_amount (cx_challenge_output tx)) (cx_evidence_output tx) (challenge_witness L vt p s1 s2)
          = Inr (cx_raw_hex tx)
        \<and> (\<forall>e. \<not> spends e (vt_challenge_leaf vt) (butlast (challenge_witness L vt p s1 s2))))"
proof -
  from assms obtain vt ct pk es s1 s2 raw where le: "fee \<le> ci_bond_amount input"
    and vt: "build_vault_script_tree config = Inr vt"
    and ct: "build_challenge_claim_script_tree \<lparr>cu_challenger_pubkey = vc_challenger_pubkey config,
            cu_operator_pubkey = vc_operator_pubkey config, cu_claim_delay = vc_claim_delay config\<rparr> = Inr ct"
    and pk: "hex_decode L (eqv_validator_pubkey p) = Some pk"
    and es: "build_evidence_output (evidence_of L p pk) = Inr es"
    and raw: "serialize_challenge_tx L input (challenge_tree_p2tr_script L ct) (ci_bond_amount input - fee) es
            (challenge_witness L vt p s1 s2) = Inr raw"
    and tx: "tx = \<lparr>cx_raw_hex = raw,
            cx_challenge_output = \<lparr>co_script_pubkey = challenge_tree_p2tr_script L ct,
              co_amount = ci_bond_amount input - fee\<rparr>,
            cx_evidence_output = es, cx_fee = fee\<rparr>"
    unfolding build_challenge_eq by blast
  have total: "unat (ci_bond_amount input - fee) + unat fee = unat (ci_bond_amount input)"
    using le by (simp add: unat_sub word_le_nat_alt)
  have claim: "ct_claim_leaf ct = timelock_leaf (vc_challenger_pubkey config) (vc_claim_delay config)"
    using ct by (auto simp: build_challenge_claim_script_tree_def timelock_leaf_def Let_def split: if_splits)
  have leaf: "build_equivocation_covenant (vc_operator_pubkey config) = Inr (vt_challenge_leaf vt)"
    using vt by (auto simp: build_vault_script_tree_def build_covenant_challenge_leaf_def split: sum.splits if_splits)
  have "\<not> spends e (vt_challenge_leaf vt) (butlast (challenge_witness L vt p s1 s2))" for e
    unfolding challenge_witness_def covenant_witness_template_def by (rule covenant_rejects_its_witness [OF leaf])
  then show ?thesis
    using evidence_parses [OF es] total claim vt pk raw unfolding tx evidence_of_def by auto
qed

definition demo_equivocation :: equivocation_proof where
  "demo_equivocation = \<lparr>eqv_chain = ''btc'', eqv_block_height = 7,
     eqv_validator_pubkey = hex_encode demo_libs (as_bytes (demo_key (CHR ''k''))),
     eqv_first_attestation = demo_attestation (demo_key (CHR ''k'')) ''r1'',
     eqv_second_attestation = demo_attestation (demo_key (CHR ''k'')) ''r2'', eqv_detected_at = 0\<rparr>"

definition demo_vault :: vault_config where
  "demo_vault = \<lparr>vc_operator_pubkey = replicate 32 1, vc_challenger_pubkey = replicate 32 2, vc_unbond_delay = 1008,
     vc_claim_delay = 144, vc_watcher_pubkeys = [], vc_watcher_threshold = 0\<rparr>"

definition demo_bond :: challenge_input where
  "demo_bond = \<lparr>ci_bond_txid = hex_encode demo_libs (replicate 32 0), ci_bond_vout = 0, ci_bond_amount = 50000\<rparr>"

lemma demo_challenge_built: "\<exists>tx. build_challenge_transaction demo_libs demo_equivocation demo_bond demo_vault 1000 = Inr tx"
proof -
  have pk: "length (demo_key (CHR ''k'')) = 32" by (simp add: demo_key_def)
  have hex: "hex_decode demo_libs (hex_encode demo_libs b) = Some b" for b
    using demo_libs_ok(2) by (simp add: hex_roundtrip_def)
  have "verify_equivocation_proof demo_libs demo_equivocation"
    unfolding verify_equivocation_iff Let_def
    using demo_attestation_verifies [OF pk]
    by (simp add: demo_equivocation_def) (simp add: demo_attestation_def sign_state_root_def)
  then show ?thesis
    unfolding challenge_built_aux
    using pk by (simp add: demo_vault_def demo_bond_def hex) (simp add: demo_equivocation_def hex)
qed

lemma challenge_contents_witness:
  "\<exists>tx. build_challenge_transaction demo_libs demo_equivocation demo_bond demo_vault 1000 = Inr tx
     \<and> unat (co_amount (cx_challenge_output tx)) = 49000"
proof -
  obtain tx where tx: "build_challenge_transaction demo_libs demo_equivocation demo_bond demo_vault 1000 = Inr tx"
    using demo_challenge_built by blast
  from challenge_contents [OF this] have "unat (co_amount (cx_challenge_output tx)) + 1000 = unat (ci_bond_amount demo_bond)"
    by simp
  then show ?thesis using tx by (simp add: demo_bond_def)
qed

end
