(* ===== verification/Fraud_Watch.thy ===== *)
theory Fraud_Watch
  imports Challenge
begin

text \<open>
  The fraud watch of packages/node/src/main.rs: one pass over the attestation pool, and the
  challenge it tries to broadcast for every divergence and every equivocation it finds. A pass
  returns what it did, in order; a transaction that reaches the broadcast is the argument of
  Broadcast. Logging is left out, the clock is read once per pass, and the keys of the pool
  come in table order.
\<close>

section \<open>Configuration\<close>

record fraud_watch_vault_config_json =
  fj_operator_pubkey_hex :: string
  fj_challenger_pubkey_hex :: string
  fj_unbond_delay :: u32
  fj_claim_delay :: u32
  fj_watcher_pubkeys_hex :: "string list"
  fj_watcher_threshold :: u32

fun decode_all :: "libs \<Rightarrow> string list \<Rightarrow> bytes list option" where
  "decode_all L [] = Some []"
| "decode_all L (h # hs) =
     (case hex_decode L h of
        None \<Rightarrow> None
      | Some b \<Rightarrow> map_option ((#) b) (decode_all L hs))"

definition to_vault_config :: "libs \<Rightarrow> fraud_watch_vault_config_json \<Rightarrow> string + vault_config" where
  "to_vault_config L j =
     (case hex_decode L (fj_operator_pubkey_hex j) of
        None \<Rightarrow> Inl ''operator_pubkey_hex''
      | Some operator_pubkey \<Rightarrow>
     (case hex_decode L (fj_challenger_pubkey_hex j) of
        None \<Rightarrow> Inl ''challenger_pubkey_hex''
      | Some challenger_pubkey \<Rightarrow>
     (case decode_all L (fj_watcher_pubkeys_hex j) of
        None \<Rightarrow> Inl ''watcher_pubkeys_hex''
      | Some watcher_pubkeys \<Rightarrow>
          Inr \<lparr>vc_operator_pubkey = operator_pubkey, vc_challenger_pubkey = challenger_pubkey,
               vc_unbond_delay = fj_unbond_delay j, vc_claim_delay = fj_claim_delay j,
               vc_watcher_pubkeys = watcher_pubkeys, vc_watcher_threshold = fj_watcher_threshold j\<rparr>)))"

record fraud_watch_config =
  fw_vault_config :: vault_config
  fw_bond_input :: challenge_input
  fw_miner_fee :: u64

section \<open>One pass\<close>

datatype fraud_action =
    Divergence quorum_divergence_proof
  | Equivocation equivocation_proof
  | RejectedProof equivocation_proof
  | SkippedNoConfig
  | BuildFailed challenge_error
  | Broadcast string

definition placeholder_proof :: "i64 \<Rightarrow> string \<Rightarrow> u64 \<Rightarrow> string \<Rightarrow> string \<Rightarrow> string \<Rightarrow> equivocation_proof" where
  "placeholder_proof now chain height operator_pubkey claimed_root correct_root =
     (let placeholder_att = \<lparr>att_chain = chain, att_block_height = height, att_block_hash = [],
            att_state_root = claimed_root, att_validator_pubkey = operator_pubkey, att_signature_hex = [],
            att_timestamp = now\<rparr>
      in \<lparr>eqv_chain = chain, eqv_block_height = height, eqv_validator_pubkey = operator_pubkey,
          eqv_first_attestation = placeholder_att,
          eqv_second_attestation = placeholder_att\<lparr>att_state_root := correct_root\<rparr>,
          eqv_detected_at = now\<rparr>)"

definition maybe_broadcast_challenge :: "libs \<Rightarrow> i64 \<Rightarrow> fraud_watch_config option \<Rightarrow> string \<Rightarrow> u64
    \<Rightarrow> string \<Rightarrow> string \<Rightarrow> string \<Rightarrow> fraud_action" where
  "maybe_broadcast_challenge L now fw_cfg chain height operator_pubkey claimed_root correct_root =
     (case fw_cfg of
        None \<Rightarrow> SkippedNoConfig
      | Some cfg \<Rightarrow>
          (case build_challenge_transaction L
                  (placeholder_proof now chain height operator_pubkey claimed_root correct_root)
                  (fw_bond_input cfg) (fw_vault_config cfg) (fw_miner_fee cfg) of
             Inl e \<Rightarrow> BuildFailed e
           | Inr tx \<Rightarrow> Broadcast (cx_raw_hex tx)))"

definition scan_key :: "libs \<Rightarrow> i64 \<Rightarrow> fraud_watch_config option \<Rightarrow> consensus \<Rightarrow> string \<times> u64 \<Rightarrow> fraud_action list" where
  "scan_key L now fw_cfg cm key =
     (case build_quorum_result L cm (fst key) (snd key) of
        None \<Rightarrow> []
      | Some quorum \<Rightarrow>
          concat (map (\<lambda>att. case detect_divergence now att quorum of
              None \<Rightarrow> []
            | Some dv \<Rightarrow>
                [Divergence dv,
                 maybe_broadcast_challenge L now fw_cfg (qdp_chain dv) (qdp_block_height dv)
                   (att_validator_pubkey (qdp_operator_attestation dv))
                   (att_state_root (qdp_operator_attestation dv)) (qdp_quorum_result_root dv)])
            (get_attestations cm (fst key) (snd key))))"

definition report_proof :: "libs \<Rightarrow> i64 \<Rightarrow> fraud_watch_config option \<Rightarrow> equivocation_proof \<Rightarrow> fraud_action list" where
  "report_proof L now fw_cfg p =
     (if \<not> verify_equivocation_proof L p then [RejectedProof p]
      else [Equivocation p,
            maybe_broadcast_challenge L now fw_cfg (eqv_chain p) (eqv_block_height p) (eqv_validator_pubkey p)
              (att_state_root (eqv_first_attestation p)) (att_state_root (eqv_second_attestation p))])"

definition run_fraud_watch_pass :: "libs \<Rightarrow> i64 \<Rightarrow> fraud_watch_config option \<Rightarrow> attestation option \<Rightarrow> consensus
    \<Rightarrow> fraud_action list" where
  "run_fraud_watch_pass L now fw_cfg trigger cm =
     (let keys = (case trigger of
            Some att \<Rightarrow> [(att_chain att, att_block_height att)]
          | None \<Rightarrow> map fst (cm_attestations cm))
      in concat (map (scan_key L now fw_cfg cm) keys)
         @ concat (map (report_proof L now fw_cfg) (get_slashing_proofs cm)))"

section \<open>What a pass finds, and that it never broadcasts\<close>

text \<open>hex::decode of an empty string is an empty vector, and no Schnorr signature is empty.\<close>

definition empty_hex :: "libs \<Rightarrow> bool" where
  "empty_hex L \<longleftrightarrow> hex_decode L [] = Some []"

lemma empty_signature_rejected:
  assumes "empty_hex L" "schnorr_sig_len L" "att_signature_hex (eqv_first_attestation p) = []"
  shows "\<not> verify_equivocation_proof L p"
  using assms
  by (auto simp: verify_equivocation_proof_def verify_single_def empty_hex_def schnorr_sig_len_def Let_def
      split: option.splits)

lemma never_builds:
  assumes "empty_hex L" "schnorr_sig_len L"
  shows "maybe_broadcast_challenge L now cfg c h key r1 r2 \<in> {SkippedNoConfig, BuildFailed EquivocationRejected}"
proof -
  have "\<not> verify_equivocation_proof L (placeholder_proof now c h key r1 r2)"
    by (rule empty_signature_rejected [OF assms]) (simp add: placeholder_proof_def Let_def)
  then show ?thesis
    by (simp add: maybe_broadcast_challenge_def build_challenge_transaction_def split: option.split)
qed

text \<open>
  No pass, whatever its configuration, its trigger and the pool, ever broadcasts a challenge: the
  proof that is synthesised for it carries empty signatures, which the builder rejects.
\<close>

theorem fraud_watch_never_broadcasts:
  assumes "empty_hex L" "schnorr_sig_len L"
  shows "Broadcast raw \<notin> set (run_fraud_watch_pass L now cfg trigger cm)"
proof -
  have n: "maybe_broadcast_challenge L now cfg c h key r1 r2 \<noteq> Broadcast raw" for c h key r1 r2
    using never_builds [OF assms, of now cfg c h key r1 r2] by auto
  have "Broadcast raw \<notin> set (scan_key L now cfg cm key)" for key
    using n by (auto simp: scan_key_def split: option.splits) metis+
  moreover have "Broadcast raw \<notin> set (report_proof L now cfg p)" for p
    using n by (auto simp: report_proof_def) metis+
  ultimately show ?thesis by (simp add: run_fraud_watch_pass_def Let_def)
qed

lemma fraud_watch_never_broadcasts_witness:
  "\<forall>raw. Broadcast raw \<notin> set (run_fraud_watch_pass demo_libs 0
     (Some \<lparr>fw_vault_config = demo_vault, fw_bond_input = demo_bond, fw_miner_fee = 1000\<rparr>) None
     ((cm_new 1)\<lparr>cm_slashing_proofs := [demo_equivocation]\<rparr>))"
proof -
  have "empty_hex demo_libs" by (simp add: empty_hex_def demo_libs_def)
  from fraud_watch_never_broadcasts [OF this demo_libs_ok(3)] show ?thesis by blast
qed

lemma scanned_keys:
  assumes "att \<in> set (get_attestations cm c h)"
  shows "(c, h) \<in> set (map fst (cm_attestations cm))"
proof -
  have "tbl_get (cm_attestations cm) (c, h) \<noteq> None"
  proof
    assume "tbl_get (cm_attestations cm) (c, h) = None"
    with assms show False by (simp add: get_attestations_def)
  qed
  then show ?thesis using tbl_get_Some_in by force
qed

text \<open>
  C40. A sweep misses nothing: in every pool a node can reach it reports each attestation that
  contradicts the quorum of its chain and height, with the quorum's root, and each recorded
  equivocation, and it rejects none of the recorded proofs.
\<close>

theorem fraud_watch_reports:
  assumes "consensus_ok L cm"
  shows "(\<forall>c h q. build_quorum_result L cm c h = Some q \<longrightarrow>
      (\<forall>att \<in> set (get_attestations cm c h). att_state_root att \<noteq> qr_state_root q \<longrightarrow>
        (\<exists>dv. Divergence dv \<in> set (run_fraud_watch_pass L now cfg None cm)
           \<and> qdp_operator_attestation dv = att \<and> qdp_quorum_result_root dv = qr_state_root q)))
    \<and> (\<forall>p \<in> set (get_slashing_proofs cm). Equivocation p \<in> set (run_fraud_watch_pass L now cfg None cm))
    \<and> (\<forall>p. RejectedProof p \<notin> set (run_fraud_watch_pass L now cfg None cm))"
proof -
  let ?pass = "run_fraud_watch_pass L now cfg None cm"
  have valid: "verify_equivocation_proof L p" if "p \<in> set (get_slashing_proofs cm)" for p
    using assms that by (auto simp: consensus_ok_def proof_ok_def get_slashing_proofs_def)
  have div: "\<exists>dv. Divergence dv \<in> set ?pass \<and> qdp_operator_attestation dv = att \<and> qdp_quorum_result_root dv = qr_state_root q"
    if q: "build_quorum_result L cm c h = Some q" and a: "att \<in> set (get_attestations cm c h)"
      and d: "att_state_root att \<noteq> qr_state_root q" for c h q att
  proof -
    obtain dv where dv: "detect_divergence now att q = Some dv" "qdp_operator_attestation dv = att"
      "qdp_quorum_result_root dv = qr_state_root q"
      using d by (simp add: detect_divergence_def)
    then have "Divergence dv \<in> set (scan_key L now cfg cm (c, h))"
      using q a by (auto simp: scan_key_def intro!: bexI [of _ att])
    moreover have "set (scan_key L now cfg cm (c, h)) \<subseteq> set ?pass"
      using scanned_keys [OF a] by (auto simp: run_fraud_watch_pass_def)
    ultimately show ?thesis using dv by blast
  qed
  have eqv: "Equivocation p \<in> set ?pass" if "p \<in> set (get_slashing_proofs cm)" for p
    using that valid [OF that] by (auto simp: run_fraud_watch_pass_def report_proof_def)
  have m: "maybe_broadcast_challenge L now cfg c h key r1 r2 \<noteq> RejectedProof p" for c h key r1 r2 p
    by (simp add: maybe_broadcast_challenge_def split: option.split sum.split)
  have "RejectedProof p \<notin> set (scan_key L now cfg cm key)" for p key
    using m by (auto simp: scan_key_def split: option.splits) metis+
  moreover have "RejectedProof p \<notin> set (report_proof L now cfg p')" if "p' \<in> set (get_slashing_proofs cm)" for p p'
    using m valid [OF that] by (auto simp: report_proof_def) metis+
  ultimately have "RejectedProof p \<notin> set ?pass" for p by (auto simp: run_fraud_watch_pass_def)
  with div eqv show ?thesis by blast
qed

definition demo_double_vote :: consensus where
  "demo_double_vote = fold (consensus_step demo_libs)
     [Register (hex_encode demo_libs (as_bytes (demo_key (CHR ''k'')))),
      Attest 0 (demo_attestation (demo_key (CHR ''k'')) ''r1''),
      Attest 1 (demo_attestation (demo_key (CHR ''k'')) ''r2'')] (cm_new 1)"

lemma fraud_watch_reports_witness:
  "\<exists>p. Equivocation p \<in> set (run_fraud_watch_pass demo_libs 2 None None demo_double_vote)"
proof -
  have ok: "consensus_ok demo_libs demo_double_vote"
    unfolding demo_double_vote_def by (intro consensus_ok_run consensus_ok_new)
  have v: "verify_attestation demo_libs (demo_attestation (demo_key (CHR ''k'')) r)" for r
    by (rule demo_attestation_verifies) (simp add: demo_key_def)
  have f: "att_validator_pubkey (demo_attestation k r) = hex_encode demo_libs (as_bytes k)"
    "att_chain (demo_attestation k r) = ''btc''" "att_block_height (demo_attestation k r) = 7" for k r
    by (simp_all add: demo_attestation_def sign_state_root_def)
  have "get_slashing_proofs demo_double_vote \<noteq> []"
    by (simp add: demo_double_vote_def register_validator_def cm_new_def add_attestation_def v f Let_def
        get_attestations_def get_slashing_proofs_def tbl_get_def)
  then show ?thesis using fraud_watch_reports [OF ok, of 2 None] by (meson list.set_sel(1))
qed

end
