(* ===== verification/Sync.thy ===== *)
theory Sync
  imports Processor Attestation "HOL-Library.While_Combinator"
begin

text \<open>
  The block sync loop of packages/node/src/main.rs: one tick against an explorer that answers as it
  likes, with the detection of reorganisations, the rollback to the common ancestor, the
  processing of every new block (fetching missing contract code once) and the signed attestation
  of its state root. A panic inside process_tx ends the task and is the value Panic. What the p2p
  layer does with an attestation is left out, and the clock is read once per tick.
\<close>

section \<open>One tick\<close>

text \<open>
  What electrs and the DHT answer during a tick; None is an error, and for contracts also a miss.
  Hashes and transactions are those of the explorer's chain at that moment.
\<close>

record explorer =
  ex_tip :: "u64 option"
  ex_block_hash :: "u64 \<Rightarrow> string option"
  ex_block_txs :: "string \<Rightarrow> electrs_tx list option"
  ex_contract :: "string \<Rightarrow> bytes option"

record sync_config =
  sy_chain :: string
  sy_start_height :: "u64 option"
  sy_signer :: "(bytes \<times> (bytes \<Rightarrow> bytes)) option"

type_synonym sync_state = "store \<times> consensus"

text \<open>The backtracking loop: the highest local block below the fork that the explorer confirms.\<close>

fun find_ancestor :: "explorer \<Rightarrow> store \<Rightarrow> string \<Rightarrow> nat \<Rightarrow> u64 option" where
  "find_ancestor ex s chain 0 = None"
| "find_ancestor ex s chain (Suc n) =
     (case get_block s chain (word_of_nat (Suc n)) of
        None \<Rightarrow> find_ancestor ex s chain n
      | Some prev_local \<Rightarrow>
          (case ex_block_hash ex (word_of_nat (Suc n)) of
             None \<Rightarrow> None
           | Some prev_l1_hash \<Rightarrow>
               if prev_l1_hash = blk_block_hash prev_local then Some (word_of_nat (Suc n))
               else find_ancestor ex s chain n))"

definition saturating_pred :: "u64 \<Rightarrow> u64" where
  "saturating_pred h = (if h = 0 then 0 else h - 1)"

definition last_synced :: "sync_config \<Rightarrow> store \<Rightarrow> u64" where
  "last_synced cfg s =
     (let synced = get_last_sync_block s (sy_chain cfg) in
      if synced = 0 then (case sy_start_height cfg of Some sh \<Rightarrow> saturating_pred sh | None \<Rightarrow> synced) else synced)"

text \<open>The reorg check: None ends the tick, otherwise where to go on and with which store.\<close>

definition check_reorg :: "libs \<Rightarrow> explorer \<Rightarrow> string \<Rightarrow> u64 \<Rightarrow> store \<Rightarrow> (u64 \<times> store) option" where
  "check_reorg L ex chain synced s =
     (if synced = 0 then Some (synced, s)
      else case get_block s chain synced of
        None \<Rightarrow> Some (synced, s)
      | Some local_block \<Rightarrow>
          (case ex_block_hash ex synced of
             None \<Rightarrow> Some (synced, s)
           | Some l1_hash \<Rightarrow>
               if l1_hash = blk_block_hash local_block then Some (synced, s)
               else (case find_ancestor ex s chain (unat (saturating_pred synced)) of
                       Some ancestor \<Rightarrow> Some (ancestor, snd (rollback_to_block L chain ancestor s))
                     | None \<Rightarrow> None)))"

definition sync_tx :: "libs \<Rightarrow> 'g engine \<Rightarrow> block_processor \<Rightarrow> explorer \<Rightarrow> i64 \<Rightarrow> u64 \<Rightarrow> electrs_tx \<Rightarrow> store \<Rightarrow> store rust" where
  "sync_tx L E bp ex now h tx s =
     rbind (process_tx L E bp now tx h s) (\<lambda>(r, s1).
       case r of
         Inr _ \<Rightarrow> Ret s1
       | Inl e \<Rightarrow>
           (case missing_wasm_hash e of
              None \<Rightarrow> Ret s1
            | Some code_hash \<Rightarrow>
                (case ex_contract ex code_hash of
                   None \<Rightarrow> Ret s1
                 | Some wasm_bytes \<Rightarrow>
                     (case save_wasm L code_hash wasm_bytes s1 of
                        (Inl _, s2) \<Rightarrow> Ret s2
                      | (Inr _, s2) \<Rightarrow> rbind (process_tx L E bp now tx h s2) (\<lambda>(_, s3). Ret s3)))))"

fun sync_txs :: "libs \<Rightarrow> 'g engine \<Rightarrow> block_processor \<Rightarrow> explorer \<Rightarrow> i64 \<Rightarrow> u64 \<Rightarrow> electrs_tx list \<Rightarrow> store \<Rightarrow> store rust" where
  "sync_txs L E bp ex now h [] s = Ret s"
| "sync_txs L E bp ex now h (tx # txs) s =
     rbind (sync_tx L E bp ex now h tx s) (sync_txs L E bp ex now h txs)"

definition attest_block :: "libs \<Rightarrow> sync_config \<Rightarrow> i64 \<Rightarrow> u64 \<Rightarrow> string \<Rightarrow> string \<Rightarrow> consensus \<Rightarrow> consensus" where
  "attest_block L cfg now h block_hash state_root cm =
     (case sy_signer cfg of
        None \<Rightarrow> cm
      | Some (xonly, sign) \<Rightarrow>
          snd (add_attestation L now (sign_state_root L xonly sign now (sy_chain cfg) h block_hash state_root) cm))"

definition sync_block :: "libs \<Rightarrow> 'g engine \<Rightarrow> block_processor \<Rightarrow> sync_config \<Rightarrow> explorer \<Rightarrow> i64 \<Rightarrow> u64
    \<Rightarrow> sync_state \<Rightarrow> sync_state rust" where
  "sync_block L E bp cfg ex now h st =
     (let (s, cm) = st in
      case ex_block_hash ex h of
        None \<Rightarrow> Ret st
      | Some block_hash \<Rightarrow>
          rbind (case ex_block_txs ex block_hash of
                   None \<Rightarrow> Ret s
                 | Some txs \<Rightarrow> sync_txs L E bp ex now h txs s) (\<lambda>s1.
            let (state_root, s2) = current_state_root L s1;
                block_record = \<lparr>blk_chain = sy_chain cfg, blk_block_height = h, blk_block_hash = block_hash,
                  blk_prev_hash = None, blk_state_root = state_root, blk_timestamp = now\<rparr>;
                s3 = set_last_sync_block (sy_chain cfg) h (save_block block_record s2)
            in Ret (s3, attest_block L cfg now h block_hash state_root cm)))"

fun sync_blocks :: "libs \<Rightarrow> 'g engine \<Rightarrow> block_processor \<Rightarrow> sync_config \<Rightarrow> explorer \<Rightarrow> i64 \<Rightarrow> u64 list
    \<Rightarrow> sync_state \<Rightarrow> sync_state rust" where
  "sync_blocks L E bp cfg ex now [] st = Ret st"
| "sync_blocks L E bp cfg ex now (h # hs) st =
     rbind (sync_block L E bp cfg ex now h st) (sync_blocks L E bp cfg ex now hs)"

definition new_heights :: "u64 \<Rightarrow> u64 \<Rightarrow> u64 list" where
  "new_heights synced tip = map word_of_nat [unat synced + 1 ..< unat tip + 1]"

definition sync_tick :: "libs \<Rightarrow> 'g engine \<Rightarrow> block_processor \<Rightarrow> sync_config \<Rightarrow> explorer \<Rightarrow> i64
    \<Rightarrow> sync_state \<Rightarrow> sync_state rust" where
  "sync_tick L E bp cfg ex now st =
     (let (s, cm) = st in
      case ex_tip ex of
        None \<Rightarrow> Ret st
      | Some tip \<Rightarrow>
          (case check_reorg L ex (sy_chain cfg) (last_synced cfg s) s of
             None \<Rightarrow> Ret st
           | Some (synced, s1) \<Rightarrow>
               if synced < tip then sync_blocks L E bp cfg ex now (new_heights synced tip) (s1, cm)
               else Ret (s1, cm)))"

text \<open>A transaction from the mempool is processed at height 0.\<close>

definition mempool_tx :: "libs \<Rightarrow> 'g engine \<Rightarrow> block_processor \<Rightarrow> i64 \<Rightarrow> electrs_tx \<Rightarrow> store \<Rightarrow> outcome rust" where
  "mempool_tx L E bp now tx s = process_tx L E bp now tx 0 s"

section \<open>The common ancestor\<close>

text \<open>A local block that the explorer confirms.\<close>

definition confirmed :: "explorer \<Rightarrow> store \<Rightarrow> string \<Rightarrow> u64 \<Rightarrow> bool" where
  "confirmed ex s chain h \<longleftrightarrow>
     (\<exists>b. get_block s chain h = Some b \<and> ex_block_hash ex h = Some (blk_block_hash b))"

lemma find_ancestor_spec:
  assumes "n < 2 ^ 64" "\<forall>h. unat h \<le> n \<longrightarrow> ex_block_hash ex h \<noteq> None"
  shows "case find_ancestor ex s chain n of
      None \<Rightarrow> \<forall>h. 0 < h \<and> unat h \<le> n \<longrightarrow> \<not> confirmed ex s chain h
    | Some a \<Rightarrow> 0 < a \<and> unat a \<le> n \<and> confirmed ex s chain a
        \<and> (\<forall>h. a < h \<and> unat h \<le> n \<longrightarrow> \<not> confirmed ex s chain h)"
  using assms
proof (induction n)
  case 0
  then show ?case by (auto simp: word_gt_0 unat_eq_0)
next
  case (Suc n)
  let ?h = "word_of_nat (Suc n) :: u64"
  have u: "unat ?h = Suc n" using Suc.prems by (intro of_nat_inverse [OF refl]) simp
  have ih: "case find_ancestor ex s chain n of
      None \<Rightarrow> \<forall>h. 0 < h \<and> unat h \<le> n \<longrightarrow> \<not> confirmed ex s chain h
    | Some a \<Rightarrow> 0 < a \<and> unat a \<le> n \<and> confirmed ex s chain a
        \<and> (\<forall>h. a < h \<and> unat h \<le> n \<longrightarrow> \<not> confirmed ex s chain h)"
    using Suc.IH Suc.prems by simp
  have top: "h = ?h" if "unat h = Suc n" for h :: u64 using that u by (metis word_unat_eq_iff)
  obtain l where l: "ex_block_hash ex ?h = Some l" using Suc.prems(2) u by (metis option.exhaust order_refl)
  show ?case
  proof (cases "confirmed ex s chain ?h")
    case True
    then have "find_ancestor ex s chain (Suc n) = Some ?h" using l by (auto simp: confirmed_def)
    moreover have "0 < ?h" using u by (metis neq0_conv old.nat.distinct(2) unat_0 word_gt_0)
    ultimately show ?thesis using True u by (auto simp: word_less_nat_alt)
  next
    case False
    then have "find_ancestor ex s chain (Suc n) = find_ancestor ex s chain n"
      using l by (auto simp: confirmed_def simp del: of_nat_Suc split: option.split)
    then show ?thesis using ih False top by (auto simp: le_Suc_eq split: option.splits)
  qed
qed

text \<open>
  The loop as the code writes it, with its two ways out: the state is the height it looks at,
  whether it found the ancestor, and whether it breaks.
\<close>

definition backtrack_step :: "explorer \<Rightarrow> store \<Rightarrow> string \<Rightarrow> u64 \<times> bool \<times> bool \<Rightarrow> u64 \<times> bool \<times> bool" where
  "backtrack_step ex s chain st =
     (let (ancestor, found, stop) = st in
      case get_block s chain ancestor of
        None \<Rightarrow> (saturating_pred ancestor, found, stop)
      | Some prev_local \<Rightarrow>
          (case ex_block_hash ex ancestor of
             None \<Rightarrow> (ancestor, found, True)
           | Some prev_l1_hash \<Rightarrow>
               if prev_l1_hash = blk_block_hash prev_local then (ancestor, True, True)
               else (saturating_pred ancestor, found, stop)))"

definition backtrack_goes_on :: "u64 \<times> bool \<times> bool \<Rightarrow> bool" where
  "backtrack_goes_on st = (let (ancestor, found, stop) = st in 0 < ancestor \<and> \<not> stop)"

definition backtrack :: "explorer \<Rightarrow> store \<Rightarrow> string \<Rightarrow> u64 \<Rightarrow> (u64 \<times> bool \<times> bool) option" where
  "backtrack ex s chain start = while_option backtrack_goes_on (backtrack_step ex s chain) (start, False, False)"

lemma backtrack_stopped: "while_option backtrack_goes_on (backtrack_step ex s chain) (a, f, True) = Some (a, f, True)"
  by (subst while_option_unfold) (simp add: backtrack_goes_on_def)

text \<open>
  C29. The search for the common ancestor ends, whatever the blocks and the explorer's answers are, and
  what it leaves behind is the result of the recursion: the highest local block below the fork that
  the explorer confirms, or nothing when an answer is missing or genesis is reached.
\<close>

theorem backtrack_ends:
  "case find_ancestor ex s chain (unat start) of
     Some a \<Rightarrow> backtrack ex s chain start = Some (a, True, True)
   | None \<Rightarrow> \<exists>a stop. backtrack ex s chain start = Some (a, False, stop)"
proof (induction "unat start" arbitrary: start)
  case 0
  then have "start = 0" by (simp add: unat_eq_0)
  then have "backtrack ex s chain start = Some (0, False, False)"
    unfolding backtrack_def by (subst while_option_unfold) (simp add: backtrack_goes_on_def)
  moreover have "find_ancestor ex s chain (unat start) = None" using 0 by simp
  ultimately show ?case by (simp only: option.case) blast
next
  case (Suc n)
  have start: "start = word_of_nat (Suc n)" using Suc.hyps(2) by simp
  have pos: "0 < start" using Suc.hyps(2) by (metis nat.distinct(1) unat_0 word_gt_0)
  then have p: "unat (saturating_pred start) = n"
    using Suc.hyps(2) by (simp add: saturating_pred_def unat_minus_one word_gt_0)
  have step: "backtrack ex s chain start
      = while_option backtrack_goes_on (backtrack_step ex s chain) (backtrack_step ex s chain (start, False, False))"
    unfolding backtrack_def using pos by (subst while_option_unfold) (simp add: backtrack_goes_on_def)
  note ih = Suc.hyps(1) [of "saturating_pred start", unfolded p, OF refl]
  have f: "find_ancestor ex s chain (unat start) = (case get_block s chain start of
        None \<Rightarrow> find_ancestor ex s chain n
      | Some prev_local \<Rightarrow> (case ex_block_hash ex start of
             None \<Rightarrow> None
           | Some l1 \<Rightarrow> if l1 = blk_block_hash prev_local then Some start else find_ancestor ex s chain n))"
    by (simp only: Suc.hyps(2) [symmetric] find_ancestor.simps(2) start [symmetric])
  show ?case
    using ih unfolding step f
    by (auto simp: backtrack_step_def backtrack_stopped backtrack_def split: option.splits)
qed

section \<open>What a tick does to the block table\<close>

text \<open>
  The block table of a chain that is synced up to its last height: every block sits under its own
  height, none is above the last, and the last is there.
\<close>

definition chain_ok :: "string \<Rightarrow> store \<Rightarrow> bool" where
  "chain_ok chain s \<longleftrightarrow> tbl_ok (st_blocks s)
     \<and> (\<forall>h b. get_block s chain h = Some b \<longrightarrow> 0 < h \<and> blk_block_height b = h \<and> h \<le> get_last_sync_block s chain)
     \<and> (get_last_sync_block s chain \<noteq> 0 \<longrightarrow> get_block s chain (get_last_sync_block s chain) \<noteq> None)"

text \<open>
  The writes of the block processor to the store: objects, undo logs, transitions and contract
  code, nothing else. What each of them keeps is kept by a transaction, and what the bookkeeping of
  a tick keeps too is kept by the tick.
\<close>

locale store_kept = object_kept L P
  for L :: libs and P :: "store \<Rightarrow> bool" +
  assumes kept_undo_log: "P s \<Longrightarrow> P (save_undo_log u s)"
    and kept_transition: "P s \<Longrightarrow> P (save_transition t s)"
    and kept_wasm: "P s \<Longrightarrow> P (snd (save_wasm L c b s))"
begin

lemma process_tx_kept:
  assumes "process_tx L E bp now tx h s = Ret (r, s')" "P s"
  shows "P s'"
  using assms(1)
proof (cases rule: process_tx_cases)
  case (created i env)
  then show ?thesis using assms(2)
    by (auto simp: process_create_def store_deployed_wasm_def rbind_Ret_iff Let_def
        intro!: kept_object kept_undo_log kept_wasm split: if_splits)
next
  case (called i md obj)
  then show ?thesis using assms(2)
    by (auto simp: process_call_def Let_def intro!: kept_object kept_undo_log kept_transition split: call_run.splits)
qed (use assms(2) in simp_all)

lemma sync_tx_kept:
  assumes "sync_tx L E bp ex now h tx s = Ret s'" "P s"
  shows "P s'"
proof -
  from assms obtain r s1 where p: "process_tx L E bp now tx h s = Ret (r, s1)" by (auto simp: sync_tx_def rbind_Ret_iff)
  with assms(2) have s1: "P s1" by (auto intro: process_tx_kept)
  show ?thesis
  proof (cases "s' = s1")
    case False
    then obtain c w r2 s2 where w: "save_wasm L c w s1 = (r2, s2)"
      and cont: "s' = s2 \<or> (\<exists>r3. process_tx L E bp now tx h s2 = Ret (r3, s'))"
      using assms p by (auto simp: sync_tx_def rbind_Ret_iff split: sum.splits option.splits prod.splits)
    have "P s2" using kept_wasm [OF s1, of c w] w by simp
    then show ?thesis using cont process_tx_kept by metis
  qed (use s1 in simp)
qed

lemma sync_txs_kept: "sync_txs L E bp ex now h txs s = Ret s' \<Longrightarrow> P s \<Longrightarrow> P s'"
  by (induction txs arbitrary: s) (auto simp: rbind_Ret_iff dest: sync_tx_kept)

end

interpretation block_tables: store_kept L "\<lambda>s. (st_blocks s, st_chain_meta s) = v" for L v
  by unfold_locales (simp_all add: save_object_def save_undo_log_def save_transition_def save_wasm_def Let_def)

locale tick_kept = store_kept L P
  for L :: libs and P :: "store \<Rightarrow> bool" +
  assumes kept_block: "P s \<Longrightarrow> P (save_block b s)"
    and kept_last: "P s \<Longrightarrow> P (set_last_sync_block c h s)"
    and kept_root: "P s \<Longrightarrow> P (snd (current_state_root L s))"
    and kept_rollback: "P s \<Longrightarrow> P (snd (rollback_to_block L c h s))"
begin

lemma sync_block_kept:
  "sync_block L E bp cfg ex now h (s, cm) = Ret (s', cm') \<Longrightarrow> P s \<Longrightarrow> P s'"
  unfolding sync_block_def Let_def prod.case
  by (auto simp: rbind_Ret_iff case_prod_beta intro!: kept_block kept_last kept_root split: option.splits dest: sync_txs_kept)

lemma sync_blocks_kept:
  "sync_blocks L E bp cfg ex now hs (s, cm) = Ret (s', cm') \<Longrightarrow> P s \<Longrightarrow> P s'"
proof (induction hs arbitrary: s cm)
  case (Cons h hs)
  then obtain s1 cm1 where "sync_block L E bp cfg ex now h (s, cm) = Ret (s1, cm1)"
    "sync_blocks L E bp cfg ex now hs (s1, cm1) = Ret (s', cm')" by (auto simp: rbind_Ret_iff)
  then show ?case using Cons sync_block_kept by blast
qed simp

lemma sync_tick_kept:
  assumes "sync_tick L E bp cfg ex now (s, cm) = Ret (s', cm')" "P s"
  shows "P s'"
proof -
  have "P s1" if "check_reorg L ex c l s = Some (a, s1)" for c l a s1
    using that assms(2) by (auto simp: check_reorg_def kept_rollback split: if_splits option.splits)
  then show ?thesis
    using assms by (auto simp: sync_tick_def split: option.splits if_splits) (metis sync_blocks_kept)
qed

end

lemma sync_block_effect:
  assumes "sync_block L E bp cfg ex now h (s, cm) = Ret (s', cm')" "ex_block_hash ex h = Some bh"
  shows "\<exists>b. blk_block_height b = h \<and> blk_block_hash b = bh
      \<and> get_block s' (sy_chain cfg) = (get_block s (sy_chain cfg))(h \<mapsto> b)"
    and "get_last_sync_block s' (sy_chain cfg) = h" and "tbl_ok (st_blocks s) \<Longrightarrow> tbl_ok (st_blocks s')"
proof -
  from assms obtain s1 where t: "(case ex_block_txs ex bh of None \<Rightarrow> Ret s | Some txs \<Rightarrow> sync_txs L E bp ex now h txs s) = Ret s1"
    and s': "s' = set_last_sync_block (sy_chain cfg) h (save_block
       \<lparr>blk_chain = sy_chain cfg, blk_block_height = h, blk_block_hash = bh, blk_prev_hash = None,
        blk_state_root = fst (current_state_root L s1), blk_timestamp = now\<rparr> (snd (current_state_root L s1)))"
    unfolding sync_block_def Let_def prod.case by (auto simp: rbind_Ret_iff case_prod_beta)
  have b: "st_blocks s1 = st_blocks s"
    using t by (auto split: option.splits dest!: block_tables.sync_txs_kept [OF _ refl])
  have b': "st_blocks s' = tbl_insert (block_key (sy_chain cfg) h)
       \<lparr>blk_chain = sy_chain cfg, blk_block_height = h, blk_block_hash = bh, blk_prev_hash = None,
        blk_state_root = fst (current_state_root L s1), blk_timestamp = now\<rparr> (st_blocks s)"
    by (simp add: s' b set_last_sync_block_def save_block_def current_state_root_def case_prod_beta)
  show "\<exists>b. blk_block_height b = h \<and> blk_block_hash b = bh
      \<and> get_block s' (sy_chain cfg) = (get_block s (sy_chain cfg))(h \<mapsto> b)"
    by (intro exI [of _ "\<lparr>blk_chain = sy_chain cfg, blk_block_height = h, blk_block_hash = bh, blk_prev_hash = None,
        blk_state_root = fst (current_state_root L s1), blk_timestamp = now\<rparr>"])
      (simp add: get_block_def b' block_key_injective fun_eq_iff)
  show "get_last_sync_block s' (sy_chain cfg) = h"
    by (simp add: s' get_last_sync_block_def set_last_sync_block_def)
  show "tbl_ok (st_blocks s) \<Longrightarrow> tbl_ok (st_blocks s')" by (simp add: b' tbl_ok_insert)
qed

lemma sync_blocks_effect:
  assumes "sync_blocks L E bp cfg ex now hs (s, cm) = Ret (s', cm')" "\<forall>h \<in> set hs. ex_block_hash ex h \<noteq> None"
    and "tbl_ok (st_blocks s)"
  shows "tbl_ok (st_blocks s')
    \<and> (\<forall>h. h \<notin> set hs \<longrightarrow> get_block s' (sy_chain cfg) h = get_block s (sy_chain cfg) h)
    \<and> (\<forall>h \<in> set hs. confirmed ex s' (sy_chain cfg) h
          \<and> (\<forall>b. get_block s' (sy_chain cfg) h = Some b \<longrightarrow> blk_block_height b = h))
    \<and> get_last_sync_block s' (sy_chain cfg) = (if hs = [] then get_last_sync_block s (sy_chain cfg) else last hs)"
  using assms
proof (induction hs arbitrary: s cm)
  case Nil
  then show ?case by simp
next
  case (Cons h hs)
  from Cons.prems obtain s1 cm1 where one: "sync_block L E bp cfg ex now h (s, cm) = Ret (s1, cm1)"
    and rest: "sync_blocks L E bp cfg ex now hs (s1, cm1) = Ret (s', cm')" by (auto simp: rbind_Ret_iff)
  from Cons.prems obtain bh where bh: "ex_block_hash ex h = Some bh" by auto
  obtain b where b: "blk_block_height b = h" "blk_block_hash b = bh"
    "get_block s1 (sy_chain cfg) = (get_block s (sy_chain cfg))(h \<mapsto> b)"
    using sync_block_effect(1) [OF one bh] by blast
  have last1: "get_last_sync_block s1 (sy_chain cfg) = h" by (rule sync_block_effect(2) [OF one bh])
  have answers: "\<forall>h \<in> set hs. ex_block_hash ex h \<noteq> None" using Cons.prems(2) by simp
  note ih = Cons.IH [OF rest answers sync_block_effect(3) [OF one bh Cons.prems(3)]]
  have ok: "tbl_ok (st_blocks s')"
    and out: "\<And>x. x \<notin> set hs \<Longrightarrow> get_block s' (sy_chain cfg) x = get_block s1 (sy_chain cfg) x"
    and inn: "\<And>x. x \<in> set hs \<Longrightarrow> confirmed ex s' (sy_chain cfg) x
          \<and> (\<forall>b. get_block s' (sy_chain cfg) x = Some b \<longrightarrow> blk_block_height b = x)"
    and lst: "get_last_sync_block s' (sy_chain cfg) = (if hs = [] then h else last hs)"
    using ih last1 by auto
  have here: "confirmed ex s' (sy_chain cfg) h \<and> (\<forall>b. get_block s' (sy_chain cfg) h = Some b \<longrightarrow> blk_block_height b = h)"
  proof (cases "h \<in> set hs")
    case False
    then have "get_block s' (sy_chain cfg) h = Some b" using out b(3) by simp
    then show ?thesis using b bh by (simp add: confirmed_def)
  qed (rule inn)
  show ?case
  proof (intro conjI allI ballI impI)
    show "tbl_ok (st_blocks s')" by (rule ok)
    show "get_last_sync_block s' (sy_chain cfg) = (if h # hs = [] then get_last_sync_block s (sy_chain cfg) else last (h # hs))"
      using lst by simp
    show "get_block s' (sy_chain cfg) x = get_block s (sy_chain cfg) x" if "x \<notin> set (h # hs)" for x
      using that out b(3) by simp
    show "confirmed ex s' (sy_chain cfg) x" if "x \<in> set (h # hs)" for x
      using that here inn by auto
    show "blk_block_height c = x" if "x \<in> set (h # hs)" "get_block s' (sy_chain cfg) x = Some c" for x c
      using that here inn by auto
  qed
qed

subsection \<open>The rollback\<close>

lemma undo_one_blocks: "st_blocks (undo_one th log s) = st_blocks s"
  by (auto simp: undo_one_def drop_current_seal_def Let_def split: option.split)

lemma undo_fold_blocks: "st_blocks (fold (\<lambda>(u, log). undo_one th log) logs s) = st_blocks s"
  by (induction logs arbitrary: s) (auto simp: undo_one_blocks)

lemma undo_fold_bridge:
  "st_bridge_transfers (fold (\<lambda>(u, log). undo_one th log) logs s) = st_bridge_transfers s"
  "st_minted_proofs (fold (\<lambda>(u, log). undo_one th log) logs s) = st_minted_proofs s"
  by (induction logs arbitrary: s) (auto simp: undo_one_def drop_current_seal_def Let_def split: option.split)

text \<open>No tick, with or without a rollback, touches what the bridge keeps in the store.\<close>

interpretation bridge_tables: tick_kept L "\<lambda>s. (st_bridge_transfers s, st_minted_proofs s) = v" for L v
  by unfold_locales
    (simp_all add: save_object_def save_undo_log_def save_transition_def save_wasm_def save_block_def
      set_last_sync_block_def current_state_root_def rollback_to_block_def undo_fold_bridge case_prod_beta Let_def)

text \<open>
  Every object stays under its own id and every contract code under its hash, whatever the blocks
  and the contract store of the network hold.
\<close>

definition content_ok :: "libs \<Rightarrow> store \<Rightarrow> bool" where
  "content_ok L s \<longleftrightarrow> keyed (st_objects s) \<and> wasm_ok L s \<and> tbl_ok (st_undo_logs s)"

lemma content_ok_root: "content_ok L s \<Longrightarrow> content_ok L (s\<lparr>st_smt := t\<rparr>)"
  by (simp add: content_ok_def wasm_ok_def)

lemma content_ok_undo: "content_ok L s \<Longrightarrow> content_ok L (undo_one th log s)"
  by (auto simp: content_ok_def keyed_def wasm_ok_def undo_one_def drop_current_seal_def restored_object_def Let_def
      split: option.split)

lemma content_ok_rollback:
  assumes "content_ok L s"
  shows "content_ok L (snd (rollback_to_block L c h s))"
proof -
  have "content_ok L (fold (\<lambda>(_, log). undo_one h log) logs s)" for logs
    using assms by (induction logs arbitrary: s) (auto simp: content_ok_undo)
  from this [of "logs_above c h (st_undo_logs s)"] show ?thesis
    by (simp add: rollback_to_block_def Let_def content_ok_def wasm_ok_def fold_remove_ok)
qed

interpretation contents: tick_kept L "content_ok L" for L
proof unfold_locales
  show "content_ok L (save_object L ob s)" if "content_ok L s" for ob s
    using that by (auto simp: content_ok_def keyed_def wasm_ok_def save_object_tables)
  show "content_ok L (snd (save_wasm L c b s))" if "content_ok L s" for c b s
    using that by (auto simp: content_ok_def wasm_ok_def save_wasm_def Let_def)
qed (auto simp: content_ok_rollback, auto simp: content_ok_def wasm_ok_def save_undo_log_def save_transition_def
      save_block_def set_last_sync_block_def current_state_root_def case_prod_beta)

lemma tbl_get_fold_remove: "tbl_get (fold tbl_remove ks t) k = (if k \<in> set ks then None else tbl_get t k)"
  by (induction ks arbitrary: t) auto

lemma starts_with_block_key: "starts_with (chain @ '':'') (block_key chain h)"
  by (simp add: starts_with_def block_key_def)

lemma rollback_blocks:
  assumes "tbl_ok (st_blocks s)" "\<And>h b. get_block s chain h = Some b \<Longrightarrow> blk_block_height b = h"
    and r: "rollback_to_block L chain a s = (n, s')"
  shows "get_block s' chain h = (if h \<le> a then get_block s chain h else None)"
    "get_last_sync_block s' chain = a" "tbl_ok (st_blocks s')"
proof -
  have b: "st_blocks s' = fold tbl_remove (stale_block_keys chain a (st_blocks s)) (st_blocks s)"
    "st_chain_meta s' = tbl_insert (last_block_key chain) a (st_chain_meta (fold (\<lambda>(_, log). undo_one a log)
        (logs_above chain a (st_undo_logs s)) s))"
    using r by (auto simp: rollback_to_block_def Let_def undo_fold_blocks)
  show "get_last_sync_block s' chain = a" by (simp add: get_last_sync_block_def b(2))
  show "tbl_ok (st_blocks s')" unfolding b(1) by (rule fold_remove_ok [OF assms(1)])
  have "block_key chain h \<in> set (stale_block_keys chain a (st_blocks s))
      \<longleftrightarrow> (\<exists>c. get_block s chain h = Some c \<and> a < blk_block_height c)"
  proof -
    have "x \<in> set (stale_block_keys chain a t) \<longleftrightarrow>
        (\<exists>c. (x, c) \<in> set t \<and> starts_with (chain @ '':'') x \<and> a < blk_block_height c)" for x t
      by (induction t) (auto simp: stale_block_keys_def)
    then have "block_key chain h \<in> set (stale_block_keys chain a (st_blocks s)) \<longleftrightarrow>
        (\<exists>c. (block_key chain h, c) \<in> set (st_blocks s) \<and> a < blk_block_height c)"
      by (simp add: starts_with_block_key)
    then show ?thesis
      unfolding get_block_def using tbl_ok_get [OF assms(1)] tbl_get_Some_in by metis
  qed
  then show "get_block s' chain h = (if h \<le> a then get_block s chain h else None)"
    using assms(2) by (cases "get_block s chain h") (auto simp: get_block_def b(1) tbl_get_fold_remove not_le)
qed

text \<open>What the reorg check decides when the explorer answers up to the height last.\<close>

lemma ancestor_below:
  assumes pos: "l \<noteq> 0" and ans: "\<forall>h \<le> l. ex_block_hash ex h \<noteq> None"
  shows "case find_ancestor ex s chain (unat l - 1) of
      None \<Rightarrow> \<forall>h. 0 < h \<and> h < l \<longrightarrow> \<not> confirmed ex s chain h
    | Some a \<Rightarrow> 0 < a \<and> a < l \<and> confirmed ex s chain a \<and> (\<forall>h. a < h \<and> h < l \<longrightarrow> \<not> confirmed ex s chain h)"
proof -
  have lt: "unat h \<le> unat l - 1 \<longleftrightarrow> h < l" for h :: u64
    using pos by (auto simp: word_less_nat_alt unat_eq_0 [symmetric])
  have "unat l - 1 < 2 ^ 64" using unsigned_less [of l, where ?'a = nat] by simp
  moreover have "\<forall>h. unat h \<le> unat l - 1 \<longrightarrow> ex_block_hash ex h \<noteq> None"
    unfolding lt using ans by auto
  ultimately show ?thesis using find_ancestor_spec [of "unat l - 1" ex s chain] unfolding lt by blast
qed

lemma check_reorg_decides:
  assumes ok: "chain_ok chain s" and ans: "\<forall>h \<le> l. ex_block_hash ex h \<noteq> None"
    and l: "get_last_sync_block s chain \<le> l"
  shows "case check_reorg L ex chain l s of
      None \<Rightarrow> get_block s chain l \<noteq> None \<and> (\<forall>h. 0 < h \<and> h \<le> l \<longrightarrow> \<not> confirmed ex s chain h)
    | Some (a, s1) \<Rightarrow> a \<le> l \<and> (confirmed ex s chain a \<or> a = l \<and> get_block s chain l = None)
        \<and> (\<forall>h. a < h \<and> h \<le> l \<longrightarrow> \<not> confirmed ex s chain h)
        \<and> tbl_ok (st_blocks s1)
        \<and> (\<forall>h. get_block s1 chain h = (if h \<le> a then get_block s chain h else None))
        \<and> (s1 = s \<and> a = l \<or> a < l \<and> get_last_sync_block s1 chain = a)"
proof -
  have blocks: "tbl_ok (st_blocks s)" "\<And>h b. get_block s chain h = Some b \<Longrightarrow> blk_block_height b = h"
    "\<And>h b. get_block s chain h = Some b \<Longrightarrow> 0 < h \<and> h \<le> l"
    using ok l by (auto simp: chain_ok_def intro: order_trans)
  have same: "\<forall>h. get_block s chain h = (if h \<le> l then get_block s chain h else None)"
    using blocks(3) by (metis option.exhaust)
  show ?thesis
  proof (cases "l = 0 \<or> get_block s chain l = None \<or> confirmed ex s chain l")
    case True
    have "get_block s chain 0 = None" using blocks(3) by (metis option.exhaust word_neq_0_conv)
    then have "check_reorg L ex chain l s = Some (l, s)"
      using True by (auto simp: check_reorg_def confirmed_def split: option.split)
    moreover have "confirmed ex s chain l \<or> get_block s chain l = None"
      using True \<open>get_block s chain 0 = None\<close> by auto
    ultimately show ?thesis using blocks(1) same by auto
  next
    case False
    then obtain b where b: "get_block s chain l = Some b" and pos: "l \<noteq> 0" by auto
    obtain x where x: "ex_block_hash ex l = Some x" "x \<noteq> blk_block_hash b"
      using False ans b by (auto simp: confirmed_def)
    have p: "saturating_pred l = l - 1" "unat (l - 1) = unat l - 1"
      using pos by (simp_all add: saturating_pred_def unat_minus_one)
    have c: "check_reorg L ex chain l s = (case find_ancestor ex s chain (unat l - 1) of
        Some a \<Rightarrow> Some (a, snd (rollback_to_block L chain a s)) | None \<Rightarrow> None)"
      using pos b x by (simp add: check_reorg_def p)
    note f = ancestor_below [OF pos ans, of s chain]
    show ?thesis
    proof (cases "find_ancestor ex s chain (unat l - 1)")
      case None
      then show ?thesis using c f False by (auto simp: order_le_less)
    next
      case (Some a)
      obtain n s1 where r: "rollback_to_block L chain a s = (n, s1)" by fastforce
      note rb = rollback_blocks [OF blocks(1,2) r]
      have a: "a < l" using f Some by simp
      then show ?thesis using c f Some r rb False by (auto simp: order_le_less)
    qed
  qed
qed

section \<open>A tick follows the explorer's chain\<close>

lemma new_heights_set: "h \<in> set (new_heights a t) \<longleftrightarrow> a < h \<and> h \<le> t"
proof
  assume "h \<in> set (new_heights a t)"
  then obtain n where "h = word_of_nat n" "n \<in> set [unat a + 1 ..< unat t + 1]"
    unfolding new_heights_def set_map by (rule imageE)
  then have n: "h = word_of_nat n" "unat a < n" "n \<le> unat t"
    unfolding set_upt atLeastLessThan_iff by linarith+
  have "unat h = n" using n unsigned_less [of t, where ?'a = nat] by (intro of_nat_inverse [OF n(1) [symmetric]]) simp
  then show "a < h \<and> h \<le> t" using n by (simp add: word_less_nat_alt word_le_nat_alt)
next
  assume "a < h \<and> h \<le> t"
  then have "unat h \<in> set [unat a + 1 ..< unat t + 1]" by (auto simp: word_less_nat_alt word_le_nat_alt)
  then have "word_of_nat (unat h) \<in> set (new_heights a t)" unfolding new_heights_def set_map by (rule imageI)
  then show "h \<in> set (new_heights a t)" by simp
qed

lemma new_heights_last: "a < t \<Longrightarrow> new_heights a t \<noteq> [] \<and> last (new_heights a t) = t"
  by (simp add: new_heights_def word_less_nat_alt last_map)

lemma blocks_replaced:
  fixes cfg :: sync_config
  defines "c \<equiv> sy_chain cfg"
  assumes run: "sync_blocks L E bp cfg ex now (new_heights a t) (s1, cm) = Ret (s', cm')" and lt: "a < t"
    and ans: "\<forall>h \<le> t. ex_block_hash ex h \<noteq> None" and tbl: "tbl_ok (st_blocks s1)"
    and cut: "\<And>h. get_block s1 c h = (if h \<le> a then get_block s c h else None)"
    and old: "\<And>h b. get_block s c h = Some b \<Longrightarrow> 0 < h \<and> blk_block_height b = h"
  shows "\<forall>h. a < h \<and> h \<le> t \<longrightarrow> confirmed ex s' c h" "\<forall>h \<le> a. get_block s' c h = get_block s c h"
    "\<forall>h > t. get_block s' c h = None" "get_last_sync_block s' c = t" "chain_ok c s'"
proof -
  have hs: "\<forall>h \<in> set (new_heights a t). ex_block_hash ex h \<noteq> None" using ans by (simp add: new_heights_set)
  note e = sync_blocks_effect [OF run hs tbl, folded c_def]
  have new: "confirmed ex s' c h \<and> (\<forall>b. get_block s' c h = Some b \<longrightarrow> blk_block_height b = h)" if "a < h" "h \<le> t" for h
    using e that by (simp add: new_heights_set)
  have keep: "get_block s' c h = (if h \<le> a then get_block s c h else None)" if "\<not> (a < h \<and> h \<le> t)" for h
    using e that cut [of h] by (simp add: new_heights_set)
  show "\<forall>h. a < h \<and> h \<le> t \<longrightarrow> confirmed ex s' c h" using new by blast
  show "\<forall>h \<le> a. get_block s' c h = get_block s c h" using keep by (simp add: not_less)
  show "\<forall>h > t. get_block s' c h = None" using keep lt by (auto simp: not_le intro: order.strict_trans)
  show lst: "get_last_sync_block s' c = t" using e new_heights_last [OF lt] by simp
  show "chain_ok c s'"
    unfolding chain_ok_def lst
  proof (intro conjI allI impI)
    show "tbl_ok (st_blocks s')" using e by simp
    show "get_block s' c t \<noteq> None" using new [OF lt order_refl] by (auto simp: confirmed_def)
  next
    fix h b assume b: "get_block s' c h = Some b"
    have "0 < h \<and> blk_block_height b = h \<and> h \<le> t"
    proof (cases "a < h \<and> h \<le> t")
      case True
      then show ?thesis using new b by (auto simp: word_gt_0)
    next
      case False
      then have "h \<le> a" "get_block s c h = Some b" using keep b by (auto split: if_splits)
      then show ?thesis using old lt by (auto intro: order_trans)
    qed
    then show "0 < h" "blk_block_height b = h" "h \<le> t" by auto
  qed
qed

lemma beyond_tip:
  assumes "\<And>h. get_block s chain h = (if h \<le> t then get_block s chain h else None)" and "t < (h :: u64)"
  shows "get_block s chain h = None"
proof -
  have "\<not> h \<le> t" using assms(2) by (simp only: not_le)
  then show ?thesis using assms(1) [of h] by (simp only: if_False)
qed

text \<open>
  C10. A tick follows the explorer. On a consistent block table, when the explorer answers for
  every height up to its tip and the tip is not below the last synced height, a tick keeps exactly
  the local blocks up to the highest confirmed one, replaces everything above it by the explorer's
  blocks up to the tip, and leaves a consistent table again, whether there was a reorganisation or
  not; without any confirmed block it changes nothing.
\<close>

theorem sync_follows_chain:
  assumes ok: "chain_ok (sy_chain cfg) s" and tip: "ex_tip ex = Some t"
    and ans: "\<forall>h \<le> t. ex_block_hash ex h \<noteq> None" and l: "last_synced cfg s \<le> t"
    and tick: "sync_tick L E bp cfg ex now (s, cm) = Ret (s', cm')"
  shows "(s', cm') = (s, cm) \<and> get_block s (sy_chain cfg) (last_synced cfg s) \<noteq> None
      \<and> (\<forall>h. 0 < h \<and> h \<le> last_synced cfg s \<longrightarrow> \<not> confirmed ex s (sy_chain cfg) h)
    \<or> (\<exists>a \<le> last_synced cfg s.
         (confirmed ex s (sy_chain cfg) a
            \<or> a = last_synced cfg s \<and> get_block s (sy_chain cfg) a = None)
       \<and> (\<forall>h. a < h \<and> h \<le> last_synced cfg s \<longrightarrow> \<not> confirmed ex s (sy_chain cfg) h)
       \<and> (\<forall>h \<le> a. get_block s' (sy_chain cfg) h = get_block s (sy_chain cfg) h)
       \<and> (\<forall>h. a < h \<and> h \<le> t \<longrightarrow> confirmed ex s' (sy_chain cfg) h)
       \<and> (\<forall>h > t. get_block s' (sy_chain cfg) h = None)
       \<and> (a < t \<longrightarrow> get_last_sync_block s' (sy_chain cfg) = t)
       \<and> chain_ok (sy_chain cfg) s')"
proof -
  let ?c = "sy_chain cfg" and ?l = "last_synced cfg s"
  have gl: "get_last_sync_block s ?c \<le> ?l"
    by (cases "get_last_sync_block s ?c = 0") (simp_all add: last_synced_def Let_def)
  have ans': "\<forall>h \<le> ?l. ex_block_hash ex h \<noteq> None" using ans l by auto
  note d = check_reorg_decides [OF ok ans' gl, of L]
  show ?thesis
  proof (cases "check_reorg L ex ?c ?l s")
    case None
    then have "(s', cm') = (s, cm)" using tick tip by (simp add: sync_tick_def)
    then show ?thesis using d None by simp
  next
    case (Some x)
    obtain a s1 where x: "x = (a, s1)" by fastforce
    have c: "check_reorg L ex ?c ?l s = Some (a, s1)" using Some x by simp
    have a: "a \<le> ?l" "confirmed ex s ?c a \<or> a = ?l \<and> get_block s ?c ?l = None"
      "\<forall>h. a < h \<and> h \<le> ?l \<longrightarrow> \<not> confirmed ex s ?c h" "tbl_ok (st_blocks s1)"
      "\<And>h. get_block s1 ?c h = (if h \<le> a then get_block s ?c h else None)"
      "s1 = s \<and> a = ?l \<or> a < ?l"
      using d unfolding c by auto
    have at: "a \<le> t" using a(1) l by (rule order_trans)
    have old: "0 < h \<and> blk_block_height b = h" if "get_block s ?c h = Some b" for h b
      using ok that by (auto simp: chain_ok_def)
    show ?thesis
    proof (cases "a < t")
      case True
      then have "sync_blocks L E bp cfg ex now (new_heights a t) (s1, cm) = Ret (s', cm')"
        using tick tip c by (simp add: sync_tick_def)
      from blocks_replaced [OF this True ans a(4) a(5) old] show ?thesis
        using a(1,2,3) by (intro disjI2 exI [of _ a]) auto
    next
      case False
      then have eq: "a = t" using at by simp
      then have "a = ?l" using a(1) l by simp
      then have "s1 = s" using a(6) by simp
      moreover have "s' = s1" using tick tip c False by (simp add: sync_tick_def)
      moreover have "get_block s ?c h = None" if "t < h" for h
        using beyond_tip [OF _ that] a(5) unfolding eq \<open>s1 = s\<close> by blast
      ultimately show ?thesis using a(1,2,3) ok eq \<open>a = ?l\<close> by (intro disjI2 exI [of _ a]) auto
    qed
  qed
qed

section \<open>Every history keeps the table consistent\<close>

lemma chain_ok_block:
  assumes ok: "chain_ok (sy_chain cfg) s" and h: "get_last_sync_block s (sy_chain cfg) < h"
    and b: "sync_block L E bp cfg ex now h (s, cm) = Ret (s', cm')"
  shows "chain_ok (sy_chain cfg) s'
    \<and> (get_last_sync_block s' (sy_chain cfg) = get_last_sync_block s (sy_chain cfg) \<or> get_last_sync_block s' (sy_chain cfg) = h)"
proof (cases "ex_block_hash ex h")
  case None
  then show ?thesis using ok b by (simp add: sync_block_def)
next
  case (Some bh)
  have tok: "tbl_ok (st_blocks s)" using ok by (simp add: chain_ok_def)
  obtain blk where blk: "blk_block_height blk = h" "get_block s' (sy_chain cfg) = (get_block s (sy_chain cfg))(h \<mapsto> blk)"
    using sync_block_effect(1) [OF b Some] by blast
  have lst: "get_last_sync_block s' (sy_chain cfg) = h" by (rule sync_block_effect(2) [OF b Some])
  have "0 < h" using h by (metis word_gt_0 word_not_simps(1))
  then have "chain_ok (sy_chain cfg) s'"
    using ok h blk sync_block_effect(3) [OF b Some tok]
    by (auto simp: chain_ok_def lst intro: order.strict_implies_order order.strict_trans1 split: if_splits)
  with lst show ?thesis by simp
qed

lemma chain_ok_blocks:
  assumes "chain_ok (sy_chain cfg) s" "sorted_wrt (<) hs" "\<forall>h \<in> set hs. get_last_sync_block s (sy_chain cfg) < h"
    and "sync_blocks L E bp cfg ex now hs (s, cm) = Ret (s', cm')"
  shows "chain_ok (sy_chain cfg) s'"
  using assms
proof (induction hs arbitrary: s cm)
  case (Cons h hs)
  from Cons.prems obtain s1 cm1 where one: "sync_block L E bp cfg ex now h (s, cm) = Ret (s1, cm1)"
    and rest: "sync_blocks L E bp cfg ex now hs (s1, cm1) = Ret (s', cm')" by (auto simp: rbind_Ret_iff)
  have h: "get_last_sync_block s (sy_chain cfg) < h" using Cons.prems(3) by simp
  from chain_ok_block [OF Cons.prems(1) h one] show ?case
    using Cons.IH [OF _ _ _ rest] Cons.prems(2,3) by auto
qed simp

lemma new_heights_sorted: "sorted_wrt (<) (new_heights a t)"
proof -
  have "unat (word_of_nat n :: u64) = n" if "n \<in> set [unat a + 1 ..< unat t + 1]" for n
    using that unsigned_less [of t, where ?'a = nat] unfolding set_upt atLeastLessThan_iff
    by (intro of_nat_inverse [OF refl]) simp
  then have "sorted_wrt (\<lambda>m n. (word_of_nat m :: u64) < word_of_nat n) [unat a + 1 ..< unat t + 1]"
    by (intro sorted_wrt_mono_rel [OF _ sorted_wrt_upt]) (simp add: word_less_nat_alt del: upt_Suc)
  then show ?thesis by (simp only: new_heights_def sorted_wrt_map)
qed

lemma find_ancestor_there:
  "find_ancestor ex s chain n = Some a \<Longrightarrow> confirmed ex s chain a"
  by (induction n) (auto simp: confirmed_def simp del: of_nat_Suc split: option.splits if_splits)

lemma chain_ok_reorg:
  assumes ok: "chain_ok chain s" and c: "check_reorg L ex chain l s = Some (a, s1)"
    and l: "get_last_sync_block s chain \<le> l"
  shows "chain_ok chain s1 \<and> get_last_sync_block s1 chain \<le> a"
proof (cases "s1 = s \<and> a = l")
  case False
  then obtain n where f: "find_ancestor ex s chain (unat (saturating_pred l)) = Some a"
    and r: "rollback_to_block L chain a s = (n, s1)"
    using c by (auto simp: check_reorg_def prod_eq_iff split: option.splits if_splits)
  note rb = rollback_blocks [OF _ _ r, unfolded atomize_imp]
  have pre: "tbl_ok (st_blocks s)" "\<And>h b. get_block s chain h = Some b \<Longrightarrow> blk_block_height b = h"
    using ok by (auto simp: chain_ok_def)
  note rb = rollback_blocks [OF pre r]
  have "get_block s chain a \<noteq> None" using find_ancestor_there [OF f] by (auto simp: confirmed_def)
  then show ?thesis using ok rb by (auto simp: chain_ok_def split: if_splits)
qed (use ok l in simp)

lemma chain_ok_tick:
  assumes ok: "chain_ok (sy_chain cfg) s" and tick: "sync_tick L E bp cfg ex now (s, cm) = Ret (s', cm')"
  shows "chain_ok (sy_chain cfg) s'"
proof (cases "s' = s")
  case False
  let ?l = "last_synced cfg s"
  have l: "get_last_sync_block s (sy_chain cfg) \<le> ?l"
    by (cases "get_last_sync_block s (sy_chain cfg) = 0") (simp_all add: last_synced_def Let_def)
  from tick False obtain a s1 where c: "check_reorg L ex (sy_chain cfg) ?l s = Some (a, s1)"
    and run: "s' = s1 \<or> (\<exists>t. a < t \<and> sync_blocks L E bp cfg ex now (new_heights a t) (s1, cm) = Ret (s', cm'))"
    by (auto simp: sync_tick_def split: option.splits if_splits) blast
  from chain_ok_reorg [OF ok c l] have s1: "chain_ok (sy_chain cfg) s1" "get_last_sync_block s1 (sy_chain cfg) \<le> a"
    by auto
  from run show ?thesis
  proof
    assume "\<exists>t. a < t \<and> sync_blocks L E bp cfg ex now (new_heights a t) (s1, cm) = Ret (s', cm')"
    then obtain t where run: "sync_blocks L E bp cfg ex now (new_heights a t) (s1, cm) = Ret (s', cm')" by blast
    have "\<forall>h \<in> set (new_heights a t). get_last_sync_block s1 (sy_chain cfg) < h"
      using s1(2) by (auto simp: new_heights_set intro: order.strict_trans1)
    then show ?thesis by (rule chain_ok_blocks [OF s1(1) new_heights_sorted _ run])
  qed (use s1 in simp)
qed (use ok in simp)

text \<open>Ticks one after the other, each with the explorer of its moment.\<close>

fun sync_run :: "libs \<Rightarrow> 'g engine \<Rightarrow> block_processor \<Rightarrow> sync_config \<Rightarrow> (explorer \<times> i64) list \<Rightarrow> sync_state \<Rightarrow> sync_state rust" where
  "sync_run L E bp cfg [] st = Ret st"
| "sync_run L E bp cfg ((ex, now) # xs) st = rbind (sync_tick L E bp cfg ex now st) (sync_run L E bp cfg xs)"

lemma chain_ok_run:
  "chain_ok (sy_chain cfg) s \<Longrightarrow> sync_run L E bp cfg xs (s, cm) = Ret (s', cm') \<Longrightarrow> chain_ok (sy_chain cfg) s'"
proof (induction xs arbitrary: s cm)
  case (Cons x xs)
  obtain ex now where x: "x = (ex, now)" by fastforce
  from Cons.prems(2) obtain s1 cm1 where "sync_tick L E bp cfg ex now (s, cm) = Ret (s1, cm1)"
    "sync_run L E bp cfg xs (s1, cm1) = Ret (s', cm')" by (auto simp: x rbind_Ret_iff)
  then show ?case using Cons.IH chain_ok_tick [OF Cons.prems(1)] by blast
qed simp

lemma chain_ok_empty: "chain_ok chain (empty_store L)"
  by (simp add: chain_ok_def empty_store_def get_block_def get_last_sync_block_def)

text \<open>
  Whatever the explorer answers, tick after tick, and whatever the blocks contain, the block
  table of a node that started empty stays consistent: blocks sit under their own heights,
  none is above the last synced height, and that one is present.
\<close>

theorem sync_keeps_chain_ok:
  assumes "sync_run L E bp cfg xs (empty_store L, cm) = Ret (s', cm')"
  shows "chain_ok (sy_chain cfg) s'"
  using chain_ok_run [OF chain_ok_empty assms] .

section \<open>A chain and a fork of it\<close>

definition demo_explorer :: "string \<Rightarrow> explorer" where
  "demo_explorer tip_hash = \<lparr>ex_tip = Some 2, ex_block_hash = (\<lambda>h. Some (if h = 1 then ''h1'' else tip_hash)),
     ex_block_txs = (\<lambda>_. Some []), ex_contract = (\<lambda>_. None)\<rparr>"

definition demo_sync :: sync_config where
  "demo_sync = \<lparr>sy_chain = ''btc'', sy_start_height = None, sy_signer = None\<rparr>"

lemma sync_without_txs:
  assumes "\<And>b. ex_block_txs ex b = Some []"
  obtains st' where "sync_blocks L E bp cfg ex now hs st = Ret st'"
proof -
  have "\<exists>st'. sync_blocks L E bp cfg ex now hs st = Ret st'"
  proof (induction hs arbitrary: st)
    case (Cons h hs)
    obtain st1 where "sync_block L E bp cfg ex now h st = Ret st1"
      by (cases "ex_block_hash ex h") (auto simp: sync_block_def assms case_prod_beta Let_def)
    then show ?case using Cons by simp
  qed simp
  then show thesis using that by blast
qed

lemma demo_tick_runs: obtains st' where "sync_tick L E bp cfg (demo_explorer tip_hash) now st = Ret st'"
proof -
  have t: "ex_block_txs (demo_explorer tip_hash) b = Some []" for b by (simp add: demo_explorer_def)
  obtain s cm where st: "st = (s, cm)" by fastforce
  have "\<exists>st'. sync_tick L E bp cfg (demo_explorer tip_hash) now st = Ret st'"
  proof (cases "check_reorg L (demo_explorer tip_hash) (sy_chain cfg) (last_synced cfg s) s")
    case (Some x)
    obtain a s1 where x: "x = (a, s1)" by fastforce
    obtain st' where "sync_blocks L E bp cfg (demo_explorer tip_hash) now (new_heights a 2) (s1, cm) = Ret st'"
      by (rule sync_without_txs [OF t])
    then show ?thesis using Some by (simp add: sync_tick_def st x demo_explorer_def)
  qed (simp add: sync_tick_def st demo_explorer_def)
  then show thesis using that by blast
qed

lemma sync_keeps_chain_ok_witness:
  "\<exists>s cm. sync_run demo_libs demo_engine demo_bp demo_sync [(demo_explorer ''x'', 0), (demo_explorer ''y'', 1)]
      (empty_store demo_libs, cm_new 1) = Ret (s, cm) \<and> chain_ok ''btc'' s"
proof -
  obtain st1 where 1: "sync_tick demo_libs demo_engine demo_bp demo_sync (demo_explorer ''x'') 0 (empty_store demo_libs, cm_new 1) = Ret st1"
    by (rule demo_tick_runs)
  obtain st2 where 2: "sync_tick demo_libs demo_engine demo_bp demo_sync (demo_explorer ''y'') 1 st1 = Ret st2"
    by (rule demo_tick_runs)
  obtain s cm where st2: "st2 = (s, cm)" by fastforce
  have r: "sync_run demo_libs demo_engine demo_bp demo_sync [(demo_explorer ''x'', 0), (demo_explorer ''y'', 1)]
      (empty_store demo_libs, cm_new 1) = Ret (s, cm)"
    using 1 2 st2 by simp
  from sync_keeps_chain_ok [OF r] r show ?thesis by (auto simp: demo_sync_def)
qed

lemma sync_follows_chain_witness:
  "\<exists>s s' cm cm'. confirmed (demo_explorer ''x'') s ''btc'' 2
     \<and> sync_tick demo_libs demo_engine demo_bp demo_sync (demo_explorer ''y'') 1 (s, cm) = Ret (s', cm')
     \<and> confirmed (demo_explorer ''y'') s' ''btc'' 2"
proof -
  let ?tick = "sync_tick demo_libs demo_engine demo_bp demo_sync"
  have e: "ex_tip (demo_explorer t) = Some 2" "\<forall>h \<le> 2. ex_block_hash (demo_explorer t) h \<noteq> None" for t
    by (simp_all add: demo_explorer_def)
  have c: "sy_chain demo_sync = ''btc''" by (simp add: demo_sync_def)
  obtain st1 where r1: "?tick (demo_explorer ''x'') 0 (empty_store demo_libs, cm_new 1) = Ret st1" by (rule demo_tick_runs)
  obtain s cm where st1: "st1 = (s, cm)" by fastforce
  have l0: "last_synced demo_sync (empty_store demo_libs) = 0"
    by (simp add: last_synced_def demo_sync_def empty_store_def get_last_sync_block_def)
  have none: "get_block (empty_store demo_libs) ''btc'' h = None" for h by (simp add: get_block_def empty_store_def)
  have s: "confirmed (demo_explorer ''x'') s ''btc'' 1" "confirmed (demo_explorer ''x'') s ''btc'' 2"
    "get_last_sync_block s ''btc'' = 2" "chain_ok ''btc'' s"
    using sync_follows_chain [OF _ e _ r1 [unfolded st1]] chain_ok_empty l0 none by (auto simp: c)
  have l2: "last_synced demo_sync s \<le> 2" using s(3) by (simp add: last_synced_def c Let_def)
  obtain st2 where r2: "?tick (demo_explorer ''y'') 1 (s, cm) = Ret st2" by (rule demo_tick_runs)
  obtain s' cm' where st2: "st2 = (s', cm')" by fastforce
  have y1: "confirmed (demo_explorer ''y'') s ''btc'' 1"
    using s(1) by (simp add: confirmed_def demo_explorer_def)
  have ny: "\<not> confirmed (demo_explorer ''y'') s ''btc'' 2" "get_block s ''btc'' 2 \<noteq> None"
  proof -
    obtain b where "get_block s ''btc'' 2 = Some b" "blk_block_hash b = ''x''"
      using s(2) by (auto simp: confirmed_def demo_explorer_def dest: sym)
    then show "\<not> confirmed (demo_explorer ''y'') s ''btc'' 2" "get_block s ''btc'' 2 \<noteq> None"
      by (simp_all add: confirmed_def demo_explorer_def)
  qed
  have ls: "last_synced demo_sync s = 2" using s(3) by (simp add: last_synced_def c Let_def)
  from sync_follows_chain [OF s(4) [folded c] e l2 r2 [unfolded st2], unfolded c ls]
  have "confirmed (demo_explorer ''y'') s' ''btc'' 2"
  proof (elim disjE exE conjE)
    assume "\<forall>h. 0 < h \<and> h \<le> 2 \<longrightarrow> \<not> confirmed (demo_explorer ''y'') s ''btc'' h"
    then have "\<not> confirmed (demo_explorer ''y'') s ''btc'' 1" by (auto dest: spec [of _ 1])
    with y1 show ?thesis by simp
  next
    fix a assume a: "a \<le> (2 :: u64)" "\<forall>h. a < h \<and> h \<le> 2 \<longrightarrow> confirmed (demo_explorer ''y'') s' ''btc'' h"
      "confirmed (demo_explorer ''y'') s ''btc'' a"
    then have "a \<noteq> 2" using ny by auto
    then show ?thesis using a by (auto simp: order_le_less)
  next
    fix a assume "a = (2 :: u64)" "get_block s ''btc'' a = None"
    then show ?thesis using ny by simp
  qed
  then show ?thesis using s(2) r2 st2 by blast
qed

section \<open>What an error of the explorer does\<close>

text \<open>
  A block whose transactions could not be fetched is recorded as synced all the same, and a height
  whose hash could not be fetched is passed over by the next one. Later ticks start above both.
\<close>

lemma unfetched_block_is_synced:
  assumes "ex_block_hash ex h = Some bh" "ex_block_txs ex bh = None"
    and "sync_block L E bp cfg ex now h (s, cm) = Ret (s', cm')"
  shows "st_objects s' = st_objects s \<and> get_last_sync_block s' (sy_chain cfg) = h \<and> confirmed ex s' (sy_chain cfg) h"
proof -
  have "st_objects s' = st_objects s"
    using assms unfolding sync_block_def Let_def prod.case
    by (auto simp: case_prod_beta save_block_def set_last_sync_block_def current_state_root_def)
  then show ?thesis
    using sync_block_effect(1,2) [OF assms(3,1)] assms(1) by (auto simp: confirmed_def)
qed

lemma skipped_height:
  assumes "ex_block_hash ex h = None" "ex_block_hash ex (h + 1) = Some bh"
    and "sync_blocks L E bp cfg ex now [h, h + 1] (s, cm) = Ret (s', cm')"
  shows "get_last_sync_block s' (sy_chain cfg) = h + 1 \<and> get_block s' (sy_chain cfg) h = get_block s (sy_chain cfg) h"
proof -
  have b: "sync_block L E bp cfg ex now (h + 1) (s, cm) = Ret (s', cm')"
    using assms(1,3) by (auto simp: sync_block_def rbind_Ret_iff)
  have "h \<noteq> h + 1" by simp
  then show ?thesis using sync_block_effect(1,2) [OF b assms(2)] by auto
qed

text \<open>No rollback undoes what a mempool transaction wrote: its undo logs carry height 0.\<close>

lemma mempool_logs_kept: "undo_block_height (snd e) = 0 \<Longrightarrow> e \<notin> set (logs_above chain th t)"
  by (auto simp: logs_above_def)

end
