(* ===== verification/Convergence.thy ===== *)
theory Convergence
  imports Sync
begin

text \<open>
  Agreement of two nodes. What a block does to the objects is decided by the objects, the seals and
  the contract code alone: undo logs, transitions, bridge tables, attestations and clocks may
  differ. So two nodes that agree go on to record the same state roots, and a node that
  followed an orphaned branch and rolled it back ends like one that never saw the branch, as far
  as the code of the contracts is the same. The relation is carried through process_tx, sync_tx and
  the tick step by step.
\<close>

section \<open>Two runs side by side\<close>

fun rust_rel :: "('a \<Rightarrow> 'b \<Rightarrow> bool) \<Rightarrow> 'a rust \<Rightarrow> 'b rust \<Rightarrow> bool" where
  "rust_rel R (Ret x) (Ret y) = R x y"
| "rust_rel R Panic Panic = True"
| "rust_rel R _ _ = False"

lemma rust_rel_rbind:
  "rust_rel R m n \<Longrightarrow> (\<And>x y. R x y \<Longrightarrow> rust_rel S (f x) (g y)) \<Longrightarrow> rust_rel S (rbind m f) (rbind n g)"
  by (cases m; cases n) auto

lemma rust_rel_refl: "(\<And>x. R x x) \<Longrightarrow> rust_rel R m m"
  by (cases m) auto

lemma rust_rel_Ret: "rust_rel R m n \<Longrightarrow> n = Ret y \<Longrightarrow> \<exists>x. m = Ret x \<and> R x y"
  by (cases m) auto

section \<open>Agreement\<close>

text \<open>
  C is the set of code hashes whose code is the same at both nodes; the objects name no other.
  The trees may differ in what is cached, not in what they hold.
\<close>

definition agree :: "libs \<Rightarrow> string set \<Rightarrow> store \<Rightarrow> store \<Rightarrow> bool" where
  "agree L C a b \<longleftrightarrow> st_objects a = st_objects b \<and> st_seals a = st_seals b
     \<and> (\<forall>c \<in> C. get_wasm a c = get_wasm b c) \<and> (\<forall>x obj. get_object a x = Some obj \<longrightarrow> obj_code_hash obj \<in> C)
     \<and> smt_ok L (st_smt a) \<and> smt_ok L (st_smt b) \<and> smt_get (st_smt a) = smt_get (st_smt b)"

text \<open>The objects a transaction can create name code of C only.\<close>

definition names_within :: "libs \<Rightarrow> string set \<Rightarrow> electrs_tx \<Rightarrow> bool" where
  "names_within L C tx \<longleftrightarrow> (\<forall>out \<in> set (tx_vout tx). \<forall>script env.
     hex_decode L (or_default (out_scriptpubkey out) (out_scriptpubkey_hex out)) = Some script
     \<and> parse_envelope L script = Ret (Some env) \<and> envelope_op env \<in> {''create'', ''deploy''}
     \<longrightarrow> created_code_hash L env (or_default JNull (env_metadata env)) \<in> C)"

lemma agree_root: "agree L C a b \<Longrightarrow> fst (current_state_root L a) = fst (current_state_root L b)"
  using smt_root_value [of L "st_smt a"] smt_root_value [of L "st_smt b"]
  by (simp add: agree_def current_state_root_def case_prod_beta)

lemma agree_bookkeeping:
  "agree L C a b \<Longrightarrow> agree L C (save_undo_log u a) (save_undo_log v b)"
  "agree L C a b \<Longrightarrow> agree L C (save_transition t a) (save_transition t' b)"
  "agree L C a b \<Longrightarrow> agree L C (save_block r a) (save_block r' b)"
  "agree L C a b \<Longrightarrow> agree L C (set_last_sync_block c h a) (set_last_sync_block c' h' b)"
  by (simp_all add: agree_def save_undo_log_def save_transition_def save_block_def set_last_sync_block_def
      get_wasm_def get_object_def)

lemma smt_root_get: "smt_get (snd (smt_root t)) = smt_get t"
  by (auto simp: smt_root_def smt_get_def fun_eq_iff Let_def)

lemma agree_after_root: "agree L C a b \<Longrightarrow> agree L C (snd (current_state_root L a)) (snd (current_state_root L b))"
  using smt_root_ok [of L "st_smt a"] smt_root_ok [of L "st_smt b"]
  by (auto simp: agree_def current_state_root_def case_prod_beta get_wasm_def get_object_def smt_root_get)

lemma agree_wasm:
  "agree L C a b \<Longrightarrow> fst (save_wasm L c w a) = fst (save_wasm L c w b)
    \<and> agree L C (snd (save_wasm L c w a)) (snd (save_wasm L c w b))"
  by (auto simp: agree_def save_wasm_def get_wasm_def get_object_def Let_def)

lemma agree_object:
  assumes "agree L C a b" "obj_code_hash obj \<in> C" "sha256_len L"
  shows "agree L C (save_object L obj a) (save_object L obj b)"
  using assms
  by (auto simp: agree_def save_object_def get_wasm_def get_object_def Let_def smt_get_update hash_key_def
      hash_object_def key_ok_def sha256_len_def intro!: smt_update_ok split: option.split)

section \<open>One transaction\<close>

lemma agree_create:
  assumes ag: "agree L C a b" and len: "sha256_len L"
    and c: "created_code_hash L env (or_default JNull (env_metadata env)) \<in> C"
  shows "rust_rel (\<lambda>(r, a') (r', b'). r = r' \<and> agree L C a' b')
    (process_create L bp tx h i out env a) (process_create L bp tx h i out env b)"
proof -
  have "agree L C (store_deployed_wasm L env a) (store_deployed_wasm L env b)"
    using ag agree_wasm by (simp add: store_deployed_wasm_def)
  then show ?thesis
    unfolding process_create_def Let_def
    by (intro rust_rel_rbind [where R = "(=)"] rust_rel_refl)
      (auto intro!: agree_object agree_bookkeeping simp: created_object_record_def Let_def c len)
qed

lemma agree_target: "agree L C a b \<Longrightarrow> find_target a tx = find_target b tx"
proof -
  assume "agree L C a b"
  then have "get_object_by_seal a = get_object_by_seal b"
    by (auto simp: agree_def get_object_by_seal_def get_object_def fun_eq_iff split: option.split)
  then show ?thesis by (simp only: find_target_def)
qed

lemma agree_call:
  assumes ag: "agree L C a b" and len: "sha256_len L" and obj: "find_target a tx = Some obj"
  shows "fst (process_call L E bp now tx h i out md obj a) = fst (process_call L E bp now' tx h i out md obj b)
    \<and> agree L C (snd (process_call L E bp now tx h i out md obj a)) (snd (process_call L E bp now' tx h i out md obj b))"
proof -
  have c: "obj_code_hash obj \<in> C"
    using obj ag by (auto simp: find_target_def get_object_by_seal_def agree_def split: option.splits)
  have "run_method L E (save_undo_log u a) obj mname args sender sats = run_method L E (save_undo_log u b) obj mname args sender sats"
    for u mname args sender sats
    using c ag by (simp add: run_method_def get_wasm_bytes_def agree_def get_wasm_def save_undo_log_def)
  then show ?thesis
    using ag c len
    by (auto simp: process_call_def Let_def moved_object_def split: call_run.split intro!: agree_bookkeeping agree_object)
qed

lemma agree_outputs:
  assumes "agree L C a b" "sha256_len L" "set outs \<subseteq> set (tx_vout tx)" "names_within L C tx"
  shows "rust_rel (\<lambda>(r, a') (r', b'). r = r' \<and> agree L C a' b')
    (process_outputs L E bp now tx h i outs a) (process_outputs L E bp now' tx h i outs b)"
  using assms(3)
proof (induction outs arbitrary: i)
  case Nil
  then show ?case using assms(1) by simp
next
  case (Cons out outs)
  let ?R = "\<lambda>x y. case (x, y) of (Some (r, a'), Some (r', b')) \<Rightarrow> r = r' \<and> agree L C a' b'
    | (None, None) \<Rightarrow> True | _ \<Rightarrow> False"
  have "rust_rel ?R (process_output L E bp now tx h i out a) (process_output L E bp now' tx h i out b)"
  proof (cases "hex_decode L (or_default (out_scriptpubkey out) (out_scriptpubkey_hex out))")
    case (Some script)
    show ?thesis
    proof (cases "parse_envelope L script")
      case (Ret parsed)
      show ?thesis
      proof (cases parsed)
        case env: (Some env)
        have c: "created_code_hash L env (or_default JNull (env_metadata env)) \<in> C"
          if "envelope_op env = ''create'' \<or> envelope_op env = ''deploy''"
          using that assms(4) Cons.prems Some Ret env by (auto simp: names_within_def)
        have "rust_rel ?R (rbind (process_create L bp tx h i out env a) (\<lambda>r. Ret (Some r)))
          (rbind (process_create L bp tx h i out env b) (\<lambda>r. Ret (Some r)))"
          if "envelope_op env = ''create'' \<or> envelope_op env = ''deploy''"
          by (rule rust_rel_rbind [OF agree_create [OF assms(1,2) c [OF that]]]) auto
        moreover have "?R (Some (process_call L E bp now tx h i out md obj a)) (Some (process_call L E bp now' tx h i out md obj b))"
          if "find_target a tx = Some obj" for md obj
          using agree_call [OF assms(1,2) that, of E bp now h i out md now'] by (simp add: case_prod_beta)
        ultimately show ?thesis
          using Some Ret env assms(1) agree_target [OF assms(1), of tx]
          by (auto simp: process_output_def split: option.split)
      qed (use Some Ret in \<open>simp add: process_output_def\<close>)
    qed (use Some in \<open>simp add: process_output_def\<close>)
  qed (simp add: process_output_def)
  then show ?case
    using Cons.IH Cons.prems by (auto intro!: rust_rel_rbind split: option.splits)
qed

lemma agree_tx:
  assumes "agree L C a b" "sha256_len L" "names_within L C tx"
  shows "rust_rel (\<lambda>(r, a') (r', b'). r = r' \<and> agree L C a' b') (process_tx L E bp now tx h a) (process_tx L E bp now' tx h b)"
  unfolding process_tx_def by (rule agree_outputs [OF assms(1,2) order_refl assms(3)])

section \<open>Blocks\<close>

text \<open>Two explorers with the same chain, and contract code that both nodes can fetch, or neither.\<close>

definition same_chain :: "libs \<Rightarrow> string set \<Rightarrow> u64 set \<Rightarrow> explorer \<Rightarrow> explorer \<Rightarrow> bool" where
  "same_chain L C H ex ex' \<longleftrightarrow> (\<forall>c \<in> C. ex_contract ex (trim c) = ex_contract ex' (trim c))
     \<and> (\<forall>h \<in> H. \<exists>bh. ex_block_hash ex h = Some bh \<and> ex_block_hash ex' h = Some bh
          \<and> ex_block_txs ex bh = ex_block_txs ex' bh
          \<and> (\<forall>txs. ex_block_txs ex bh = Some txs \<longrightarrow> (\<forall>tx \<in> set txs. names_within L C tx)))"

definition root_at :: "store \<Rightarrow> string \<Rightarrow> u64 \<Rightarrow> string option" where
  "root_at s chain h = map_option blk_state_root (get_block s chain h)"

lemma root_at_record [simp]:
  "root_at (set_last_sync_block c n (save_block r s)) chain h =
     (if chain = blk_chain r \<and> h = blk_block_height r then Some (blk_state_root r) else root_at s chain h)"
  by (simp add: root_at_def get_block_def save_block_def set_last_sync_block_def block_key_injective eq_commute)

lemma root_at_same: "st_blocks s = st_blocks t \<Longrightarrow> root_at s = root_at t"
  by (simp add: root_at_def get_block_def fun_eq_iff)

lemma root_at_root [simp]: "root_at (snd (current_state_root L s)) = root_at s"
  by (rule root_at_same) (simp add: current_state_root_def case_prod_beta)

lemma missing_code:
  assumes "process_tx L E bp now tx h s = Ret (Inl e, s')" "agree L C s b"
  shows "\<exists>c \<in> C. missing_wasm_hash e = Some (trim c)"
  using assms(1)
proof (cases rule: process_tx_cases)
  case (created i env)
  then show ?thesis by (auto simp: process_create_def Let_def rbind_Ret_iff)
next
  case (called i md obj)
  have "obj_code_hash obj \<in> C"
    using called(2) assms(2) by (auto simp: find_target_def get_object_by_seal_def agree_def split: option.splits)
  then show ?thesis
    using called(3) missing_wasm_hash_message
    by (auto simp: process_call_def Let_def run_method_def get_wasm_bytes_def split: if_splits option.splits sum.splits call_run.splits)
qed simp

lemma agree_sync_tx:
  assumes "agree L C a b" "sha256_len L" "names_within L C tx" "\<forall>c \<in> C. ex_contract ex (trim c) = ex_contract ex' (trim c)"
  shows "rust_rel (agree L C) (sync_tx L E bp ex now h tx a) (sync_tx L E bp ex' now' h tx b)"
proof -
  have retry: "rust_rel (agree L C) (rbind (process_tx L E bp now tx h x) (\<lambda>(_, s3). Ret s3))
      (rbind (process_tx L E bp now' tx h y) (\<lambda>(_, s3). Ret s3))" if "agree L C x y" for x y
    by (rule rust_rel_rbind [OF agree_tx [OF that assms(2,3)]]) auto
  have fetch: "rust_rel (agree L C)
      (case save_wasm L c w x of (Inl _, s2) \<Rightarrow> Ret s2
        | (Inr _, s2) \<Rightarrow> rbind (process_tx L E bp now tx h s2) (\<lambda>(_, s3). Ret s3))
      (case save_wasm L c w y of (Inl _, s2) \<Rightarrow> Ret s2
        | (Inr _, s2) \<Rightarrow> rbind (process_tx L E bp now' tx h s2) (\<lambda>(_, s3). Ret s3))" if "agree L C x y" for c w x y
    using agree_wasm [OF that, of c w] retry
    by (cases "save_wasm L c w x"; cases "save_wasm L c w y") (auto split: sum.split)
  show ?thesis
  proof (cases "process_tx L E bp now tx h a")
    case Panic
    then show ?thesis using agree_tx [OF assms(1-3), of E bp now h now']
      by (cases "process_tx L E bp now' tx h b") (simp_all add: sync_tx_def)
  next
    case (Ret p)
    obtain r a1 where p: "p = (r, a1)" by fastforce
    obtain b1 where b1: "process_tx L E bp now' tx h b = Ret (r, b1)" "agree L C a1 b1"
      using agree_tx [OF assms(1-3), of E bp now h now'] Ret p by (cases "process_tx L E bp now' tx h b") auto
    show ?thesis
    proof (cases r)
      case (Inl e)
      obtain c where "c \<in> C" "missing_wasm_hash e = Some (trim c)"
        using missing_code [OF _ assms(1)] Ret p Inl by blast
      then show ?thesis using Ret p b1 Inl assms(4) fetch [OF b1(2)] by (auto simp: sync_tx_def split: option.split)
    qed (use Ret p b1 in \<open>simp add: sync_tx_def\<close>)
  qed
qed

lemma agree_sync_txs:
  assumes "agree L C a b" "sha256_len L" "\<forall>tx \<in> set txs. names_within L C tx"
    and "\<forall>c \<in> C. ex_contract ex (trim c) = ex_contract ex' (trim c)"
  shows "rust_rel (agree L C) (sync_txs L E bp ex now h txs a) (sync_txs L E bp ex' now' h txs b)"
  using assms(1,3)
proof (induction txs arbitrary: a b)
  case (Cons tx txs)
  have "rust_rel (agree L C) (sync_tx L E bp ex now h tx a) (sync_tx L E bp ex' now' h tx b)"
    using Cons.prems by (intro agree_sync_tx assms(2,4)) simp_all
  then show ?case using Cons.IH Cons.prems(2) by (auto elim: rust_rel_rbind)
qed simp

text \<open>The nodes agree, and have recorded the same state roots at the heights of K.\<close>

definition agree_on :: "libs \<Rightarrow> string set \<Rightarrow> string \<Rightarrow> u64 set \<Rightarrow> sync_state \<Rightarrow> sync_state \<Rightarrow> bool" where
  "agree_on L C chain K st st' \<longleftrightarrow> agree L C (fst st) (fst st')
     \<and> (\<forall>h \<in> K. \<exists>r. root_at (fst st) chain h = Some r \<and> root_at (fst st') chain h = Some r)"

lemma agree_block:
  assumes ag: "agree_on L C (sy_chain cfg) K st st'" and len: "sha256_len L" and ex: "same_chain L C H ex ex'" "h \<in> H"
    and cfg: "sy_chain cfg' = sy_chain cfg"
  shows "rust_rel (agree_on L C (sy_chain cfg) (insert h K)) (sync_block L E bp cfg ex now h st) (sync_block L E bp cfg' ex' now' h st')"
proof -
  obtain s cm s' cm' where st: "st = (s, cm)" "st' = (s', cm')" by fastforce
  obtain bh where bh: "ex_block_hash ex h = Some bh" "ex_block_hash ex' h = Some bh" "ex_block_txs ex bh = ex_block_txs ex' bh"
    "\<And>txs. ex_block_txs ex bh = Some txs \<Longrightarrow> \<forall>tx \<in> set txs. names_within L C tx"
    using ex by (fastforce simp: same_chain_def)
  have c: "\<forall>c \<in> C. ex_contract ex (trim c) = ex_contract ex' (trim c)" using ex by (simp add: same_chain_def)
  have kept: "(st_blocks s1, st_chain_meta s1) = (st_blocks s, st_chain_meta s)" if "sync_txs L E bp ex now h txs s = Ret s1" for s ex now txs s1
    using block_tables.sync_txs_kept [OF that] by blast
  let ?R = "\<lambda>s1 s1'. agree L C s1 s1' \<and> st_blocks s1 = st_blocks s \<and> st_blocks s1' = st_blocks s'"
  have "rust_rel (agree L C) (case ex_block_txs ex bh of None \<Rightarrow> Ret s | Some txs \<Rightarrow> sync_txs L E bp ex now h txs s)
    (case ex_block_txs ex' bh of None \<Rightarrow> Ret s' | Some txs \<Rightarrow> sync_txs L E bp ex' now' h txs s')"
    using ag bh agree_sync_txs [OF _ len _ c] by (auto simp: agree_on_def st split: option.split)
  then have "rust_rel ?R (case ex_block_txs ex bh of None \<Rightarrow> Ret s | Some txs \<Rightarrow> sync_txs L E bp ex now h txs s)
    (case ex_block_txs ex' bh of None \<Rightarrow> Ret s' | Some txs \<Rightarrow> sync_txs L E bp ex' now' h txs s')"
    using kept by (auto elim!: rust_rel.elims split: option.splits)
  then show ?thesis
    unfolding sync_block_def st Let_def prod.case bh(1,2) option.case
  proof (rule rust_rel_rbind)
    fix x y assume r: "?R x y"
    then have same: "root_at x = root_at s" "root_at y = root_at s'" "fst (current_state_root L x) = fst (current_state_root L y)"
      using agree_root [of L C x y] root_at_same [of x s] root_at_same [of y s'] by blast+
    have "agree L C (snd (current_state_root L x)) (snd (current_state_root L y))" using r by (simp add: agree_after_root)
    with same ag show "rust_rel (agree_on L C (sy_chain cfg) (insert h K))
      (case current_state_root L x of (state_root, s2) \<Rightarrow> Ret (set_last_sync_block (sy_chain cfg) h
        (save_block \<lparr>blk_chain = sy_chain cfg, blk_block_height = h, blk_block_hash = bh, blk_prev_hash = None,
          blk_state_root = state_root, blk_timestamp = now\<rparr> s2), attest_block L cfg now h bh state_root cm))
      (case current_state_root L y of (state_root, s2) \<Rightarrow> Ret (set_last_sync_block (sy_chain cfg') h
        (save_block \<lparr>blk_chain = sy_chain cfg', blk_block_height = h, blk_block_hash = bh, blk_prev_hash = None,
          blk_state_root = state_root, blk_timestamp = now'\<rparr> s2), attest_block L cfg' now' h bh state_root cm'))"
      by (auto simp: agree_on_def st case_prod_beta cfg intro!: agree_bookkeeping)
  qed
qed

lemma agree_blocks:
  assumes "agree_on L C (sy_chain cfg) K st st'" "sha256_len L" "same_chain L C H ex ex'" "set hs \<subseteq> H" "sy_chain cfg' = sy_chain cfg"
  shows "rust_rel (agree_on L C (sy_chain cfg) (K \<union> set hs)) (sync_blocks L E bp cfg ex now hs st) (sync_blocks L E bp cfg' ex' now' hs st')"
  using assms(1,4)
proof (induction hs arbitrary: K st st')
  case (Cons h hs)
  have "rust_rel (agree_on L C (sy_chain cfg) (insert h K)) (sync_block L E bp cfg ex now h st) (sync_block L E bp cfg' ex' now' h st')"
    using Cons.prems by (intro agree_block [OF _ assms(2,3) _ assms(5)]) simp_all
  then show ?case
    unfolding sync_blocks.simps
  proof (rule rust_rel_rbind)
    fix x y assume "agree_on L C (sy_chain cfg) (insert h K) x y"
    from Cons.IH [OF this] Cons.prems(2)
    show "rust_rel (agree_on L C (sy_chain cfg) (K \<union> set (h # hs))) (sync_blocks L E bp cfg ex now hs x) (sync_blocks L E bp cfg' ex' now' hs y)"
      by simp
  qed
qed simp

section \<open>After a reorganisation\<close>

lemma undo_one_tables:
  assumes "st_objects a = st_objects b" "st_seals a = st_seals b"
  shows "st_objects (undo_one th log a) = st_objects (undo_one th log b) \<and> st_seals (undo_one th log a) = st_seals (undo_one th log b)"
  using assms by (auto simp: undo_one_def drop_current_seal_def Let_def split: option.split)

lemma undo_fold_tables:
  assumes "st_objects a = st_objects b" "st_seals a = st_seals b"
  shows "st_objects (fold (\<lambda>(u, log). undo_one th log) logs a) = st_objects (fold (\<lambda>(u, log). undo_one th log) logs b)
    \<and> st_seals (fold (\<lambda>(u, log). undo_one th log) logs a) = st_seals (fold (\<lambda>(u, log). undo_one th log) logs b)"
  using assms
proof (induction logs arbitrary: a b)
  case (Cons l logs)
  obtain u log where l: "l = (u, log)" by fastforce
  note t = undo_one_tables [OF Cons.prems, of th log]
  show ?case using Cons.IH [OF t [THEN conjunct1] t [THEN conjunct2]] by (simp only: fold_simps l prod.case o_apply)
qed simp

lemma undo_fold_wasm: "st_wasm (fold (\<lambda>(u, log). undo_one th log) logs s) = st_wasm s"
proof (induction logs arbitrary: s)
  case (Cons l logs)
  have "st_wasm (undo_one th log s) = st_wasm s" for log
    by (simp add: undo_one_def drop_current_seal_def Let_def split: option.split)
  then show ?case using Cons by (simp add: case_prod_beta)
qed simp

lemma rollback_keeps_code: "st_wasm (snd (rollback_to_block L chain th s)) = st_wasm s"
  by (simp add: rollback_to_block_def Let_def undo_fold_wasm)

lemma rollback_tables:
  assumes "st_objects a = st_objects b" "st_seals a = st_seals b" "st_undo_logs a = st_undo_logs b"
  shows "st_objects (snd (rollback_to_block L chain th a)) = st_objects (snd (rollback_to_block L chain th b))
    \<and> st_seals (snd (rollback_to_block L chain th a)) = st_seals (snd (rollback_to_block L chain th b))"
  using undo_fold_tables [OF assms(1,2)] by (simp add: rollback_to_block_def Let_def assms(3))

lemma rollback_smt:
  "st_smt (snd (rollback_to_block L chain th s)) =
     rebuild_smt L (map (\<lambda>obj. (obj_object_id obj, obj)) (map snd (st_objects (snd (rollback_to_block L chain th s)))))"
  by (simp add: rollback_to_block_def Let_def get_all_objects_def)

text \<open>
  A store that holds the objects of s with writes of an orphaned branch on top: the rollback leaves
  a store that agrees with s, if the code they hold agrees.
\<close>

lemma rolled_back_agrees:
  assumes ok: "store_ok L s" and h: "reorg_history chain th ws s" and own: "owned own s"
    and seals: "\<forall>w \<in> set ws. own (obj_seal (write_object w)) = obj_object_id (write_object w)"
    and tabs: "st_objects a = st_objects (fold (tracked_write L chain) ws s)"
      "st_seals a = st_seals (fold (tracked_write L chain) ws s)"
      "st_undo_logs a = st_undo_logs (fold (tracked_write L chain) ws s)"
    and code: "\<forall>c \<in> C. get_wasm a c = get_wasm s c" "\<forall>x obj. get_object s x = Some obj \<longrightarrow> obj_code_hash obj \<in> C"
  shows "agree L C (snd (rollback_to_block L chain th a)) s"
proof -
  let ?b = "snd (rollback_to_block L chain th a)"
  have same: "st_objects ?b = st_objects s" "st_seals ?b = st_seals s"
    using rollback_restores_aux [OF ok h own seals prod.collapse [symmetric]] rollback_tables [OF tabs] by simp_all
  have k: "keyed (st_objects s)" and c: "committed L s" and len: "sha256_len L"
    using ok by (auto simp: store_ok_def committed_def hash_ok_def)
  have "st_smt ?b = apply_updates L (object_updates L (st_objects s)) (smt_new L)"
    unfolding rollback_smt same keyed_pairs [OF k] rebuild_smt_updates ..
  then have "smt_ok L (st_smt ?b)" "smt_get (st_smt ?b) = smt_get (st_smt s)"
    using c apply_updates_ok [OF object_updates_ok [OF len]] by (simp_all add: committed_def apply_updates_get)
  then show ?thesis
    using same code c by (simp add: agree_def committed_def get_object_def get_wasm_def rollback_keeps_code)
qed

lemma check_reorg_moves:
  "check_reorg L ex chain l s = Some (a, s1) \<Longrightarrow> a \<noteq> l \<Longrightarrow> s1 = snd (rollback_to_block L chain a s)"
  by (auto simp: check_reorg_def split: if_splits option.splits)

lemma reorg_rolls_back:
  assumes ok: "chain_ok chain s" and l: "get_last_sync_block s chain = l" "a < l"
    and ans: "\<forall>h \<le> l. ex_block_hash ex h \<noteq> None"
    and fork: "confirmed ex s chain a" "\<forall>h. a < h \<and> h \<le> l \<longrightarrow> \<not> confirmed ex s chain h"
  shows "check_reorg L ex chain l s = Some (a, snd (rollback_to_block L chain a s))"
proof -
  have pos: "0 < a" using ok fork(1) by (auto simp: chain_ok_def confirmed_def)
  have blk: "get_block s chain l \<noteq> None" using ok l by (auto simp: chain_ok_def)
  note d = check_reorg_decides [OF ok ans, of L]
  show ?thesis
  proof (cases "check_reorg L ex chain l s")
    case None
    then show ?thesis using d l pos fork(1) by (auto dest: spec [of _ a])
  next
    case (Some x)
    obtain b s1 where x: "x = (b, s1)" by fastforce
    have b: "b \<le> l" "confirmed ex s chain b" "\<forall>h. b < h \<and> h \<le> l \<longrightarrow> \<not> confirmed ex s chain h"
      using d l Some x blk by auto
    have "b = a" using b fork l(2) by (meson linorder_cases order_less_imp_le)
    moreover have "s1 = snd (rollback_to_block L chain b s)"
      using check_reorg_moves [of L ex chain l s b s1] Some x l(2) \<open>b = a\<close> by simp
    ultimately show ?thesis using Some x by simp
  qed
qed

text \<open>
  A reorganisation converges. One node has followed an orphaned branch: on top of a consistent
  store s0 it made tracked writes above height a and recorded the blocks of the branch. Another
  node is still at s0. They then tick, each by its own clock and explorer; the explorers
  serve the same chain up to t, which leaves the recorded blocks at a, and the contracts that the
  objects can name have the same code at both nodes. If the second node gets through its tick,
  so does the first, and both end with the same objects, seals and state root and have recorded
  the same state root at every height above a.
\<close>

lemma reorg_converges:
  assumes ok: "store_ok L s0" and h: "reorg_history (sy_chain cfg) a ws s0" and own: "owned own s0"
    and seals: "\<forall>w \<in> set ws. own (obj_seal (write_object w)) = obj_object_id (write_object w)"
    and tabs: "st_objects s = st_objects (fold (tracked_write L (sy_chain cfg)) ws s0)"
      "st_seals s = st_seals (fold (tracked_write L (sy_chain cfg)) ws s0)"
      "st_undo_logs s = st_undo_logs (fold (tracked_write L (sy_chain cfg)) ws s0)"
    and code: "\<forall>c \<in> C. get_wasm s c = get_wasm s0 c" "\<forall>x obj. get_object s0 x = Some obj \<longrightarrow> obj_code_hash obj \<in> C"
    and chain: "same_chain L C {h. a < h \<and> h \<le> t} ex ex'" "ex_tip ex = Some t" "ex_tip ex' = Some t" "sy_chain cfg' = sy_chain cfg"
    and fork: "chain_ok (sy_chain cfg) s" "a < get_last_sync_block s (sy_chain cfg)" "get_last_sync_block s (sy_chain cfg) \<le> t"
      "\<forall>h \<le> t. ex_block_hash ex h \<noteq> None" "confirmed ex s (sy_chain cfg) a"
      "\<forall>h. a < h \<and> h \<le> get_last_sync_block s (sy_chain cfg) \<longrightarrow> \<not> confirmed ex s (sy_chain cfg) h"
    and behind: "get_last_sync_block s0 (sy_chain cfg) = a" "confirmed ex' s0 (sy_chain cfg) a"
    and tick: "sync_tick L E bp cfg' ex' now' (s0, cm0) = Ret (s0', cm0')"
  shows "\<exists>s' cm'. sync_tick L E bp cfg ex now (s, cm) = Ret (s', cm')
    \<and> st_objects s' = st_objects s0' \<and> st_seals s' = st_seals s0'
    \<and> fst (current_state_root L s') = fst (current_state_root L s0')
    \<and> (\<forall>h. a < h \<and> h \<le> t \<longrightarrow> (\<exists>r. root_at s' (sy_chain cfg) h = Some r \<and> root_at s0' (sy_chain cfg) h = Some r))"
proof -
  let ?c = "sy_chain cfg" and ?l = "get_last_sync_block s (sy_chain cfg)"
  have pos: "0 < a" "a < t" using fork by (auto simp: chain_ok_def confirmed_def)
  have len: "sha256_len L" using ok by (simp add: store_ok_def committed_def hash_ok_def)
  have "last_synced cfg s = ?l" "last_synced cfg' s0 = a"
    using fork(2) pos behind(1) chain(4) by (auto simp: last_synced_def Let_def)
  moreover have "check_reorg L ex ?c ?l s = Some (a, snd (rollback_to_block L ?c a s))"
    using fork by (intro reorg_rolls_back) (auto intro: order_trans)
  moreover have "check_reorg L ex' ?c a s0 = Some (a, s0)"
    using behind(2) by (auto simp: check_reorg_def confirmed_def)
  ultimately have ticks: "sync_tick L E bp cfg ex now (s, cm) = sync_blocks L E bp cfg ex now (new_heights a t) (snd (rollback_to_block L ?c a s), cm)"
    "sync_tick L E bp cfg' ex' now' (s0, cm0) = sync_blocks L E bp cfg' ex' now' (new_heights a t) (s0, cm0)"
    using pos chain by (simp_all add: sync_tick_def)
  have "agree_on L C ?c {} (snd (rollback_to_block L ?c a s), cm) (s0, cm0)"
    using rolled_back_agrees [OF ok h own seals tabs code] by (simp add: agree_on_def)
  note start = this
  have heights: "set (new_heights a t) = {h. a < h \<and> h \<le> t}" by (auto simp: new_heights_set)
  from agree_blocks [OF start len chain(1) _ chain(4), of "new_heights a t" E bp now now']
  have "rust_rel (agree_on L C ?c {h. a < h \<and> h \<le> t}) (sync_tick L E bp cfg ex now (s, cm)) (sync_tick L E bp cfg' ex' now' (s0, cm0))"
    unfolding ticks by (simp add: heights)
  from rust_rel_Ret [OF this tick] show ?thesis
    using agree_root by (fastforce simp: agree_on_def agree_def)
qed

section \<open>What the code of a contract decides\<close>

text \<open>
  A rollback leaves the contract code of orphaned blocks in place, and a call whose code can not be
  found is skipped while the block is recorded. So with equal objects the node that holds the code
  carries the call out and the node that does not hold it leaves the object alone: the hypothesis on
  the code is needed.
\<close>

lemma code_decides_call:
  assumes obj: "obj_code_hash obj = c" "c \<noteq> ''wasm_default''" "c \<noteq> []"
    and code: "get_wasm a c = None" "get_wasm b c = Some w"
    and runs: "execute_wasm L E obj (or_default ''transfer'' (json_get_str md ''method'')) (or_default (JObject []) (json_get md ''args''))
      (tx_sender tx) (out_value out) w = Inr r"
  shows "st_objects (snd (process_call L E bp now tx h i out md obj a)) = st_objects a
    \<and> get_object (snd (process_call L E bp now tx h i out md obj b)) (obj_object_id obj) =
        Some (moved_object obj (outpoint (tx_txid tx) i) h (out_value out) (or_default (JObject []) (json_get md ''args'')) (wer_state_data r))"
proof -
  have logs: "get_wasm (save_undo_log u s) c = get_wasm s c" for u s by (simp add: get_wasm_def save_undo_log_def)
  have "run_method L E (save_undo_log u a) obj mname args p v = CallMissing (''WASM_MISSING:'' @ c)" for u mname args p v
    using obj code missing_wasm_hash_message [of c] by (simp add: run_method_def get_wasm_bytes_def logs)
  moreover have "run_method L E (save_undo_log u b) obj (or_default ''transfer'' (json_get_str md ''method''))
      (or_default (JObject []) (json_get md ''args'')) (tx_sender tx) (out_value out) = CallDone (wer_state_data r) (wer_gas_consumed r)" for u
    using obj code runs by (simp add: run_method_def get_wasm_bytes_def logs)
  ultimately show ?thesis
    by (simp add: process_call_def Let_def get_object_def save_transition_def save_object_tables moved_object_def)
      (simp add: save_undo_log_def)
qed

end
