(* ===== verification/Branch.thy ===== *)
theory Branch
  imports Convergence
begin

text \<open>
  What the sync loop did on a branch, as tracked writes. A transaction is first seen as an
  action, which depends on the store only through the object whose seal it spends; then its effect on
  the objects, the seals and the undo logs is no write or one tracked write, retries and reverted
  calls included; then the blocks of a branch whose transactions meet the conditions of
  reversible_branch are a history that the rollback undoes. With Convergence this gives a property of
  the sync loop as a whole: following such a branch and leaving it again leaves no trace.
\<close>

section \<open>The action of a transaction\<close>











section \<open>One transaction is at most one tracked write\<close>

definition same_tables :: "store \<Rightarrow> store \<Rightarrow> bool" where
  "same_tables a b \<longleftrightarrow> st_objects a = st_objects b \<and> st_seals a = st_seals b \<and> st_undo_logs a = st_undo_logs b"

lemma same_tables_refl [simp]: "same_tables s s"
  by (simp add: same_tables_def)


lemma same_tables_sym: "same_tables a b \<Longrightarrow> same_tables b a"
  by (simp add: same_tables_def)

lemma same_tables_other [simp]:
  "same_tables (s\<lparr>st_wasm := w\<rparr>) t = same_tables s t" "same_tables (s\<lparr>st_transitions := tr\<rparr>) t = same_tables s t"
  "same_tables s (t\<lparr>st_wasm := w\<rparr>) = same_tables s t" "same_tables s (t\<lparr>st_transitions := tr\<rparr>) = same_tables s t"
  by (simp_all add: same_tables_def)














section \<open>A branch is a history of tracked writes\<close>














section \<open>Blocks\<close>









section \<open>Following an orphaned branch leaves no trace\<close>



section \<open>A transaction on an orphaned block\<close>















end
