(* ===== verification/Electrs.thy ===== *)
theory Electrs
  imports Sync
begin

text \<open>
  packages/node/src/scanner/electrs.rs: the HTTP client of the block explorer with its guards (the
  URL scheme, the shape of hashes that enter a path, the cap on a response), and the explorer that
  the sync loop sees through it. HTTP, url::Url::parse and the JSON of transactions are the
  parameter web.
\<close>

section \<open>Results and the web\<close>

fun rtry :: "'e + 'a \<Rightarrow> ('a \<Rightarrow> 'e + 'b) \<Rightarrow> 'e + 'b" where
  "rtry (Inl e) f = Inl e"
| "rtry (Inr x) f = f x"

lemma rtry_Inr: "rtry m f = Inr y \<longleftrightarrow> (\<exists>x. m = Inr x \<and> f x = Inr y)"
  by (cases m) auto

text \<open>A response: its status, the announced length, and its body as bytes and as text.\<close>

record http_response =
  rsp_status :: nat
  rsp_content_length :: "u64 option"
  rsp_bytes :: "bytes option"
  rsp_text :: "string option"

record web =
  http_get :: "string \<Rightarrow> http_response option"
  http_post :: "string \<Rightarrow> string \<Rightarrow> http_response option"
  url_parse :: "string \<Rightarrow> (string \<times> string option) option"
  txs_from_slice :: "bytes \<Rightarrow> electrs_tx list option"
  tx_from_slice :: "bytes \<Rightarrow> electrs_tx option"
  txids_from_slice :: "bytes \<Rightarrow> string list option"

datatype electrs_error =
    HashLength nat nat
  | NotHex
  | UrlMalformed
  | PlainHttp string
  | UrlScheme string
  | RequestFailed
  | HttpStatus nat
  | BodyUnreadable
  | ResponseTooLarge nat
  | BadJson
  | BadHeight
  | BroadcastFailed nat
  | EmptyTxid

section \<open>Guards\<close>

definition MAX_RESPONSE_BODY_BYTES :: nat where
  "MAX_RESPONSE_BODY_BYTES = 64 * 1024 * 1024"

definition validate_hex_hash :: "string \<Rightarrow> nat \<Rightarrow> electrs_error + unit" where
  "validate_hex_hash s expected_len =
     (if length s \<noteq> expected_len * 2 then Inl (HashLength (expected_len * 2) (length s))
      else if \<not> list_all is_ascii_hexdigit s then Inl NotHex
      else Inr ())"

definition is_loopback :: "string \<Rightarrow> bool" where
  "is_loopback host \<longleftrightarrow> host = ''127.0.0.1'' \<or> host = ''::1'' \<or> host = ''localhost'' \<or> host = ''[::1]''"

definition validate_url_scheme :: "web \<Rightarrow> string \<Rightarrow> electrs_error + unit" where
  "validate_url_scheme W url =
     (case url_parse W url of
        None \<Rightarrow> Inl UrlMalformed
      | Some (scheme, host) \<Rightarrow>
          if scheme = ''https'' then Inr ()
          else if scheme = ''http'' then
            (if is_loopback (or_default [] host) then Inr () else Inl (PlainHttp (or_default [] host)))
          else Inl (UrlScheme scheme))"

definition trim_end_slashes :: "string \<Rightarrow> string" where
  "trim_end_slashes s = rev (dropWhile (\<lambda>c. c = CHR ''/'') (rev s))"

text \<open>The client is its base URL; the HTTP client behind it is part of web.\<close>

definition with_timeout :: "web \<Rightarrow> string \<Rightarrow> electrs_error + string" where
  "with_timeout W base_url =
     rtry (validate_url_scheme W base_url) (\<lambda>_. Inr (trim_end_slashes base_url))"

definition electrs_new :: "web \<Rightarrow> string \<Rightarrow> string rust" where
  "electrs_new W base_url = (case with_timeout W base_url of Inl _ \<Rightarrow> Panic | Inr c \<Rightarrow> Ret c)"

definition read_capped_body :: "http_response \<Rightarrow> electrs_error + bytes" where
  "read_capped_body r =
     (case rsp_content_length r of
        Some len \<Rightarrow>
          if MAX_RESPONSE_BODY_BYTES < unat len then Inl (ResponseTooLarge (unat len))
          else (case rsp_bytes r of
                  None \<Rightarrow> Inl BodyUnreadable
                | Some body \<Rightarrow> if MAX_RESPONSE_BODY_BYTES < length body then Inl (ResponseTooLarge (length body)) else Inr body)
      | None \<Rightarrow>
          (case rsp_bytes r of
             None \<Rightarrow> Inl BodyUnreadable
           | Some body \<Rightarrow> if MAX_RESPONSE_BODY_BYTES < length body then Inl (ResponseTooLarge (length body)) else Inr body))"

definition read_capped_json :: "(bytes \<Rightarrow> 'a option) \<Rightarrow> http_response \<Rightarrow> electrs_error + 'a" where
  "read_capped_json from_slice r =
     rtry (read_capped_body r) (\<lambda>body. case from_slice body of None \<Rightarrow> Inl BadJson | Some v \<Rightarrow> Inr v)"

text \<open>send and error_for_status, and the text of a body.\<close>

definition fetch :: "web \<Rightarrow> string \<Rightarrow> electrs_error + http_response" where
  "fetch W url =
     (case http_get W url of
        None \<Rightarrow> Inl RequestFailed
      | Some r \<Rightarrow> if 400 \<le> rsp_status r \<and> rsp_status r < 600 then Inl (HttpStatus (rsp_status r)) else Inr r)"

definition read_text :: "http_response \<Rightarrow> electrs_error + string" where
  "read_text r = (case rsp_text r of None \<Rightarrow> Inl BodyUnreadable | Some t \<Rightarrow> Inr t)"

section \<open>Requests\<close>

definition get_tip_height :: "web \<Rightarrow> string \<Rightarrow> electrs_error + u64" where
  "get_tip_height W base =
     rtry (fetch W (base @ ''/blocks/tip/height'')) (\<lambda>resp. rtry (read_text resp) (\<lambda>t.
       case from_str_radix 10 (2 ^ 64) (trim t) of None \<Rightarrow> Inl BadHeight | Some n \<Rightarrow> Inr (word_of_nat n)))"

definition get_block_hash :: "web \<Rightarrow> string \<Rightarrow> u64 \<Rightarrow> electrs_error + string" where
  "get_block_hash W base height =
     rtry (fetch W (base @ ''/block-height/'' @ dec (unat height))) (\<lambda>resp. rtry (read_text resp) (\<lambda>t. Inr (trim t)))"

definition get_block_txs :: "web \<Rightarrow> string \<Rightarrow> string \<Rightarrow> electrs_error + electrs_tx list" where
  "get_block_txs W base block_hash =
     rtry (validate_hex_hash block_hash 32) (\<lambda>_.
       rtry (fetch W (base @ ''/block/'' @ block_hash @ ''/txs'')) (read_capped_json (txs_from_slice W)))"

definition get_mempool_tx_ids :: "web \<Rightarrow> string \<Rightarrow> electrs_error + string list" where
  "get_mempool_tx_ids W base =
     rtry (fetch W (base @ ''/mempool/txids'')) (read_capped_json (txids_from_slice W))"

definition get_tx :: "web \<Rightarrow> string \<Rightarrow> string \<Rightarrow> electrs_error + electrs_tx" where
  "get_tx W base txid =
     rtry (validate_hex_hash txid 32) (\<lambda>_.
       rtry (fetch W (base @ ''/tx/'' @ txid)) (read_capped_json (tx_from_slice W)))"

definition broadcast_tx :: "web \<Rightarrow> string \<Rightarrow> string \<Rightarrow> electrs_error + string" where
  "broadcast_tx W base raw_hex =
     (case http_post W (base @ ''/tx'') raw_hex of
        None \<Rightarrow> Inl RequestFailed
      | Some resp \<Rightarrow>
          if \<not> (200 \<le> rsp_status resp \<and> rsp_status resp < 300) then Inl (BroadcastFailed (rsp_status resp))
          else rtry (read_text resp) (\<lambda>t. if trim t = [] then Inl EmptyTxid else Inr (trim t)))"

text \<open>The answers of a client as the sync loop uses them; contract stands for the DHT.\<close>

definition ok :: "'e + 'a \<Rightarrow> 'a option" where
  "ok r = (case r of Inl _ \<Rightarrow> None | Inr x \<Rightarrow> Some x)"

definition electrs_explorer :: "web \<Rightarrow> string \<Rightarrow> (string \<Rightarrow> bytes option) \<Rightarrow> explorer" where
  "electrs_explorer W base contract =
     \<lparr>ex_tip = ok (get_tip_height W base), ex_block_hash = (\<lambda>h. ok (get_block_hash W base h)),
      ex_block_txs = (\<lambda>bh. ok (get_block_txs W base bh)), ex_contract = contract\<rparr>"

section \<open>The guards hold\<close>

definition hash_shaped :: "string \<Rightarrow> bool" where
  "hash_shaped t \<longleftrightarrow> length t = 64 \<and> list_all is_ascii_hexdigit t"

lemma validate_hash_32 [simp]: "validate_hex_hash t 32 = Inr () \<longleftrightarrow> hash_shaped t"
  by (simp add: validate_hex_hash_def hash_shaped_def)

lemma validate_hash_Inl: "\<not> hash_shaped t \<Longrightarrow> \<exists>e. validate_hex_hash t 32 = Inl e"
  by (auto simp: validate_hex_hash_def hash_shaped_def)

lemma rtry_validated: "rtry (validate_hex_hash t 32) (\<lambda>_. f) = (if hash_shaped t then f else Inl (projl (validate_hex_hash t 32)))"
proof (cases "hash_shaped t")
  case True
  then show ?thesis by (simp add: validate_hash_32 [THEN iffD2])
next
  case False
  then show ?thesis using validate_hash_Inl [of t] by auto
qed

text \<open>The server answered this request with a success, and the body it sent is within the cap.\<close>

definition answers :: "web \<Rightarrow> string \<Rightarrow> http_response \<Rightarrow> bool" where
  "answers W url r \<longleftrightarrow> http_get W url = Some r \<and> \<not> (400 \<le> rsp_status r \<and> rsp_status r < 600)"

definition within_cap :: "http_response \<Rightarrow> bytes \<Rightarrow> bool" where
  "within_cap r body \<longleftrightarrow> rsp_bytes r = Some body \<and> length body \<le> 64 * 1024 * 1024
     \<and> (\<forall>len. rsp_content_length r = Some len \<longrightarrow> unat len \<le> 64 * 1024 * 1024)"

lemma fetch_iff: "fetch W url = Inr r \<longleftrightarrow> answers W url r"
  by (auto simp: fetch_def answers_def split: option.splits)

lemma capped_body_iff: "read_capped_body r = Inr body \<longleftrightarrow> within_cap r body"
  by (auto simp: read_capped_body_def within_cap_def MAX_RESPONSE_BODY_BYTES_def split: option.splits)

lemma capped_json_iff: "read_capped_json p r = Inr v \<longleftrightarrow> (\<exists>body. within_cap r body \<and> p body = Some v)"
  by (auto simp: read_capped_json_def rtry_Inr capped_body_iff split: option.splits)

lemma capped_request_iff:
  "rtry (fetch W url) (read_capped_json p) = Inr v \<longleftrightarrow> (\<exists>r body. answers W url r \<and> within_cap r body \<and> p body = Some v)"
  by (auto simp: rtry_Inr fetch_iff capped_json_iff)

text \<open>
  C32. The guards of the explorer client. Whatever hash it is given, get_tx and get_block_txs ask
  only for paths with 64 hexadecimal digits in them: two webs that agree on those answer alike.
  These two and get_mempool_tx_ids return exactly what the parser makes of the body of a
  successful answer whose announced length and whose body are at most 64 MB; any other answer
  is an error. A client is only built for an https URL or for plain http to a loopback host.
  (get_tip_height and get_block_hash read the text of an answer of any length.)
\<close>

theorem electrs_guards:
  assumes same: "\<And>t. hash_shaped t \<Longrightarrow> g (base @ ''/tx/'' @ t) = http_get W (base @ ''/tx/'' @ t)
      \<and> g (base @ ''/block/'' @ t @ ''/txs'') = http_get W (base @ ''/block/'' @ t @ ''/txs'')"
  shows "get_tx (W\<lparr>http_get := g\<rparr>) base t = get_tx W base t
    \<and> get_block_txs (W\<lparr>http_get := g\<rparr>) base t = get_block_txs W base t
    \<and> (\<forall>tx. get_tx W base t = Inr tx \<longleftrightarrow> hash_shaped t
        \<and> (\<exists>r body. answers W (base @ ''/tx/'' @ t) r \<and> within_cap r body \<and> tx_from_slice W body = Some tx))
    \<and> (\<forall>txs. get_block_txs W base t = Inr txs \<longleftrightarrow> hash_shaped t
        \<and> (\<exists>r body. answers W (base @ ''/block/'' @ t @ ''/txs'') r \<and> within_cap r body \<and> txs_from_slice W body = Some txs))
    \<and> (\<forall>ids. get_mempool_tx_ids W base = Inr ids \<longleftrightarrow>
        (\<exists>r body. answers W (base @ ''/mempool/txids'') r \<and> within_cap r body \<and> txids_from_slice W body = Some ids))
    \<and> (\<forall>url client. with_timeout W url = Inr client \<longrightarrow> (\<exists>scheme host. url_parse W url = Some (scheme, host)
        \<and> (scheme = ''https'' \<or> scheme = ''http'' \<and> is_loopback (or_default [] host))))"
proof (intro conjI allI)
  show "get_tx (W\<lparr>http_get := g\<rparr>) base t = get_tx W base t"
    unfolding get_tx_def rtry_validated using same [of t] by (simp add: fetch_def)
  show "get_block_txs (W\<lparr>http_get := g\<rparr>) base t = get_block_txs W base t"
    unfolding get_block_txs_def rtry_validated using same [of t] by (simp add: fetch_def)
  show "get_tx W base t = Inr tx \<longleftrightarrow> hash_shaped t
      \<and> (\<exists>r body. answers W (base @ ''/tx/'' @ t) r \<and> within_cap r body \<and> tx_from_slice W body = Some tx)" for tx
    unfolding get_tx_def rtry_validated by (simp add: capped_request_iff)
  show "get_block_txs W base t = Inr txs \<longleftrightarrow> hash_shaped t
      \<and> (\<exists>r body. answers W (base @ ''/block/'' @ t @ ''/txs'') r \<and> within_cap r body \<and> txs_from_slice W body = Some txs)" for txs
    unfolding get_block_txs_def rtry_validated by (simp add: capped_request_iff)
  show "get_mempool_tx_ids W base = Inr ids \<longleftrightarrow>
      (\<exists>r body. answers W (base @ ''/mempool/txids'') r \<and> within_cap r body \<and> txids_from_slice W body = Some ids)" for ids
    unfolding get_mempool_tx_ids_def by (rule capped_request_iff)
  show "with_timeout W url = Inr client \<longrightarrow> (\<exists>scheme host. url_parse W url = Some (scheme, host)
      \<and> (scheme = ''https'' \<or> scheme = ''http'' \<and> is_loopback (or_default [] host)))" for url client
    by (auto simp: with_timeout_def rtry_Inr validate_url_scheme_def split: option.splits if_splits)
qed

definition demo_txid :: string where
  "demo_txid = replicate 64 (CHR ''a'')"

definition demo_web :: web where
  "demo_web = \<lparr>http_get = (\<lambda>u. Some \<lparr>rsp_status = 200, rsp_content_length = None, rsp_bytes = Some [], rsp_text = Some ''..''\<rparr>),
     http_post = (\<lambda>u b. None), url_parse = (\<lambda>u. Some (''https'', None)), txs_from_slice = (\<lambda>b. Some []),
     tx_from_slice = (\<lambda>b. None), txids_from_slice = (\<lambda>b. None)\<rparr>"

definition guarded_web :: web where
  "guarded_web = demo_web\<lparr>http_get := (\<lambda>u. if u = ''/tx/..'' then None else http_get demo_web u)\<rparr>"

lemma guarded_same:
  assumes "hash_shaped t"
  shows "http_get guarded_web ([] @ ''/tx/'' @ t) = http_get demo_web ([] @ ''/tx/'' @ t)
    \<and> http_get guarded_web ([] @ ''/block/'' @ t @ ''/txs'') = http_get demo_web ([] @ ''/block/'' @ t @ ''/txs'')"
proof -
  have "t \<noteq> ''..''" using assms by (auto simp: hash_shaped_def)
  then show ?thesis by (simp add: guarded_web_def)
qed

lemma electrs_guards_witness:
  "get_tx guarded_web [] ''..'' = get_tx demo_web [] ''..'' \<and> hash_shaped demo_txid
   \<and> get_block_txs demo_web [] demo_txid = Inr []
   \<and> (\<exists>r body. answers demo_web ([] @ ''/block/'' @ demo_txid @ ''/txs'') r \<and> within_cap r body)"
proof -
  have w: "demo_web\<lparr>http_get := http_get guarded_web\<rparr> = guarded_web" by (simp add: guarded_web_def)
  have "hash_shaped demo_txid"
    by (simp add: hash_shaped_def demo_txid_def is_ascii_hexdigit_def list_all_iff)
  then have txs: "get_block_txs demo_web [] demo_txid = Inr []"
    unfolding get_block_txs_def rtry_validated
    by (simp add: fetch_def demo_web_def read_capped_json_def read_capped_body_def MAX_RESPONSE_BODY_BYTES_def)
  note e = electrs_guards [OF guarded_same, unfolded w]
  show ?thesis
  proof (intro conjI)
    show "get_tx guarded_web [] ''..'' = get_tx demo_web [] ''..''" using e [of "''..''"] by (rule conjunct1)
    show "hash_shaped demo_txid"
      "\<exists>r body. answers demo_web ([] @ ''/block/'' @ demo_txid @ ''/txs'') r \<and> within_cap r body"
      using e [of demo_txid] txs by blast+
  qed (rule txs)
qed

section \<open>What the client does not check\<close>

text \<open>
  get_block_hash takes the body as it is, of any length and any shape. A body that is no hash
  makes get_block_txs fail, which the sync loop answers by recording the block without its
  transactions.
\<close>

lemma malformed_hash_is_synced:
  assumes resp: "fetch W (base @ ''/block-height/'' @ dec (unat h)) = Inr r" "rsp_text r = Some t" "\<not> hash_shaped (trim t)"
    and sync: "sync_block L E bp cfg (electrs_explorer W base c) now h (s, cm) = Ret (s', cm')"
  shows "st_objects s' = st_objects s \<and> get_last_sync_block s' (sy_chain cfg) = h
    \<and> (\<exists>b. get_block s' (sy_chain cfg) h = Some b \<and> blk_block_hash b = trim t)"
proof -
  have "ex_block_hash (electrs_explorer W base c) h = Some (trim t)"
    using resp(1,2) by (simp add: electrs_explorer_def get_block_hash_def read_text_def ok_def)
  moreover have "ex_block_txs (electrs_explorer W base c) (trim t) = None"
    using resp(3) by (simp add: electrs_explorer_def get_block_txs_def rtry_validated ok_def)
  ultimately show ?thesis using unfetched_block_is_synced [OF _ _ sync] by (auto simp: confirmed_def)
qed

end
