(* ===== verification/Machine.thy ===== *)
theory Machine
  imports Prelude
begin

text \<open>
  Long-running tasks as machines: one step takes an input and the state, and gives an output and
  the next state; a run feeds it a list of inputs. The locale machine_invariant is the contract of
  a property that every step keeps, the locale machine_account that of a quantity which every
  step changes by what the input and the output say.
\<close>

fun machine_run :: "('i \<Rightarrow> 's \<Rightarrow> 'o \<times> 's) \<Rightarrow> 'i list \<Rightarrow> 's \<Rightarrow> 'o list \<times> 's" where
  "machine_run step [] s = ([], s)"
| "machine_run step (i # is) s =
     (let (out, s1) = step i s; (outs, s2) = machine_run step is s1 in (out # outs, s2))"

lemma machine_run_append:
  "machine_run step (is @ js) s =
     (let (outs, s1) = machine_run step is s; (outs', s2) = machine_run step js s1 in (outs @ outs', s2))"
  by (induction "is" arbitrary: s) (auto simp: Let_def split: prod.split)

lemma length_machine_run [simp]: "length (fst (machine_run step is s)) = length is"
proof (induction "is" arbitrary: s)
  case (Cons i js)
  then show ?case using Cons.IH [of "snd (step i s)"] by (simp add: case_prod_beta)
qed simp

text \<open>The inputs of a run that are legal, each in the state it meets.\<close>

fun legal_run :: "('i \<Rightarrow> 's \<Rightarrow> bool) \<Rightarrow> ('i \<Rightarrow> 's \<Rightarrow> 'o \<times> 's) \<Rightarrow> 'i list \<Rightarrow> 's \<Rightarrow> bool" where
  "legal_run legal step [] s \<longleftrightarrow> True"
| "legal_run legal step (i # is) s \<longleftrightarrow> legal i s \<and> legal_run legal step is (snd (step i s))"

locale machine_invariant =
  fixes step :: "'i \<Rightarrow> 's \<Rightarrow> 'o \<times> 's" and inv :: "'s \<Rightarrow> bool" and output_ok :: "'o \<Rightarrow> bool"
  assumes step_inv: "inv s \<Longrightarrow> inv (snd (step i s))"
    and step_output: "inv s \<Longrightarrow> output_ok (fst (step i s))"
begin

lemma run_inv: "inv s \<Longrightarrow> inv (snd (machine_run step is s))"
proof (induction "is" arbitrary: s)
  case (Cons i js)
  then show ?case using step_inv [OF Cons.prems, of i] by (simp add: case_prod_beta)
qed simp

lemma run_output: "inv s \<Longrightarrow> out \<in> set (fst (machine_run step is s)) \<Longrightarrow> output_ok out"
proof (induction "is" arbitrary: s)
  case (Cons i js)
  then show ?case
    using step_inv [OF Cons.prems(1), of i] step_output [OF Cons.prems(1), of i]
    Cons.IH [of "snd (step i s)"] by (auto simp: case_prod_beta)
qed simp

end

locale machine_account = machine_invariant step inv output_ok
  for step :: "'i \<Rightarrow> 's \<Rightarrow> 'o \<times> 's" and inv :: "'s \<Rightarrow> bool" and output_ok :: "'o \<Rightarrow> bool" +
  fixes held :: "'s \<Rightarrow> nat" and gained :: "'i \<Rightarrow> nat" and spent :: "'o \<Rightarrow> nat" and legal :: "'i \<Rightarrow> 's \<Rightarrow> bool"
  assumes step_account: "inv s \<Longrightarrow> legal i s \<Longrightarrow> held (snd (step i s)) + spent (fst (step i s)) = held s + gained i"
begin

lemma run_account:
  "inv s \<Longrightarrow> legal_run legal step is s \<Longrightarrow>
     held (snd (machine_run step is s)) + sum_list (map spent (fst (machine_run step is s)))
       = held s + sum_list (map gained is)"
proof (induction "is" arbitrary: s)
  case (Cons i js)
  have "held (snd (machine_run step js (snd (step i s)))) + sum_list (map spent (fst (machine_run step js (snd (step i s)))))
      = held (snd (step i s)) + sum_list (map gained js)"
    using Cons step_inv by simp
  moreover have "held (snd (step i s)) + spent (fst (step i s)) = held s + gained i"
    using step_account Cons.prems by simp
  ultimately show ?case by (simp add: case_prod_beta)
qed simp

end

end
