(* ===== verification/P2p.thy ===== *)
theory P2p
  imports Rust_Std Types Machine
begin

text \<open>
  The event loop of packages/node/src/p2p/node.rs as a machine: its inputs are the commands of the
  P2pHandle and the events of the libp2p swarm, its outputs what it publishes, answers and hands
  on. libp2p is the environment: it chooses the events and the query ids, and decides whether the
  record store takes a record. Also the handle's reading of an answer, the key file of the node, and
  what gossip and the DHT cache keep true of contract code.
\<close>

section \<open>Messages and state\<close>

definition TOPIC_MEMPOOL :: string where "TOPIC_MEMPOOL = ''utxovm/mempool/v1''"
definition TOPIC_ATTESTATION :: string where "TOPIC_ATTESTATION = ''utxovm/attestation/v1''"
definition TOPIC_CONTRACT :: string where "TOPIC_CONTRACT = ''utxovm/contract/v1''"

datatype p2p_error = ChannelClosed | ChannelError | PutTimeout | CodeHashMismatch string string

type_synonym query_id = nat

text \<open>The sender of a oneshot channel is a number, its answer is an effect that carries it.\<close>

type_synonym resp = nat

datatype p2p_command =
    BroadcastMempool bytes
  | BroadcastAttestation attestation
  | PutContract string bytes resp
  | GetContract string resp
  | GetPeers resp
  | ProcessMempoolTx bytes

datatype query_result = FoundRecord bytes | GetRecordError | OtherResult

datatype swarm_event =
    NewListenAddr string
  | ConnectionEstablished string string
  | ConnectionClosed string
  | GossipMessage string bytes
  | QueryProgressed query_id query_result
  | IdentifyReceived string "string list"
  | OtherEvent

datatype p2p_effect =
    Publish string bytes
  | AnswerPut resp "p2p_error + unit"
  | AnswerGet resp "bytes option"
  | AnswerPeers resp "string list"
  | QueryRecord query_id bytes
  | AddAddress string string
  | KadBootstrap
  | ToAttestations attestation
  | ToMempool bytes

text \<open>The query id is the one that Kademlia gives to the lookup, if the command makes one.\<close>

datatype p2p_input = Command p2p_command query_id | Event swarm_event

record p2p_state =
  p2p_store :: "(bytes, bytes) table"
  p2p_peers :: "string list"
  p2p_pending :: "(query_id, resp) table"

text \<open>What libp2p and serde decide: whether the store takes a record, the JSON of an attestation.\<close>

record network =
  store_takes :: "(bytes, bytes) table \<Rightarrow> bytes \<Rightarrow> bytes \<Rightarrow> bool"
  attestation_to_vec :: "attestation \<Rightarrow> bytes"
  attestation_from_slice :: "bytes \<Rightarrow> attestation option"

definition p2p_start :: p2p_state where
  "p2p_start = \<lparr>p2p_store = [], p2p_peers = [], p2p_pending = []\<rparr>"

section \<open>The loop\<close>

definition message_id :: "libs \<Rightarrow> bytes \<Rightarrow> string" where
  "message_id L d = hex_encode L (sha256 L d)"

definition put_record :: "network \<Rightarrow> bytes \<Rightarrow> bytes \<Rightarrow> p2p_state \<Rightarrow> p2p_state" where
  "put_record N k v s =
     (if store_takes N (p2p_store s) k v then s\<lparr>p2p_store := tbl_insert k v (p2p_store s)\<rparr> else s)"

definition contract_payload :: "libs \<Rightarrow> string \<Rightarrow> bytes \<Rightarrow> json" where
  "contract_payload L code_hash wasm_bytes =
     JObject [(''code_hash'', JString code_hash), (''wasm_hex'', JString (hex_encode L wasm_bytes))]"

fun on_command :: "libs \<Rightarrow> network \<Rightarrow> p2p_command \<Rightarrow> query_id \<Rightarrow> p2p_state \<Rightarrow> p2p_effect list \<times> p2p_state" where
  "on_command L N (BroadcastMempool d) q s = ([Publish TOPIC_MEMPOOL d], s)"
| "on_command L N (BroadcastAttestation a) q s = ([Publish TOPIC_ATTESTATION (attestation_to_vec N a)], s)"
| "on_command L N (PutContract code_hash wasm_bytes resp) q s =
     (let computed_hash = hex_encode L (sha256 L wasm_bytes) in
      if computed_hash \<noteq> code_hash
      then ([AnswerPut resp (Inl (CodeHashMismatch code_hash computed_hash))], s)
      else ([Publish TOPIC_CONTRACT (json_to_vec L (contract_payload L code_hash wasm_bytes)), AnswerPut resp (Inr ())],
            put_record N (as_bytes code_hash) wasm_bytes s))"
| "on_command L N (GetContract code_hash resp) q s =
     (case tbl_get (p2p_store s) (as_bytes code_hash) of
        Some v \<Rightarrow> ([AnswerGet resp (Some v)], s)
      | None \<Rightarrow> ([QueryRecord q (as_bytes code_hash)], s\<lparr>p2p_pending := tbl_insert q resp (p2p_pending s)\<rparr>))"
| "on_command L N (GetPeers resp) q s = ([AnswerPeers resp (p2p_peers s)], s)"
| "on_command L N (ProcessMempoolTx d) q s = ([], s)"

definition on_contract :: "libs \<Rightarrow> network \<Rightarrow> bytes \<Rightarrow> p2p_state \<Rightarrow> p2p_state" where
  "on_contract L N d s =
     (case json_from_slice L d of
        None \<Rightarrow> s
      | Some payload \<Rightarrow>
          (case (json_get_str payload ''code_hash'', json_get_str payload ''wasm_hex'') of
             (Some ch, Some wh) \<Rightarrow>
               (case hex_decode L wh of
                  None \<Rightarrow> s
                | Some wasm_bytes \<Rightarrow>
                    if hex_encode L (sha256 L wasm_bytes) \<noteq> ch then s else put_record N (as_bytes ch) wasm_bytes s)
           | _ \<Rightarrow> s))"

definition on_message :: "libs \<Rightarrow> network \<Rightarrow> string \<Rightarrow> bytes \<Rightarrow> p2p_state \<Rightarrow> p2p_effect list \<times> p2p_state" where
  "on_message L N topic d s =
     (if topic = TOPIC_ATTESTATION then
        ((case attestation_from_slice N d of Some a \<Rightarrow> [ToAttestations a] | None \<Rightarrow> []), s)
      else if topic = TOPIC_MEMPOOL then ([ToMempool d], s)
      else if topic = TOPIC_CONTRACT then ([], on_contract L N d s)
      else ([], s))"

definition query_answer :: "query_result \<Rightarrow> bytes option" where
  "query_answer r = (case r of FoundRecord v \<Rightarrow> Some v | _ \<Rightarrow> None)"

fun on_event :: "libs \<Rightarrow> network \<Rightarrow> swarm_event \<Rightarrow> p2p_state \<Rightarrow> p2p_effect list \<times> p2p_state" where
  "on_event L N (NewListenAddr a) s = ([], s)"
| "on_event L N (ConnectionEstablished p a) s = ([AddAddress p a, KadBootstrap], s\<lparr>p2p_peers := p2p_peers s @ [p]\<rparr>)"
| "on_event L N (ConnectionClosed p) s = ([], s\<lparr>p2p_peers := filter (\<lambda>x. x \<noteq> p) (p2p_peers s)\<rparr>)"
| "on_event L N (GossipMessage topic d) s = on_message L N topic d s"
| "on_event L N (QueryProgressed q r) s =
     (case tbl_get (p2p_pending s) q of
        None \<Rightarrow> ([], s)
      | Some resp \<Rightarrow> ([AnswerGet resp (query_answer r)], s\<lparr>p2p_pending := tbl_remove q (p2p_pending s)\<rparr>))"
| "on_event L N (IdentifyReceived p addrs) s = (map (AddAddress p) addrs @ [KadBootstrap], s)"
| "on_event L N OtherEvent s = ([], s)"

fun p2p_step :: "libs \<Rightarrow> network \<Rightarrow> p2p_input \<Rightarrow> p2p_state \<Rightarrow> p2p_effect list \<times> p2p_state" where
  "p2p_step L N (Command c q) s = on_command L N c q s"
| "p2p_step L N (Event e) s = on_event L N e s"

subsection \<open>The handle\<close>

text \<open>What waiting for an answer gives: the value, a dropped sender, or the timeout.\<close>

datatype 'a awaited = Answer 'a | SenderDropped | TimedOut

definition handle_put_contract :: "bool \<Rightarrow> (p2p_error + unit) awaited \<Rightarrow> p2p_error + unit" where
  "handle_put_contract sent r =
     (if \<not> sent then Inl ChannelClosed
      else case r of Answer res \<Rightarrow> res | SenderDropped \<Rightarrow> Inl ChannelError | TimedOut \<Rightarrow> Inl PutTimeout)"

definition handle_get_contract :: "bool \<Rightarrow> bytes option awaited \<Rightarrow> p2p_error + bytes option" where
  "handle_get_contract sent r =
     (if \<not> sent then Inl ChannelClosed else case r of Answer opt \<Rightarrow> Inr opt | _ \<Rightarrow> Inr None)"

definition handle_get_peers :: "bool \<Rightarrow> string list awaited \<Rightarrow> p2p_error + string list" where
  "handle_get_peers sent r =
     (if \<not> sent then Inl ChannelClosed else case r of Answer peers \<Rightarrow> Inr peers | _ \<Rightarrow> Inr [])"

definition handle_broadcast :: "bool \<Rightarrow> p2p_error + unit" where
  "handle_broadcast sent = (if sent then Inr () else Inl ChannelClosed)"

subsection \<open>The identity of the node\<close>

text \<open>
  The key file holds a key in hex. The protobuf coding of keys is libp2p's; a fresh key and whether
  the file can be written are the arguments fresh and writable. No file is None.
\<close>

record 'k key_coding =
  from_protobuf :: "bytes \<Rightarrow> 'k option"
  to_protobuf :: "'k \<Rightarrow> bytes option"

definition load_or_generate_keypair :: "libs \<Rightarrow> 'k key_coding \<Rightarrow> 'k \<Rightarrow> bool \<Rightarrow> string option \<Rightarrow> 'k \<times> string option" where
  "load_or_generate_keypair L K fresh writable file =
     (case Option.bind file (\<lambda>hex_str. Option.bind (hex_decode L (trim hex_str)) (from_protobuf K)) of
        Some keypair \<Rightarrow> (keypair, file)
      | None \<Rightarrow>
          (fresh, case to_protobuf K fresh of
                    Some proto_bytes \<Rightarrow> if writable then Some (hex_encode L proto_bytes) else file
                  | None \<Rightarrow> file))"

text \<open>
  A node keeps its identity over restarts once a key could be written; a file that does not hold a
  key is overwritten.
\<close>

lemma identity_persists:
  assumes "hex_roundtrip L" "\<And>b. trim (hex_encode L b) = hex_encode L b"
    and "to_protobuf K k = Some b" "from_protobuf K b = Some k"
    and first: "load_or_generate_keypair L K k True file = (k1, file1)"
  shows "load_or_generate_keypair L K fresh w file1 = (k1, file1)"
  using assms unfolding load_or_generate_keypair_def
  by (auto simp: hex_roundtrip_def split: option.splits)

lemma unreadable_key_is_replaced:
  assumes "hex_decode L (trim s) = None" "to_protobuf K fresh = Some b"
  shows "load_or_generate_keypair L K fresh True (Some s) = (fresh, Some (hex_encode L b))"
  using assms by (simp add: load_or_generate_keypair_def)

subsection \<open>The start of the service\<close>

text \<open>
  P2pService::new and what run does before its loop: the topics it joins, the address it listens on
  and the peers it dials. Whether a string is a multiaddr is libp2p's question (parses); run fails
  when the listen address is none, and a bootstrap peer that is none is passed over.
\<close>

record 'k p2p_service =
  svc_port :: "16 word"
  svc_bootstrap_peers :: "string list"
  svc_id_keys :: 'k

definition p2p_service_new :: "libs \<Rightarrow> 'k key_coding \<Rightarrow> 'k \<Rightarrow> bool \<Rightarrow> 16 word \<Rightarrow> string list \<Rightarrow> bool \<Rightarrow> string option
    \<Rightarrow> 'k p2p_service \<times> string option" where
  "p2p_service_new L K fresh writable port bootstrap_peers has_path file =
     (let (id_keys, file') = (if has_path then load_or_generate_keypair L K fresh writable file else (fresh, file))
      in (\<lparr>svc_port = port, svc_bootstrap_peers = bootstrap_peers, svc_id_keys = id_keys\<rparr>, file'))"

datatype p2p_setup = Subscribe string | ListenOn string | Dial string

definition p2p_run_setup :: "(string \<Rightarrow> bool) \<Rightarrow> 'k p2p_service \<Rightarrow> p2p_setup list option" where
  "p2p_run_setup parses svc =
     (let listen_addr = ''/ip4/0.0.0.0/tcp/'' @ dec (unat (svc_port svc)) in
      if \<not> parses listen_addr then None
      else Some (map Subscribe [TOPIC_MEMPOOL, TOPIC_ATTESTATION, TOPIC_CONTRACT] @ [ListenOn listen_addr]
             @ map Dial (filter parses (svc_bootstrap_peers svc))))"

text \<open>The topics the service joins are the ones whose messages the loop looks at.\<close>

lemma topics_joined_are_handled:
  assumes "p2p_run_setup parses svc = Some setup" "Subscribe topic \<notin> set setup"
  shows "on_message L N topic d s = ([], s)"
  using assms by (auto simp: p2p_run_setup_def on_message_def Let_def split: if_splits)

text \<open>Messages with different bytes have different ids, so deduplication drops repetitions only.\<close>

lemma message_id_collision:
  assumes "hex_roundtrip L" "message_id L d = message_id L e" "d \<noteq> e"
  shows "hash_collision L {d, e}"
proof -
  have "hex_decode L (message_id L x) = Some (sha256 L x)" for x
    using assms(1) by (simp add: message_id_def hex_roundtrip_def)
  then have "sha256 L d = sha256 L e" using assms(2) by (metis option.inject)
  then show ?thesis using assms(3) by (auto simp: hash_collision_def)
qed

section \<open>Contract code is addressed by its hash\<close>

text \<open>
  Every record that the loop puts into the store lies under the hash of its bytes, and every
  contract message it publishes carries bytes with the hash it claims.
\<close>

definition addressed :: "libs \<Rightarrow> p2p_state \<Rightarrow> bool" where
  "addressed L s \<longleftrightarrow> tbl_ok (p2p_store s) \<and> tbl_ok (p2p_pending s)
     \<and> (\<forall>k v. tbl_get (p2p_store s) k = Some v \<longrightarrow> k = as_bytes (hex_encode L (sha256 L v)))"

definition published_ok :: "libs \<Rightarrow> network \<Rightarrow> p2p_effect list \<Rightarrow> bool" where
  "published_ok L N es \<longleftrightarrow> (\<forall>d. Publish TOPIC_CONTRACT d \<in> set es
     \<longrightarrow> (\<exists>w. d = json_to_vec L (contract_payload L (hex_encode L (sha256 L w)) w)))"

lemma topics_differ [simp]:
  "TOPIC_MEMPOOL \<noteq> TOPIC_CONTRACT" "TOPIC_ATTESTATION \<noteq> TOPIC_CONTRACT" "TOPIC_CONTRACT \<noteq> TOPIC_ATTESTATION"
  "TOPIC_CONTRACT \<noteq> TOPIC_MEMPOOL"
  by (simp_all add: TOPIC_MEMPOOL_def TOPIC_CONTRACT_def TOPIC_ATTESTATION_def)

lemma addressed_put:
  "addressed L s \<Longrightarrow> k = as_bytes (hex_encode L (sha256 L v)) \<Longrightarrow> addressed L (put_record N k v s)"
  by (auto simp: addressed_def put_record_def)

lemma addressed_pending:
  "addressed L s \<Longrightarrow> addressed L (s\<lparr>p2p_pending := tbl_insert q r (p2p_pending s)\<rparr>)"
  "addressed L s \<Longrightarrow> addressed L (s\<lparr>p2p_pending := tbl_remove q (p2p_pending s)\<rparr>)"
  "addressed L s \<Longrightarrow> addressed L (s\<lparr>p2p_peers := ps\<rparr>)"
  by (auto simp: addressed_def)

lemma addressed_command: "addressed L s \<Longrightarrow> addressed L (snd (on_command L N c q s))"
  by (cases c) (auto simp: Let_def addressed_put addressed_pending split: option.split)

lemma addressed_contract: "addressed L s \<Longrightarrow> addressed L (on_contract L N d s)"
  by (auto simp: on_contract_def addressed_put split: option.split)

lemma addressed_event: "addressed L s \<Longrightarrow> addressed L (snd (on_event L N e s))"
  by (cases e) (auto simp: on_message_def addressed_contract addressed_pending split: option.split)

lemma published_step: "published_ok L N (fst (p2p_step L N i s))"
proof (cases i)
  case (Command c q)
  then show ?thesis by (cases c) (auto simp: published_ok_def Let_def split: option.split)
next
  case (Event e)
  then show ?thesis by (cases e) (auto simp: published_ok_def on_message_def split: option.split)
qed

lemma addressed_step: "addressed L s \<Longrightarrow> addressed L (snd (p2p_step L N i s))"
  by (cases i) (auto simp: addressed_command addressed_event)

lemma addressed_start [simp]: "addressed L p2p_start"
  by (simp add: addressed_def p2p_start_def)

text \<open>The open lookups of a caller, the ones it makes, and the answers it gets.\<close>

definition open_lookups :: "resp \<Rightarrow> p2p_state \<Rightarrow> nat" where
  "open_lookups r s = length (filter (\<lambda>(q, x). x = r) (p2p_pending s))"

fun asks :: "resp \<Rightarrow> p2p_input \<Rightarrow> nat" where
  "asks r (Command (GetContract h x) q) = (if x = r then 1 else 0)"
| "asks r _ = 0"

fun answers_get :: "resp \<Rightarrow> p2p_effect \<Rightarrow> bool" where
  "answers_get r (AnswerGet x v) \<longleftrightarrow> x = r"
| "answers_get r _ \<longleftrightarrow> False"

definition answers :: "resp \<Rightarrow> p2p_effect list \<Rightarrow> nat" where
  "answers r es = length (filter (answers_get r) es)"

text \<open>Kademlia gives a new lookup an id that no open one has.\<close>

fun fresh_query :: "p2p_input \<Rightarrow> p2p_state \<Rightarrow> bool" where
  "fresh_query (Command (GetContract h x) q) s \<longleftrightarrow> tbl_get (p2p_pending s) q = None"
| "fresh_query _ s \<longleftrightarrow> True"

lemma filter_insert_fresh:
  "tbl_get t k = None \<Longrightarrow> length (filter P (tbl_insert k v t)) = length (filter P t) + (if P (k, v) then 1 else 0)"
  by (induction k v t rule: tbl_insert.induct) (auto simp: tbl_get_def split: if_splits)

lemma filter_remove_there:
  assumes "tbl_ok t" "tbl_get t k = Some v"
  shows "length (filter P (tbl_remove k t)) + (if P (k, v) then 1 else 0) = length (filter P t)"
  using assms
proof (induction t)
  case (Cons e t)
  obtain k' v' where e: "e = (k', v')" by fastforce
  show ?case
  proof (cases "k' = k")
    case True
    then have "k \<notin> fst ` set t" using Cons.prems by (auto simp: e tbl_ok_def)
    then have "tbl_remove k t = t" unfolding tbl_remove_def by (intro filter_True) force
    then show ?thesis using True Cons.prems by (auto simp: e tbl_get_def tbl_remove_def)
  next
    case False
    then show ?thesis using Cons by (auto simp: e tbl_get_def tbl_remove_def tbl_ok_def)
  qed
qed simp

lemma put_record_pending [simp]: "p2p_pending (put_record N k v s) = p2p_pending s"
  by (simp add: put_record_def)

lemma on_contract_pending [simp]: "p2p_pending (on_contract L N d s) = p2p_pending s"
  by (auto simp: on_contract_def split: option.split)

lemma no_answers [simp]:
  "answers r [] = 0" "answers r (map (AddAddress p) addrs) = 0"
  by (auto simp: answers_def filter_empty_conv)

lemma answers_Cons [simp]: "answers r (e # es) = (if answers_get r e then 1 else 0) + answers r es"
  by (simp add: answers_def)

lemma answers_append [simp]: "answers r (es @ fs) = answers r es + answers r fs"
  by (simp add: answers_def)

lemma lookup_account:
  assumes ok: "addressed L s" and fresh: "fresh_query i s"
  shows "open_lookups r (snd (p2p_step L N i s)) + answers r (fst (p2p_step L N i s)) = open_lookups r s + asks r i"
proof (cases i)
  case (Command c q)
  then show ?thesis using fresh
    by (cases c) (auto simp: open_lookups_def Let_def filter_insert_fresh split: option.split)
next
  case (Event e)
  have p: "tbl_ok (p2p_pending s)" using ok by (simp add: addressed_def)
  show ?thesis
  proof (cases e)
    case (QueryProgressed q res)
    then show ?thesis
      using Event filter_remove_there [OF p, of q _ "\<lambda>(q, x). x = r"]
      by (auto simp: open_lookups_def split: option.split)
  qed (use Event in \<open>auto simp: open_lookups_def on_message_def split: option.split\<close>)
qed

interpretation p2p: machine_account "p2p_step L N" "addressed L" "published_ok L N"
  "open_lookups r" "asks r" "answers r" fresh_query for L N r
  by unfold_locales (simp_all add: addressed_step published_step lookup_account)

text \<open>
  C16. Content addressing and exactly-once answers. Whatever the swarm and the callers do after a
  start, every record that the loop stores lies under the hash of its bytes, every contract
  message it publishes carries bytes with the hash it claims, and every lookup is answered once or
  still open, none twice and none lost. (Records that libp2p itself may accept from remote peers
  into its store are not part of the model.)
\<close>

theorem p2p_content_addressed:
  assumes run: "machine_run (p2p_step L N) is p2p_start = (outs, s)" and fresh: "legal_run fresh_query (p2p_step L N) is p2p_start"
  shows "(tbl_get (p2p_store s) (as_bytes h) = Some w \<longrightarrow> h = hex_encode L (sha256 L w))
    \<and> (es \<in> set outs \<and> Publish TOPIC_CONTRACT d \<in> set es
        \<longrightarrow> (\<exists>w. d = json_to_vec L (contract_payload L (hex_encode L (sha256 L w)) w)))
    \<and> open_lookups r s + sum_list (map (answers r) outs) = sum_list (map (asks r) is)"
proof -
  have "addressed L s" using p2p.run_inv [OF addressed_start, of L N "is"] run by simp
  then have "h = hex_encode L (sha256 L w)" if "tbl_get (p2p_store s) (as_bytes h) = Some w"
    using that unfolding addressed_def by (metis as_bytes_inj)
  moreover have "published_ok L N es" if "es \<in> set outs"
    using p2p.run_output [OF addressed_start, of es L N "is"] run that by simp
  moreover have "open_lookups r s + sum_list (map (answers r) outs) = sum_list (map (asks r) is)"
    using p2p.run_account [OF addressed_start fresh, of r] run by (simp add: open_lookups_def p2p_start_def)
  ultimately show ?thesis by (auto simp: published_ok_def)
qed

definition demo_network :: network where
  "demo_network = \<lparr>store_takes = (\<lambda>_ _ _. True), attestation_to_vec = (\<lambda>_. []), attestation_from_slice = (\<lambda>_. None)\<rparr>"

definition demo_code_hash :: string where
  "demo_code_hash = hex_encode demo_libs (sha256 demo_libs [1])"

definition demo_inputs :: "p2p_input list" where
  "demo_inputs = [Command (PutContract demo_code_hash [1] 7) 0, Command (GetContract demo_code_hash 8) 0,
     Command (GetContract ''00'' 9) 1, Event (QueryProgressed 1 (FoundRecord [2])), Command (GetContract ''01'' 9) 2]"

lemma demo_fresh_queries: "legal_run fresh_query (p2p_step demo_libs demo_network) demo_inputs p2p_start"
  by code_simp

lemma p2p_content_addressed_witness:
  "open_lookups 9 (snd (machine_run (p2p_step demo_libs demo_network) demo_inputs p2p_start))
   + sum_list (map (answers 9) (fst (machine_run (p2p_step demo_libs demo_network) demo_inputs p2p_start))) = 2"
  using p2p_content_addressed [OF surjective_pairing demo_fresh_queries, where r = 9] by (simp add: demo_inputs_def del: machine_run.simps)

text \<open>
  C31. Replication. When a node puts contract code under its hash and another node receives the
  message it publishes, a lookup at that node is answered with the code, from its own store,
  when the store takes the record.
\<close>

theorem contract_replicates:
  assumes "hex_roundtrip L"
    and json: "json_from_slice L (json_to_vec L (contract_payload L h w)) = Some (contract_payload L h w)"
    and put: "p2p_step L N (Command (PutContract h w r) q) a = ([Publish topic d, AnswerPut r (Inr ())], a')"
    and took: "store_takes N (p2p_store b) (as_bytes h) w"
    and gossip: "p2p_step L N (Event (GossipMessage topic d)) b = (es, b')"
  shows "es = [] \<and> p2p_step L N (Command (GetContract h r') q') b' = ([AnswerGet r' (Some w)], b')"
proof -
  from put have "hex_encode L (sha256 L w) = h" "topic = TOPIC_CONTRACT" "d = json_to_vec L (contract_payload L h w)"
    by (auto simp: Let_def split: if_splits)
  moreover have "json_get_str (contract_payload L h w) ''code_hash'' = Some h"
    "json_get_str (contract_payload L h w) ''wasm_hex'' = Some (hex_encode L w)"
    by (simp_all add: contract_payload_def json_get_str_def)
  ultimately show ?thesis
    using gossip json took assms(1) by (auto simp: on_message_def on_contract_def put_record_def hex_roundtrip_def)
qed

lemma contract_replicates_witness:
  "\<exists>L N b'. p2p_step L N (Command (GetContract demo_code_hash 3) 0) b' = ([AnswerGet 3 (Some [1])], b')"
proof -
  let ?j = "contract_payload demo_libs demo_code_hash [1]"
  let ?L = "demo_libs\<lparr>json_to_vec := (\<lambda>_. [0]), json_from_slice := (\<lambda>_. Some ?j)\<rparr>"
  have same: "hex_encode ?L = hex_encode demo_libs" "sha256 ?L = sha256 demo_libs" "hex_decode ?L = hex_decode demo_libs"
    by simp_all
  have "hex_roundtrip ?L" using demo_libs_ok(2) by (simp add: hex_roundtrip_def)
  moreover have "json_from_slice ?L (json_to_vec ?L (contract_payload ?L demo_code_hash [1]))
      = Some (contract_payload ?L demo_code_hash [1])" by (simp add: contract_payload_def)
  moreover have "p2p_step ?L demo_network (Command (PutContract demo_code_hash [1] 0) 0) p2p_start
      = ([Publish TOPIC_CONTRACT [0], AnswerPut 0 (Inr ())],
         put_record demo_network (as_bytes demo_code_hash) [1] p2p_start)"
    by (simp add: demo_code_hash_def)
  moreover have "store_takes demo_network (p2p_store p2p_start) (as_bytes demo_code_hash) [1]"
    by (simp add: demo_network_def)
  ultimately show ?thesis
    using contract_replicates [of ?L demo_code_hash "[1]" demo_network 0 0 p2p_start TOPIC_CONTRACT "[0]" _ p2p_start, OF _ _ _ _ surjective_pairing]
    by blast
qed

section \<open>What an answer does not say\<close>

text \<open>
  A put is acknowledged although the store did not take the record: its result is only logged,
  and so is the result of the publication.
\<close>

lemma put_acknowledged_unstored:
  assumes "\<not> store_takes N (p2p_store s) (as_bytes h) w" "hex_encode L (sha256 L w) = h"
  shows "AnswerPut r (Inr ()) \<in> set (fst (p2p_step L N (Command (PutContract h w r) q) s))
    \<and> snd (p2p_step L N (Command (PutContract h w r) q) s) = s"
  using assms by (simp add: Let_def put_record_def)

text \<open>A peer with two connections is listed twice, and is gone when the first of them closes.\<close>

lemma closing_one_connection_drops_peer:
  assumes "snd (machine_run (p2p_step L N) [Event (ConnectionEstablished p a), Event (ConnectionEstablished p b)] s) = s1"
    and "snd (p2p_step L N (Event (ConnectionClosed p)) s1) = s2"
  shows "p2p_peers s1 = p2p_peers s @ [p, p] \<and> p \<notin> set (p2p_peers s2)"
  using assms by auto

end
