(* ===== verification/Rpc.thy ===== *)
theory Rpc
  imports Bridge Relay P2p
begin

text \<open>
  packages/node/src/rpc/server.rs: the HTTP handlers over the node's components, the check of the
  API key, the rate limiter and the choice of the address it counts a request under. A reply is a
  value with the fields of the JSON object the source builds; the answers of the p2p layer are the
  parameter p2p_answers. The store of the node is the one inside its bridge manager.
\<close>

section \<open>Requests, replies and state\<close>

datatype http_status =
  BAD_REQUEST | UNAUTHORIZED | FORBIDDEN | NOT_FOUND | CONFLICT | INTERNAL_SERVER_ERROR | TOO_MANY_REQUESTS

text \<open>
  The text of an error: built by the handler, by the hex crate after a prefix, or the display of an
  error of another component.
\<close>

datatype error_text =
    Text string
  | HexText string
  | BridgeText bridge_error
  | RelayText relay_error
  | P2pText p2p_error

type_synonym rpc_error = "http_status \<times> error_text"

datatype rpc_reply =
    ChainInfo string string u64 string string nat
  | ObjectReply smart_object
  | ObjectProof smart_object "inclusion_proof option" bool
  | History nat u64 u64 "state_transition list"
  | Objects nat u64 u64 "smart_object list"
  | StateRoot string u64 string
  | StateRootAt string u64 string string "attestation list" bool
  | BroadcastedToP2p
  | Peers nat "string list"
  | PublishedToDht string
  | ContractCode string string
  | SlashingProofs nat "equivocation_proof list"
  | LockedReply bridge_transfer
  | CancelledReply bridge_transfer
  | MintedReply bridge_transfer
  | TransferReply bridge_transfer
  | TransfersReply nat "bridge_transfer list"
  | RelayedReply relay_record
  | RelayReply relay_record
  | HealthReply string u64
  | MetricsReply string

record lock_request =
  lkr_source_chain :: string
  lkr_object_id :: string
  lkr_dest_chain :: string
  lkr_dest_owner :: string
  lkr_caller_pubkey :: string
  lkr_signature :: string

type_synonym query = "(string, string) table"

datatype rpc_request =
    GetChainInfo
  | GetObject string
  | GetObjectProof string
  | GetObjectHistory string query
  | GetAllObjects query
  | GetLatestStateRoot
  | GetStateRootAt u64
  | BroadcastTransaction string
  | GetP2pPeers
  | PutDhtContract string string
  | GetDhtContract string
  | GetSlashingProofs
  | LockAssets lock_request
  | MintFromProof string cross_chain_proof
  | CancelTransfer string string string
  | GetTransfer string
  | GetAllTransfers
  | CreateRelay string u64 string
  | VerifyRelay string
  | GetLatestRelay string
  | HealthCheck
  | PrometheusMetrics

text \<open>The fixed part of AppState, and the part that requests change.\<close>

record app_config =
  app_chain :: string
  app_electrs_url :: string
  app_bridge_api_key :: "string option"
  app_trusted_proxy_ips :: "string list"

record app_state =
  app_bridge :: bridge_manager
  app_consensus :: consensus
  app_relay :: relay_records

abbreviation app_store :: "app_state \<Rightarrow> store" where
  "app_store s \<equiv> br_store (app_bridge s)"

definition set_store :: "store \<Rightarrow> app_state \<Rightarrow> app_state" where
  "set_store st s = s\<lparr>app_bridge := (app_bridge s)\<lparr>br_store := st\<rparr>\<rparr>"

text \<open>What a handler asks of the p2p handle, and what the handle answers.\<close>

datatype p2p_request = AskPeers | AskContract string | SendContract string bytes | SendMempool bytes

record p2p_answers =
  pa_local_peer_id :: string
  pa_peers :: "p2p_error + string list"
  pa_get_contract :: "string \<Rightarrow> p2p_error + bytes option"
  pa_put_contract :: "string \<Rightarrow> bytes \<Rightarrow> p2p_error + unit"
  pa_broadcast :: "bytes \<Rightarrow> p2p_error + unit"

type_synonym handled = "(rpc_error + rpc_reply) \<times> p2p_request list \<times> app_state"

text \<open>Headers by name; HeaderValue::to_str accepts visible ASCII and tabs.\<close>

type_synonym headers = "(string, string) table"

definition to_str :: "string \<Rightarrow> string option" where
  "to_str v = (if list_all (\<lambda>c. let n = of_char c :: nat in 32 \<le> n \<and> n < 127 \<or> n = 9) v then Some v else None)"

definition header :: "headers \<Rightarrow> string \<Rightarrow> string option" where
  "header hs name = Option.bind (tbl_get hs name) to_str"

definition MAX_WASM_SIZE :: nat where "MAX_WASM_SIZE = 1024 * 1024"
definition MAX_BROADCAST_SIZE :: nat where "MAX_BROADCAST_SIZE = 1024 * 1024"
definition RATE_LIMIT_WINDOW_SECS :: nat where "RATE_LIMIT_WINDOW_SECS = 1"

section \<open>Guards\<close>

definition verify_bridge_auth :: "libs \<Rightarrow> headers \<Rightarrow> string option \<Rightarrow> rpc_error + unit" where
  "verify_bridge_auth L hs expected_key =
     (case expected_key of
        None \<Rightarrow> Inl (FORBIDDEN, Text ''Bridge write endpoints are disabled (no API key configured)'')
      | Some expected \<Rightarrow>
          (case header hs ''authorization'' of
             None \<Rightarrow> Inl (UNAUTHORIZED, Text ''Missing Authorization header'')
           | Some auth_header \<Rightarrow>
               (case strip_prefix ''Bearer '' auth_header of
                  None \<Rightarrow> Inl (UNAUTHORIZED, Text ''Authorization header must use Bearer scheme'')
                | Some token \<Rightarrow>
                    if sha256 L (as_bytes token) \<noteq> sha256 L (as_bytes expected)
                    then Inl (FORBIDDEN, Text ''Invalid API key'') else Inr ())))"

definition validate_hex :: "string \<Rightarrow> string \<Rightarrow> rpc_error + unit" where
  "validate_hex s name =
     (if s = [] then Inl (BAD_REQUEST, Text (name @ '' cannot be empty''))
      else if \<not> list_all is_ascii_hexdigit s then Inl (BAD_REQUEST, Text (name @ '' must be valid hex''))
      else Inr ())"

subsection \<open>The rate limiter\<close>

text \<open>Instants are nanoseconds; duration_since is zero for a later instant.\<close>

type_synonym rate_windows = "(string, nat \<times> nat) table"

definition window_over :: "nat \<Rightarrow> nat \<Rightarrow> bool" where
  "window_over start now \<longleftrightarrow> RATE_LIMIT_WINDOW_SECS \<le> (now - start) div 10 ^ 9"

definition rate_check :: "u64 \<Rightarrow> string \<times> nat \<Rightarrow> rate_windows \<Rightarrow> bool \<times> rate_windows" where
  "rate_check max_requests req windows =
     (let (key, now) = req;
          (start, n) = or_default (now, 0) (tbl_get windows key)
      in if window_over start now then (True, tbl_insert key (now, 1) windows)
         else if n < unat max_requests then (True, tbl_insert key (start, n + 1) windows)
         else (False, tbl_insert key (start, n) windows))"

subsection \<open>Cross-origin requests\<close>

text \<open>
  The policy create_router hands to tower_http; parses says whether a string is a header value,
  and origins that are none are dropped.
\<close>

record cors_layer =
  allow_origin :: "string list"
  allow_methods :: "string list"
  allow_headers :: "string list"

definition cors_policy :: "(string \<Rightarrow> bool) \<Rightarrow> string list \<Rightarrow> cors_layer" where
  "cors_policy parses cors_origins =
     (if cors_origins = [] then
        \<lparr>allow_origin = [''http://localhost:3000'', ''http://localhost:9773'', ''http://127.0.0.1:3000'', ''http://127.0.0.1:9773''],
         allow_methods = [''GET'', ''POST''], allow_headers = [''content-type'']\<rparr>
      else
        \<lparr>allow_origin = filter parses cors_origins,
         allow_methods = [''GET'', ''POST''], allow_headers = [''content-type'']\<rparr>)"

text \<open>
  Whatever is configured, a page of another origin is not allowed to send the header that
  verify_bridge_auth reads, so it can not use the endpoints behind the API key.
\<close>

lemma cors_never_allows_key: "''authorization'' \<notin> set (allow_headers (cors_policy parses cors_origins))"
  by (simp add: cors_policy_def)

subsection \<open>The key of a window\<close>

text \<open>The address a request is counted under.\<close>

definition client_key :: "app_config \<Rightarrow> string option \<Rightarrow> headers \<Rightarrow> string" where
  "client_key cfg peer hs =
     (let real_ip = or_default ''unknown'' peer in
      if real_ip \<in> set (app_trusted_proxy_ips cfg) then
        or_default real_ip (map_option (\<lambda>v. trim (hd (split_on (CHR '','') v))) (header hs ''x-forwarded-for''))
      else real_ip)"

section \<open>Handlers\<close>

definition answer :: "(rpc_error + rpc_reply) \<Rightarrow> app_state \<Rightarrow> handled" where
  "answer r s = (r, [], s)"

definition bad_id :: "string \<Rightarrow> bool" where
  "bad_id i \<longleftrightarrow> i = [] \<or> 128 < length i"

definition bad_object_id :: rpc_error where
  "bad_object_id = (BAD_REQUEST, Text ''Invalid object ID'')"

definition object_not_found :: rpc_error where
  "object_not_found = (NOT_FOUND, Text ''Smart Object not found'')"

definition get_chain_info :: "libs \<Rightarrow> app_config \<Rightarrow> p2p_answers \<Rightarrow> app_state \<Rightarrow> handled" where
  "get_chain_info L cfg pa s =
     (let last_height = get_last_sync_block (app_store s) (app_chain cfg);
          (state_root, st) = current_state_root L (app_store s);
          peers = (case pa_peers pa of Inl _ \<Rightarrow> [] | Inr ps \<Rightarrow> ps)
      in (Inr (ChainInfo (app_chain cfg) (app_electrs_url cfg) last_height state_root (pa_local_peer_id pa) (length peers)),
          [AskPeers], set_store st s))"

definition rpc_get_object :: "string \<Rightarrow> app_state \<Rightarrow> handled" where
  "rpc_get_object i s =
     (if bad_id i then answer (Inl bad_object_id) s
      else case (case get_object (app_store s) i of Some ob \<Rightarrow> Some ob | None \<Rightarrow> get_object_by_seal (app_store s) i) of
        Some ob \<Rightarrow> answer (Inr (ObjectReply ob)) s
      | None \<Rightarrow> answer (Inl object_not_found) s)"

definition get_object_proof :: "libs \<Rightarrow> string \<Rightarrow> app_state \<Rightarrow> handled" where
  "get_object_proof L i s =
     (if bad_id i then answer (Inl bad_object_id) s
      else case get_object (app_store s) i of
        Some ob \<Rightarrow>
          (let pr = get_state_proof L (app_store s) (obj_object_id ob)
           in answer (Inr (ObjectProof ob pr (case pr of Some p \<Rightarrow> prf_verified p | None \<Rightarrow> False))) s)
      | None \<Rightarrow> answer (Inl object_not_found) s)"

text \<open>params.get(name).and_then(parse).unwrap_or(default), for a usize.\<close>

definition query_usize :: "query \<Rightarrow> string \<Rightarrow> nat \<Rightarrow> u64" where
  "query_usize q name d =
     word_of_nat (or_default d (Option.bind (tbl_get q name) (from_str_radix 10 (2 ^ 64))))"

definition page_of :: "query \<Rightarrow> u64" where
  "page_of q = query_usize q ''page'' 0"

definition limit_of :: "query \<Rightarrow> u64" where
  "limit_of q = min (query_usize q ''limit'' 100) 1000"

text \<open>The page; page * limit wraps as the release build computes it.\<close>

definition paginate :: "u64 \<Rightarrow> u64 \<Rightarrow> 'a list \<Rightarrow> 'a list" where
  "paginate page limit xs =
     (let start = unat (page * limit)
      in if start < length xs then take (unat limit) (drop start xs) else [])"

definition get_object_history :: "string \<Rightarrow> query \<Rightarrow> app_state \<Rightarrow> handled" where
  "get_object_history i q s =
     (if bad_id i then answer (Inl bad_object_id) s
      else (let all_transitions = get_transitions_for_object (app_store s) i
            in answer (Inr (History (length all_transitions) (page_of q) (limit_of q)
                 (paginate (page_of q) (limit_of q) all_transitions))) s))"

definition rpc_get_all_objects :: "query \<Rightarrow> app_state \<Rightarrow> handled" where
  "rpc_get_all_objects q s =
     (let all_objects = get_all_objects (app_store s)
      in answer (Inr (Objects (length all_objects) (page_of q) (limit_of q)
           (paginate (page_of q) (limit_of q) all_objects))) s)"

definition get_latest_state_root :: "libs \<Rightarrow> app_config \<Rightarrow> app_state \<Rightarrow> handled" where
  "get_latest_state_root L cfg s =
     (let last_height = get_last_sync_block (app_store s) (app_chain cfg);
          (state_root, st) = current_state_root L (app_store s)
      in answer (Inr (StateRoot (app_chain cfg) last_height state_root)) (set_store st s))"

definition get_state_root_at_height :: "app_config \<Rightarrow> u64 \<Rightarrow> app_state \<Rightarrow> handled" where
  "get_state_root_at_height cfg height s =
     (if 10000000 < height then answer (Inl (BAD_REQUEST, Text ''Block height too large'')) s
      else case get_block (app_store s) (app_chain cfg) height of
        Some b \<Rightarrow> answer (Inr (StateRootAt (app_chain cfg) height (blk_block_hash b) (blk_state_root b)
            (get_attestations (app_consensus s) (app_chain cfg) height)
            (is_quorum_reached (app_consensus s) (app_chain cfg) height (blk_state_root b)))) s
      | None \<Rightarrow> answer (Inl (NOT_FOUND, Text (''Block #'' @ dec (unat height) @ '' not found''))) s)"

definition too_large :: "string \<Rightarrow> nat \<Rightarrow> nat \<Rightarrow> rpc_error" where
  "too_large what n m = (BAD_REQUEST, Text (what @ '' too large: '' @ dec n @ '' bytes (max '' @ dec m @ '')''))"

definition broadcast_transaction :: "libs \<Rightarrow> p2p_answers \<Rightarrow> string \<Rightarrow> app_state \<Rightarrow> handled" where
  "broadcast_transaction L pa payload_hex s =
     (case validate_hex payload_hex ''payload_hex'' of
        Inl e \<Rightarrow> answer (Inl e) s
      | Inr _ \<Rightarrow>
          (case hex_decode L payload_hex of
             None \<Rightarrow> answer (Inl (BAD_REQUEST, HexText ''Invalid hex: '')) s
           | Some d \<Rightarrow>
               if MAX_BROADCAST_SIZE < length d
               then answer (Inl (too_large ''Payload'' (length d) MAX_BROADCAST_SIZE)) s
               else (case pa_broadcast pa d of
                       Inl e \<Rightarrow> (Inl (INTERNAL_SERVER_ERROR, P2pText e), [SendMempool d], s)
                     | Inr _ \<Rightarrow> (Inr BroadcastedToP2p, [SendMempool d], s))))"

definition get_p2p_peers :: "p2p_answers \<Rightarrow> app_state \<Rightarrow> handled" where
  "get_p2p_peers pa s =
     (let peers = (case pa_peers pa of Inl _ \<Rightarrow> [] | Inr ps \<Rightarrow> ps)
      in (Inr (Peers (length peers) peers), [AskPeers], s))"

definition put_dht_contract :: "libs \<Rightarrow> app_config \<Rightarrow> p2p_answers \<Rightarrow> headers \<Rightarrow> string \<Rightarrow> string \<Rightarrow> app_state \<Rightarrow> handled" where
  "put_dht_contract L cfg pa hs code_hash wasm_hex s =
     (case verify_bridge_auth L hs (app_bridge_api_key cfg) of
        Inl e \<Rightarrow> answer (Inl e) s
      | Inr _ \<Rightarrow>
     (case validate_hex code_hash ''code_hash'' of
        Inl e \<Rightarrow> answer (Inl e) s
      | Inr _ \<Rightarrow>
     (case validate_hex wasm_hex ''wasm_hex'' of
        Inl e \<Rightarrow> answer (Inl e) s
      | Inr _ \<Rightarrow>
     (case hex_decode L wasm_hex of
        None \<Rightarrow> answer (Inl (BAD_REQUEST, HexText ''Invalid wasm hex: '')) s
      | Some wasm_bytes \<Rightarrow>
          if MAX_WASM_SIZE < length wasm_bytes
          then answer (Inl (too_large ''WASM'' (length wasm_bytes) MAX_WASM_SIZE)) s
          else (let computed_hash = hex_encode L (sha256 L wasm_bytes) in
                if computed_hash \<noteq> code_hash
                then answer (Inl (BAD_REQUEST, Text (''code_hash mismatch: claimed='' @ code_hash
                       @ '' but sha256(wasm)='' @ computed_hash))) s
                else (case pa_put_contract pa code_hash wasm_bytes of
                        Inl e \<Rightarrow> (Inl (INTERNAL_SERVER_ERROR, P2pText e), [SendContract code_hash wasm_bytes], s)
                      | Inr _ \<Rightarrow> (Inr (PublishedToDht code_hash), [SendContract code_hash wasm_bytes], s)))))))"

definition get_dht_contract :: "libs \<Rightarrow> p2p_answers \<Rightarrow> string \<Rightarrow> app_state \<Rightarrow> handled" where
  "get_dht_contract L pa code_hash s =
     (case validate_hex code_hash ''code_hash'' of
        Inl e \<Rightarrow> answer (Inl e) s
      | Inr _ \<Rightarrow>
     (case pa_get_contract pa code_hash of
        Inl e \<Rightarrow> (Inl (INTERNAL_SERVER_ERROR, P2pText e), [AskContract code_hash], s)
      | Inr None \<Rightarrow> (Inl (NOT_FOUND, Text ''Contract bytecode not found in DHT''), [AskContract code_hash], s)
      | Inr (Some wasm) \<Rightarrow>
          (let computed_hash = hex_encode L (sha256 L wasm) in
           if computed_hash \<noteq> code_hash
           then (Inl (INTERNAL_SERVER_ERROR, Text (''Stored contract hash mismatch: key='' @ code_hash
                   @ '' but sha256(wasm)='' @ computed_hash @ ''. Record is corrupt.'')), [AskContract code_hash], s)
           else (Inr (ContractCode code_hash (hex_encode L wasm)), [AskContract code_hash], s))))"

definition rpc_get_slashing_proofs :: "app_state \<Rightarrow> handled" where
  "rpc_get_slashing_proofs s =
     (let proofs = get_slashing_proofs (app_consensus s)
      in answer (Inr (SlashingProofs (length proofs) proofs)) s)"

subsection \<open>Bridge and relay endpoints\<close>

definition set_bridge :: "bridge_manager \<Rightarrow> app_state \<Rightarrow> app_state" where
  "set_bridge b s = s\<lparr>app_bridge := b\<rparr>"

definition rpc_lock_assets :: "libs \<Rightarrow> app_config \<Rightarrow> i64 \<Rightarrow> headers \<Rightarrow> lock_request \<Rightarrow> app_state \<Rightarrow> handled" where
  "rpc_lock_assets L cfg now hs req s =
     (case verify_bridge_auth L hs (app_bridge_api_key cfg) of
        Inl e \<Rightarrow> answer (Inl e) s
      | Inr _ \<Rightarrow>
          (case lock_assets L now (lkr_source_chain req) (lkr_object_id req) (lkr_dest_chain req) (lkr_dest_owner req)
                  (lkr_caller_pubkey req) (lkr_signature req) (app_bridge s) of
             (Inl e, b) \<Rightarrow> answer (Inl (FORBIDDEN, BridgeText e)) (set_bridge b s)
           | (Inr transfer, b) \<Rightarrow> answer (Inr (LockedReply transfer)) (set_bridge b s)))"

text \<open>str::contains, the Debug format of a status, and the display of the errors of cancel_transfer.\<close>

fun contains :: "string \<Rightarrow> string \<Rightarrow> bool" where
  "contains pat [] \<longleftrightarrow> pat = []"
| "contains pat (c # cs) \<longleftrightarrow> starts_with pat (c # cs) \<or> contains pat cs"

fun status_debug :: "bridge_status \<Rightarrow> string" where
  "status_debug Pending = ''Pending''"
| "status_debug Verified = ''Verified''"
| "status_debug Locked = ''Locked''"
| "status_debug Minted = ''Minted''"
| "status_debug Completed = ''Completed''"
| "status_debug Failed = ''Failed''"

definition em_dash :: string where
  "em_dash = of_bytes [0xE2, 0x80, 0x94]"

text \<open>The text after a prefix that hex or secp256k1 provides is the argument crate_text.\<close>

fun cancel_error_text :: "(bridge_error \<Rightarrow> string) \<Rightarrow> bridge_error \<Rightarrow> string" where
  "cancel_error_text crate_text (TransferNotFound i) = ''Transfer not found: '' @ i"
| "cancel_error_text crate_text (NotCancellable i st) =
     ''Transfer '' @ [CHR 0x27] @ i @ [CHR 0x27] @ '' is in status '' @ status_debug st @ '' '' @ em_dash
       @ '' only Pending or Locked transfers can be cancelled.''"
| "cancel_error_text crate_text (TimeoutNotReached elapsed) =
     ''Reclaim timeout not reached: '' @ dec_int elapsed @ ''s elapsed, '' @ dec_int RECLAIM_TIMEOUT_SECS
       @ ''s required. Try again later.''"
| "cancel_error_text crate_text (ObjectNotFound i) = ''Source object not found''"
| "cancel_error_text crate_text (NotOriginalOwner caller owner) =
     ''Caller '' @ [CHR 0x27] @ caller @ [CHR 0x27] @ '' is not the original owner '' @ [CHR 0x27] @ owner @ [CHR 0x27]
       @ '' of the locked object.''"
| "cancel_error_text crate_text InvalidPubkeyHex = ''Invalid owner pubkey hex: '' @ crate_text InvalidPubkeyHex"
| "cancel_error_text crate_text InvalidPubkey = ''Invalid public key: '' @ crate_text InvalidPubkey"
| "cancel_error_text crate_text InvalidSignatureHex = ''Invalid signature hex: '' @ crate_text InvalidSignatureHex"
| "cancel_error_text crate_text InvalidSignature = ''Invalid signature format: '' @ crate_text InvalidSignature"
| "cancel_error_text crate_text SignatureRejected = ''ECDSA signature verification failed for cancel_transfer''"
| "cancel_error_text crate_text e = []"

definition cancel_status :: "string \<Rightarrow> http_status" where
  "cancel_status e =
     (if contains ''not owner'' e then FORBIDDEN else if contains ''timeout'' e then CONFLICT else BAD_REQUEST)"

definition rpc_cancel_transfer :: "libs \<Rightarrow> app_config \<Rightarrow> (bridge_error \<Rightarrow> string) \<Rightarrow> i64 \<Rightarrow> headers \<Rightarrow> string \<Rightarrow> string
    \<Rightarrow> string \<Rightarrow> app_state \<Rightarrow> handled" where
  "rpc_cancel_transfer L cfg crate_text now hs transfer_id caller signature_hex s =
     (case verify_bridge_auth L hs (app_bridge_api_key cfg) of
        Inl e \<Rightarrow> answer (Inl e) s
      | Inr _ \<Rightarrow>
          (case cancel_transfer L now transfer_id caller signature_hex (app_bridge s) of
             (Inl e, b) \<Rightarrow> answer (Inl (cancel_status (cancel_error_text crate_text e), BridgeText e)) (set_bridge b s)
           | (Inr transfer, b) \<Rightarrow> answer (Inr (CancelledReply transfer)) (set_bridge b s)))"

definition rpc_mint_from_proof :: "libs \<Rightarrow> app_config \<Rightarrow> i64 \<Rightarrow> headers \<Rightarrow> string \<Rightarrow> cross_chain_proof \<Rightarrow> app_state \<Rightarrow> handled" where
  "rpc_mint_from_proof L cfg now hs transfer_id pr s =
     (case verify_bridge_auth L hs (app_bridge_api_key cfg) of
        Inl e \<Rightarrow> answer (Inl e) s
      | Inr _ \<Rightarrow>
          (case mint_from_proof L (app_consensus s) now transfer_id pr (app_bridge s) of
             (Inl e, b) \<Rightarrow> answer (Inl (INTERNAL_SERVER_ERROR, BridgeText e)) (set_bridge b s)
           | (Inr transfer, b) \<Rightarrow> answer (Inr (MintedReply transfer)) (set_bridge b s)))"

definition rpc_get_transfer :: "string \<Rightarrow> app_state \<Rightarrow> handled" where
  "rpc_get_transfer i s =
     (case get_transfer (app_bridge s) i of
        Some t \<Rightarrow> answer (Inr (TransferReply t)) s
      | None \<Rightarrow> answer (Inl (NOT_FOUND, Text ''Transfer not found'')) s)"

definition rpc_get_all_transfers :: "app_state \<Rightarrow> handled" where
  "rpc_get_all_transfers s =
     (let transfers = get_all_transfers (app_bridge s)
      in answer (Inr (TransfersReply (length transfers) transfers)) s)"

definition create_relay :: "i64 \<Rightarrow> string \<Rightarrow> u64 \<Rightarrow> string \<Rightarrow> app_state \<Rightarrow> handled" where
  "create_relay now source_chain block_height dest_chain s =
     (case create_relay_message (app_store s) (app_consensus s) source_chain block_height of
        Inl e \<Rightarrow> answer (Inl (INTERNAL_SERVER_ERROR, RelayText e)) s
      | Inr message \<Rightarrow>
          (let (rec, rs) = relay_to_chain now message dest_chain (app_relay s)
           in answer (Inr (RelayedReply rec)) (s\<lparr>app_relay := rs\<rparr>)))"

definition rpc_verify_relay :: "libs \<Rightarrow> i64 \<Rightarrow> string \<Rightarrow> app_state \<Rightarrow> handled" where
  "rpc_verify_relay L now i s =
     (case verify_relay L (app_consensus s) now i (app_relay s) of
        (Inl e, rs) \<Rightarrow> answer (Inl (INTERNAL_SERVER_ERROR, RelayText e)) (s\<lparr>app_relay := rs\<rparr>)
      | (Inr rec, rs) \<Rightarrow> answer (Inr (RelayReply rec)) (s\<lparr>app_relay := rs\<rparr>))"

definition rpc_get_latest_relay :: "string \<Rightarrow> app_state \<Rightarrow> handled" where
  "rpc_get_latest_relay chain s =
     (case get_latest_relay (app_relay s) chain of
        Some r \<Rightarrow> answer (Inr (RelayReply r)) s
      | None \<Rightarrow> answer (Inl (NOT_FOUND, Text ''No verified relay found'')) s)"

definition health_check :: "app_config \<Rightarrow> app_state \<Rightarrow> handled" where
  "health_check cfg s =
     answer (Inr (HealthReply (app_chain cfg) (get_last_sync_block (app_store s) (app_chain cfg)))) s"

definition newline :: string where
  "newline = [CHR 0x0A]"

definition prometheus_metrics :: "app_config \<Rightarrow> p2p_answers \<Rightarrow> app_state \<Rightarrow> handled" where
  "prometheus_metrics cfg pa s =
     (let last_height = get_last_sync_block (app_store s) (app_chain cfg);
          peers = (case pa_peers pa of Inl _ \<Rightarrow> [] | Inr ps \<Rightarrow> ps);
          transfers = get_all_transfers (app_bridge s);
          relay_count = length (get_all_records (app_relay s))
      in (Inr (MetricsReply
            (''# HELP utxovm_block_height Current synced block height'' @ newline
             @ ''# TYPE utxovm_block_height gauge'' @ newline
             @ ''utxovm_block_height{chain='' @ [CHR 0x22] @ app_chain cfg @ [CHR 0x22] @ ''} '' @ dec (unat last_height) @ newline
             @ ''# HELP utxovm_p2p_peers Connected P2P peers'' @ newline
             @ ''# TYPE utxovm_p2p_peers gauge'' @ newline
             @ ''utxovm_p2p_peers '' @ dec (length peers) @ newline
             @ ''# HELP utxovm_bridge_transfers Total bridge transfers'' @ newline
             @ ''# TYPE utxovm_bridge_transfers gauge'' @ newline
             @ ''utxovm_bridge_transfers '' @ dec (length transfers) @ newline
             @ ''# HELP utxovm_relay_count Total state relays'' @ newline
             @ ''# TYPE utxovm_relay_count gauge'' @ newline
             @ ''utxovm_relay_count '' @ dec relay_count @ newline)), [AskPeers], s))"

subsection \<open>The router\<close>

text \<open>What a request meets from outside: the clock, the hash-free texts of crates, the p2p answers.\<close>

record surroundings =
  env_now :: i64
  env_crate_text :: "bridge_error \<Rightarrow> string"
  env_p2p :: p2p_answers

fun route :: "libs \<Rightarrow> app_config \<Rightarrow> surroundings \<Rightarrow> headers \<Rightarrow> rpc_request \<Rightarrow> app_state \<Rightarrow> handled" where
  "route L cfg ev hs GetChainInfo s = get_chain_info L cfg (env_p2p ev) s"
| "route L cfg ev hs (GetObject i) s = rpc_get_object i s"
| "route L cfg ev hs (GetObjectProof i) s = get_object_proof L i s"
| "route L cfg ev hs (GetObjectHistory i q) s = get_object_history i q s"
| "route L cfg ev hs (GetAllObjects q) s = rpc_get_all_objects q s"
| "route L cfg ev hs GetLatestStateRoot s = get_latest_state_root L cfg s"
| "route L cfg ev hs (GetStateRootAt h) s = get_state_root_at_height cfg h s"
| "route L cfg ev hs (BroadcastTransaction p) s = broadcast_transaction L (env_p2p ev) p s"
| "route L cfg ev hs GetP2pPeers s = get_p2p_peers (env_p2p ev) s"
| "route L cfg ev hs (PutDhtContract h w) s = put_dht_contract L cfg (env_p2p ev) hs h w s"
| "route L cfg ev hs (GetDhtContract h) s = get_dht_contract L (env_p2p ev) h s"
| "route L cfg ev hs GetSlashingProofs s = rpc_get_slashing_proofs s"
| "route L cfg ev hs (LockAssets r) s = rpc_lock_assets L cfg (env_now ev) hs r s"
| "route L cfg ev hs (MintFromProof i pr) s = rpc_mint_from_proof L cfg (env_now ev) hs i pr s"
| "route L cfg ev hs (CancelTransfer i c g) s = rpc_cancel_transfer L cfg (env_crate_text ev) (env_now ev) hs i c g s"
| "route L cfg ev hs (GetTransfer i) s = rpc_get_transfer i s"
| "route L cfg ev hs GetAllTransfers s = rpc_get_all_transfers s"
| "route L cfg ev hs (CreateRelay c h d) s = create_relay (env_now ev) c h d s"
| "route L cfg ev hs (VerifyRelay i) s = rpc_verify_relay L (env_now ev) i s"
| "route L cfg ev hs (GetLatestRelay c) s = rpc_get_latest_relay c s"
| "route L cfg ev hs HealthCheck s = health_check cfg s"
| "route L cfg ev hs PrometheusMetrics s = prometheus_metrics cfg (env_p2p ev) s"

text \<open>rate_limit_middleware: a refused request does not reach its handler.\<close>

definition rate_limit_middleware :: "libs \<Rightarrow> app_config \<Rightarrow> u64 \<Rightarrow> surroundings \<Rightarrow> nat \<Rightarrow> string option \<Rightarrow> headers
    \<Rightarrow> rpc_request \<Rightarrow> rate_windows \<times> app_state \<Rightarrow> (rpc_error + rpc_reply) \<times> p2p_request list \<times> rate_windows \<times> app_state" where
  "rate_limit_middleware L cfg max_requests ev instant peer hs req st =
     (let (ws, s) = st;
          (pass, ws1) = rate_check max_requests (client_key cfg peer hs, instant) ws
      in if pass then (let (r, out, s1) = route L cfg ev hs req s in (r, out, ws1, s1))
         else (Inl (TOO_MANY_REQUESTS, Text ''Rate limit exceeded''), [], ws1, s))"

section \<open>Writes need the key, contract code its hash\<close>

definition authorised :: "libs \<Rightarrow> app_config \<Rightarrow> headers \<Rightarrow> bool" where
  "authorised L cfg hs \<longleftrightarrow> (\<exists>expected token. app_bridge_api_key cfg = Some expected
     \<and> header hs ''authorization'' = Some (''Bearer '' @ token)
     \<and> sha256 L (as_bytes token) = sha256 L (as_bytes expected))"

lemma strip_prefix_Some: "strip_prefix p v = Some t \<longleftrightarrow> v = p @ t"
  by (auto simp: strip_prefix_def starts_with_def) (metis append_take_drop_id)

lemma verify_bridge_auth_iff: "verify_bridge_auth L hs (app_bridge_api_key cfg) = Inr u \<longleftrightarrow> authorised L cfg hs"
proof -
  have "authorised L cfg hs \<longleftrightarrow> (\<exists>expected v token. app_bridge_api_key cfg = Some expected
      \<and> header hs ''authorization'' = Some v \<and> strip_prefix ''Bearer '' v = Some token
      \<and> sha256 L (as_bytes token) = sha256 L (as_bytes expected))"
    unfolding authorised_def strip_prefix_Some by blast
  then show ?thesis by (auto simp: verify_bridge_auth_def split: option.splits)
qed

lemma unauthorised_error: "\<not> authorised L cfg hs \<Longrightarrow>
    \<exists>e. verify_bridge_auth L hs (app_bridge_api_key cfg) = Inl e \<and> fst e \<in> {FORBIDDEN, UNAUTHORIZED}"
  using verify_bridge_auth_iff [of L hs cfg "()"]
  by (auto simp: verify_bridge_auth_def split: option.splits if_splits)

text \<open>The same node but for the relay records and the cached hashes of the state tree.\<close>

definition same_node :: "app_state \<Rightarrow> app_state \<Rightarrow> bool" where
  "same_node s s' \<longleftrightarrow> app_consensus s' = app_consensus s
     \<and> app_bridge s' = (app_bridge s)\<lparr>br_store := (app_store s)\<lparr>st_smt := st_smt (app_store s')\<rparr>\<rparr>"

lemma same_node_refl [simp]: "same_node s s" "same_node s (s\<lparr>app_relay := rs\<rparr>)"
  by (simp_all add: same_node_def)

lemma same_node_root [simp]: "same_node s (set_store (snd (current_state_root L (app_store s))) s)"
  by (simp add: same_node_def set_store_def current_state_root_def case_prod_beta)

lemmas handler_defs = answer_def get_chain_info_def rpc_get_object_def get_object_proof_def get_object_history_def
  rpc_get_all_objects_def get_latest_state_root_def get_state_root_at_height_def broadcast_transaction_def
  get_p2p_peers_def put_dht_contract_def get_dht_contract_def rpc_get_slashing_proofs_def rpc_lock_assets_def
  rpc_cancel_transfer_def rpc_mint_from_proof_def rpc_get_transfer_def rpc_get_all_transfers_def create_relay_def
  rpc_verify_relay_def rpc_get_latest_relay_def health_check_def prometheus_metrics_def

definition bridge_request :: "rpc_request \<Rightarrow> bool" where
  "bridge_request req \<longleftrightarrow> (case req of LockAssets _ \<Rightarrow> True | MintFromProof _ _ \<Rightarrow> True | CancelTransfer _ _ _ \<Rightarrow> True | _ \<Rightarrow> False)"

lemma other_requests_same_node:
  assumes "\<not> bridge_request req"
  shows "same_node s (snd (snd (route L cfg ev hs req s)))"
  using assms
  by (cases req) (auto simp: handler_defs bridge_request_def Let_def case_prod_beta
      split: option.split sum.split)

lemma refused_write:
  assumes "\<not> authorised L cfg hs" "bridge_request req \<or> (\<exists>h w. req = PutDhtContract h w)"
  shows "\<exists>e. route L cfg ev hs req s = (Inl e, [], s) \<and> fst e \<in> {FORBIDDEN, UNAUTHORIZED}"
  using assms(2) unauthorised_error [OF assms(1)]
  by (cases req) (auto simp: bridge_request_def handler_defs)

lemma sent_contract:
  assumes "SendContract h w \<in> set (fst (snd (route L cfg ev hs req s)))"
  shows "authorised L cfg hs \<and> h = hex_encode L (sha256 L w) \<and> length w \<le> MAX_WASM_SIZE"
proof -
  have "\<exists>x. req = PutDhtContract h x"
    using assms by (cases req) (auto simp: handler_defs Let_def case_prod_beta split: option.splits sum.splits if_splits)
  then obtain x where req: "req = PutDhtContract h x" ..
  have "authorised L cfg hs"
  proof (rule ccontr)
    assume "\<not> authorised L cfg hs"
    from refused_write [OF this, of req ev s] req assms show False by auto
  qed
  then show ?thesis
    using assms unfolding req
    by (auto simp: put_dht_contract_def answer_def Let_def split: option.splits sum.splits if_splits)
qed

lemma served_contract:
  "fst (route L cfg ev hs req s) = Inr (ContractCode h x) \<Longrightarrow> \<exists>w. x = hex_encode L w \<and> h = hex_encode L (sha256 L w)"
  by (cases req) (auto simp: handler_defs Let_def case_prod_beta split: option.splits sum.splits if_splits)

text \<open>
  C14. Guards of the HTTP interface. Without a request header that carries the API key, no request
  changes the objects, the transfers, the mint records, the blocks or the attestations of the node
  (only relay records and cached hashes of the state tree), and the bridge endpoints and the upload
  of contracts answer 401 or 403. Contract code is handed to the network only with the key, at most
  1 MB of it and under its hash, and served only when it has the hash that was asked for, whatever
  the network answers.
\<close>

theorem rpc_writes_need_key:
  assumes run: "route L cfg ev hs req s = (r, out, s')"
  shows "(\<not> authorised L cfg hs \<longrightarrow> same_node s s'
        \<and> (bridge_request req \<or> (\<exists>h w. req = PutDhtContract h w)
            \<longrightarrow> (\<exists>e. r = Inl e \<and> fst e \<in> {FORBIDDEN, UNAUTHORIZED}) \<and> s' = s \<and> out = []))
    \<and> (SendContract h w \<in> set out
        \<longrightarrow> authorised L cfg hs \<and> h = hex_encode L (sha256 L w) \<and> length w \<le> 1024 * 1024)
    \<and> (r = Inr (ContractCode h x) \<longrightarrow> (\<exists>w. x = hex_encode L w \<and> h = hex_encode L (sha256 L w)))"
proof (intro conjI impI)
  assume no: "\<not> authorised L cfg hs"
  show "same_node s s'"
  proof (cases "bridge_request req")
    case True
    with refused_write [OF no, of req ev s] run show ?thesis by auto
  next
    case False
    from other_requests_same_node [OF this, of s L cfg ev hs] run show ?thesis by simp
  qed
next
  assume "\<not> authorised L cfg hs" "bridge_request req \<or> (\<exists>h w. req = PutDhtContract h w)"
  from refused_write [OF this, of ev s] run
  show "\<exists>e. r = Inl e \<and> fst e \<in> {FORBIDDEN, UNAUTHORIZED}" "s' = s" "out = []" by auto
next
  assume "SendContract h w \<in> set out"
  with sent_contract [of h w L cfg ev hs req s] run
  show "authorised L cfg hs" "h = hex_encode L (sha256 L w)" "length w \<le> 1024 * 1024"
    by (simp_all add: MAX_WASM_SIZE_def)
next
  assume "r = Inr (ContractCode h x)"
  then show "\<exists>w. x = hex_encode L w \<and> h = hex_encode L (sha256 L w)"
    using served_contract [of L cfg ev hs req s h x] run by simp
qed

section \<open>The rate limit\<close>

text \<open>How many requests of a client were let through.\<close>

definition passed :: "string \<Rightarrow> (string \<times> nat) list \<Rightarrow> bool list \<Rightarrow> nat" where
  "passed k reqs outs = length (filter (\<lambda>((key, _), out). key = k \<and> out) (zip reqs outs))"

definition per_window :: "u64 \<Rightarrow> nat" where
  "per_window max_requests = max 1 (unat max_requests)"

definition windows_ok :: "u64 \<Rightarrow> rate_windows \<Rightarrow> bool" where
  "windows_ok mx ws \<longleftrightarrow> (\<forall>k start n. tbl_get ws k = Some (start, n) \<longrightarrow> n \<le> per_window mx)"

lemma windows_ok_step: "windows_ok mx ws \<Longrightarrow> windows_ok mx (snd (rate_check mx req ws))"
  by (auto simp: windows_ok_def rate_check_def per_window_def or_default_def split: prod.split option.splits)

interpretation limiter: machine_invariant "rate_check mx" "windows_ok mx" "\<lambda>_. True" for mx
  by unfold_locales (simp_all add: windows_ok_step)

lemma passed_Nil [simp]: "passed k [] outs = 0"
  by (simp add: passed_def)

lemma passed_run_Cons:
  "passed k (req # reqs) (fst (machine_run (rate_check mx) (req # reqs) ws))
     = (if fst req = k \<and> fst (rate_check mx req ws) then 1 else 0)
       + passed k reqs (fst (machine_run (rate_check mx) reqs (snd (rate_check mx req ws))))"
  by (simp add: passed_def case_prod_beta)

lemma other_client: "fst req \<noteq> k \<Longrightarrow> tbl_get (snd (rate_check mx req ws)) k = tbl_get ws k"
  by (auto simp: rate_check_def Let_def split: prod.split)

text \<open>From a window of a client on, what it gets through is bounded by the windows that fit.\<close>

lemma passed_from_window:
  assumes "tbl_get ws k = Some (start, n)" "n \<le> per_window mx" "\<forall>(key, t) \<in> set reqs. t \<le> T"
  shows "passed k reqs (fst (machine_run (rate_check mx) reqs ws)) + n \<le> per_window mx * (1 + (T - start) div 10 ^ 9)"
  using assms
proof (induction reqs arbitrary: ws start n)
  case Nil
  then show ?case by simp
next
  case (Cons req reqs)
  obtain key t where req: "req = (key, t)" by fastforce
  have T: "t \<le> T" "\<forall>(key, t) \<in> set reqs. t \<le> T" using Cons.prems(3) by (auto simp: req)
  let ?ws = "snd (rate_check mx req ws)" and ?m = "per_window mx"
  let ?rest = "passed k reqs (fst (machine_run (rate_check mx) reqs ?ws))"
  show ?case
  proof (cases "key = k")
    case False
    then have "tbl_get ?ws k = Some (start, n)" using other_client [of req k] Cons.prems(1) by (simp add: req)
    then show ?thesis using Cons.IH [OF _ Cons.prems(2) T(2)] False by (simp add: passed_run_Cons req del: machine_run.simps)
  next
    case True
    show ?thesis
    proof (cases "window_over start t")
      case over: True
      then have far: "start + 10 ^ 9 \<le> t"
        by (simp add: window_over_def RATE_LIMIT_WINDOW_SECS_def Suc_le_eq div_greater_zero_iff)
      have "tbl_get ?ws k = Some (t, 1)" using True over Cons.prems(1) by (simp add: rate_check_def req)
      then have rest: "?rest + 1 \<le> ?m * (1 + (T - t) div 10 ^ 9)"
        by (rule Cons.IH [OF _ _ T(2)]) (simp add: per_window_def)
      have "(T - t + 10 ^ 9) div 10 ^ 9 \<le> (T - start) div 10 ^ 9" using far T(1) by (intro div_le_mono) simp
      then have "1 + (T - t) div 10 ^ 9 \<le> (T - start) div 10 ^ 9" by simp
      then have "?m * (1 + (T - t) div 10 ^ 9) \<le> ?m * ((T - start) div 10 ^ 9)" by (rule mult_le_mono2)
      then show ?thesis using True rest Cons.prems(2)
        by (auto simp: passed_run_Cons req algebra_simps simp del: machine_run.simps)
    next
      case False
      have out: "rate_check mx req ws = (n < unat mx, tbl_insert k (start, if n < unat mx then n + 1 else n) ws)"
        using True False Cons.prems(1) by (simp add: rate_check_def req)
      have "?rest + (if n < unat mx then n + 1 else n) \<le> ?m * (1 + (T - start) div 10 ^ 9)"
        by (rule Cons.IH [OF _ _ T(2)]) (use Cons.prems(2) in \<open>auto simp: out per_window_def\<close>)
      moreover have "fst (rate_check mx req ws) = (n < unat mx)" by (simp add: out)
      ultimately show ?thesis using True
        by (simp add: passed_run_Cons req del: machine_run.simps split: if_splits)
    qed
  qed
qed

lemma window_kept: "\<not> window_over start t \<Longrightarrow> t \<le> start + 10 ^ 9"
proof (rule ccontr)
  assume no: "\<not> window_over start t" and "\<not> t \<le> start + 10 ^ 9"
  then have "10 ^ 9 \<le> t - start" by simp
  then have "window_over start t"
    by (simp add: window_over_def RATE_LIMIT_WINDOW_SECS_def Suc_le_eq div_greater_zero_iff)
  then show False using no by simp
qed

lemma rate_check_window:
  "\<exists>start n. tbl_get (snd (rate_check mx (key, t) ws)) key = Some (start, n) \<and> t \<le> start + 10 ^ 9
    \<and> (if fst (rate_check mx (key, t) ws) then 1 else 0) \<le> n"
proof -
  obtain s0 n0 where e: "or_default (t, 0) (tbl_get ws key) = (s0, n0)" by fastforce
  then show ?thesis using window_kept [of s0 t] by (auto simp: rate_check_def Let_def)
qed

lemma passed_in_interval:
  assumes "windows_ok mx ws" "\<forall>(key, t) \<in> set reqs. t0 \<le> t \<and> t \<le> T"
  shows "passed k reqs (fst (machine_run (rate_check mx) reqs ws)) \<le> per_window mx * (2 + (T - t0) div 10 ^ 9)"
  using assms
proof (induction reqs arbitrary: ws)
  case (Cons req reqs)
  obtain key t where req: "req = (key, t)" by fastforce
  have t: "t0 \<le> t" "t \<le> T" and rest: "\<forall>(key, t) \<in> set reqs. t \<le> T" "\<forall>(key, t) \<in> set reqs. t0 \<le> t \<and> t \<le> T"
    using Cons.prems(2) by (auto simp: req)
  let ?ws = "snd (rate_check mx req ws)" and ?m = "per_window mx"
  let ?rest = "passed k reqs (fst (machine_run (rate_check mx) reqs ?ws))"
  show ?case
  proof (cases "key = k")
    case False
    then show ?thesis using Cons.IH [OF windows_ok_step [OF Cons.prems(1)] rest(2)]
      by (simp add: passed_run_Cons req del: machine_run.simps)
  next
    case True
    obtain start n where after: "tbl_get ?ws k = Some (start, n)" "t \<le> start + 10 ^ 9"
      "(if fst (rate_check mx req ws) then 1 else 0) \<le> n"
      using rate_check_window [of mx key t ws] unfolding True [symmetric] req by blast
    have "n \<le> ?m" using windows_ok_step [OF Cons.prems(1), of req] after(1) by (auto simp: windows_ok_def)
    then have "?rest + n \<le> ?m * (1 + (T - start) div 10 ^ 9)" by (rule passed_from_window [OF after(1) _ rest(1)])
    moreover have "1 + (T - start) div 10 ^ 9 \<le> 2 + (T - t0) div 10 ^ 9"
    proof -
      have "(T - start) div 10 ^ 9 \<le> (T - t0 + 10 ^ 9) div 10 ^ 9" using after(2) t by (intro div_le_mono) simp
      then show ?thesis by simp
    qed
    ultimately have "?rest + n \<le> ?m * (2 + (T - t0) div 10 ^ 9)" by (meson mult_le_mono2 order_trans)
    then show ?thesis using True after(3) by (simp add: passed_run_Cons req del: machine_run.simps split: if_splits)
  qed
qed simp

text \<open>
  C15. The rate limit. Whatever other clients do, and whatever was requested before, the requests of
  one client with instants in an interval are let through at most as often as the limit allows per
  window, times two more than the seconds in the interval: at most twice the limit within less than
  a second, and no burst beyond that. (A limit of 0 lets one request per window through.)
\<close>

theorem rate_limit_bound:
  assumes before: "machine_run (rate_check mx) earlier [] = (outs0, ws)"
    and run: "machine_run (rate_check mx) reqs ws = (outs, ws')"
    and interval: "\<forall>(key, t) \<in> set reqs. t0 \<le> t \<and> t \<le> T"
  shows "passed k reqs outs \<le> max 1 (unat mx) * (2 + (T - t0) div 10 ^ 9)"
proof -
  have "windows_ok mx ws" using limiter.run_inv [of mx "[]" earlier] before by (simp add: windows_ok_def)
  from passed_in_interval [OF this interval, of k] run show ?thesis by (simp add: per_window_def)
qed

lemma rate_limit_bound_witness:
  "passed ''a'' [(''a'', 0), (''a'', 1), (''b'', 1), (''a'', 2)] [True, True, True, False] \<le> 4"
proof -
  have "machine_run (rate_check 2) [(''a'', 0), (''a'', 1), (''b'', 1), (''a'', 2)] []
      = ([True, True, True, False], [(''a'', (0, 2)), (''b'', (1, 1))])"
    by (simp add: rate_check_def window_over_def RATE_LIMIT_WINDOW_SECS_def tbl_get_def)
  then show ?thesis
    using rate_limit_bound [of 2 "[]" "[]" "[]" "[(''a'', 0), (''a'', 1), (''b'', 1), (''a'', 2)]" _ _ 0 2 "''a''"] by simp
qed

text \<open>A window is never removed: the table grows with every address that was ever seen.\<close>

lemma windows_never_removed:
  "tbl_get ws k \<noteq> None \<Longrightarrow> tbl_get (snd (machine_run (rate_check mx) reqs ws)) k \<noteq> None"
proof (induction reqs arbitrary: ws)
  case (Cons req reqs)
  have "tbl_get (snd (rate_check mx req ws)) k \<noteq> None"
    using Cons.prems by (auto simp: rate_check_def Let_def split: prod.split)
  from Cons.IH [OF this] show ?case by (simp add: case_prod_beta)
qed simp

text \<open>
  A client that no trusted proxy speaks for is counted under its own address. Behind a trusted
  proxy it is counted under the first entry of X-Forwarded-For, which a proxy that appends to the
  header leaves to the client: whatever key it wants is the key it gets.
\<close>

lemma direct_client_key: "or_default ''unknown'' peer \<notin> set (app_trusted_proxy_ips cfg)
    \<Longrightarrow> client_key cfg peer hs = or_default ''unknown'' peer"
  by (simp add: client_key_def)

lemma split_on_not_Nil: "split_on x cs \<noteq> []"
  by (cases cs) (auto split: list.split)

lemma split_on_prefix: "x \<notin> set a \<Longrightarrow> hd (split_on x (a @ x # b)) = a"
proof (induction a)
  case (Cons c a)
  then show ?case using split_on_not_Nil [of x "a @ x # b"] by (auto split: list.split)
qed simp

lemma forwarded_client_chooses_key:
  assumes "peer = Some ip" "ip \<in> set (app_trusted_proxy_ips cfg)" "CHR '','' \<notin> set k" "trim k = k"
    and "header hs ''x-forwarded-for'' = Some (k @ CHR '','' # appended)"
  shows "client_key cfg peer hs = k"
  using assms by (simp add: client_key_def split_on_prefix)

section \<open>Pages\<close>

lemma paginate_page:
  assumes "i * unat limit < 2 ^ 64"
  shows "paginate (word_of_nat i) limit xs = take (unat limit) (drop (i * unat limit) xs)"
proof (cases "unat limit = 0")
  case True
  then show ?thesis by (simp add: paginate_def Let_def)
next
  case False
  then have "i \<le> i * unat limit" by simp
  then have "i < 2 ^ 64" using assms by (rule le_less_trans)
  then have "unat (word_of_nat i :: u64) = i" by (intro of_nat_inverse [OF refl]) simp
  then have "unat (word_of_nat i * limit) = i * unat limit" using assms by (simp add: unat_word_ariths)
  then show ?thesis by (auto simp: paginate_def Let_def)
qed

text \<open>
  The pages of a listing partition it: the first n pages, one after the other, are the first
  n times limit entries, as long as that number fits a word, so every entry is on exactly one page.
\<close>

theorem pages_partition:
  assumes "n * unat limit < 2 ^ 64"
  shows "concat (map (\<lambda>i. paginate (word_of_nat i) limit xs) [0..<n]) = take (n * unat limit) xs"
  using assms
proof (induction n)
  case (Suc n)
  then have "n * unat limit < 2 ^ 64" by simp
  with Suc show ?case by (simp add: paginate_page take_add add.commute [of "unat limit"])
qed simp

lemma pages_partition_witness:
  "concat (map (\<lambda>i. paginate (word_of_nat i) 2 ''abcde'') [0..<3]) = ''abcde''"
  using pages_partition [of 3 2 "''abcde''"] by simp

text \<open>The product of page and limit wraps: a page number far beyond the end shows the first page.\<close>

lemma far_page_wraps: "paginate (2 ^ 63) 2 xs = paginate 0 2 xs"
  by (simp add: paginate_def)

section \<open>The status of a refused cancellation\<close>

text \<open>
  The handler recognises an error of the wrong caller by the words "not owner", which the text of
  that error does not contain: the answer is 400 and not the 403 the handler means to give.
\<close>

lemma wrong_caller_is_bad_request:
  "cancel_status (cancel_error_text ct (NotOriginalOwner ''02ab'' ''03cd'')) = BAD_REQUEST"
  by (simp add: cancel_status_def starts_with_def)

text \<open>The words come from the caller: with them in its name the same error is a 403.\<close>

lemma caller_chooses_status:
  "cancel_status (cancel_error_text ct (NotOriginalOwner ''not owner'' ''03cd'')) = FORBIDDEN"
  by (simp add: cancel_status_def starts_with_def)

section \<open>A concrete node\<close>

definition demo_config :: app_config where
  "demo_config = \<lparr>app_chain = ''c'', app_electrs_url = ''u'', app_bridge_api_key = None, app_trusted_proxy_ips = []\<rparr>"

definition demo_answers :: p2p_answers where
  "demo_answers = \<lparr>pa_local_peer_id = ''p'', pa_peers = Inr [], pa_get_contract = (\<lambda>h. Inr (Some [1])),
     pa_put_contract = (\<lambda>h w. Inr ()), pa_broadcast = (\<lambda>d. Inr ())\<rparr>"

definition demo_surroundings :: surroundings where
  "demo_surroundings = \<lparr>env_now = 0, env_crate_text = (\<lambda>_. []), env_p2p = demo_answers\<rparr>"

definition demo_app :: app_state where
  "demo_app = \<lparr>app_bridge = bridge_new (empty_store demo_libs), app_consensus = cm_new 1, app_relay = []\<rparr>"

lemma rpc_writes_need_key_witness:
  "same_node demo_app (snd (snd (route demo_libs demo_config demo_surroundings [] GetChainInfo demo_app)))
   \<and> (\<exists>e. fst (route demo_libs demo_config demo_surroundings [] (CancelTransfer ''t'' ''c'' ''s'') demo_app) = Inl e
        \<and> fst e \<in> {FORBIDDEN, UNAUTHORIZED})"
proof -
  have no: "\<not> authorised demo_libs demo_config []" by (simp add: authorised_def demo_config_def)
  have t: "route demo_libs demo_config demo_surroundings [] req demo_app
      = (fst (route demo_libs demo_config demo_surroundings [] req demo_app),
         fst (snd (route demo_libs demo_config demo_surroundings [] req demo_app)),
         snd (snd (route demo_libs demo_config demo_surroundings [] req demo_app)))" for req
    by simp
  show ?thesis
    using rpc_writes_need_key [OF t [of GetChainInfo]] rpc_writes_need_key [OF t [of "CancelTransfer ''t'' ''c'' ''s''"]] no
    by (simp add: bridge_request_def del: route.simps)
qed

end
