(* ===== verification/Vm_Front.thy ===== *)
theory Vm_Front
  imports Fixture
begin

text \<open>
  The two front ends of the virtual machine: the C interface of packages/core-vm/src/ffi.rs and the
  command line of packages/core-vm/src/bin/main.rs. Both take a JSON request and answer with JSON.
  Pointers are outside the model: a request is its bytes, an answer the bytes of the C string, or
  None for a null pointer. serde's decoding of a request is an argument.
\<close>

section \<open>Requests and answers\<close>

text \<open>
  The errors of both front ends, with their own wordings: the command line says "Missing k" and
  "Invalid hex" where the C interface says "missing field 'k'" and "invalid hex".
\<close>

datatype front_error =
    InvalidRequestJson
  | HexInvalid string
  | FieldMissing string
  | CliHexInvalid string
  | CliFieldMissing string
  | VmFailed vm_error
  | FixtureFailed fixture_error
  | EmptyWasm
  | PanicInVm
  | UnknownCommand string

text \<open>The text of an error; what it quotes from a library or from the machine is the argument detail.\<close>

fun front_text :: "(front_error \<Rightarrow> string) \<Rightarrow> front_error \<Rightarrow> string" where
  "front_text detail InvalidRequestJson = ''invalid JSON request: '' @ detail InvalidRequestJson"
| "front_text detail (HexInvalid s) = ''invalid hex: '' @ detail (HexInvalid s)"
| "front_text detail (FieldMissing key) = ''missing field '' @ [CHR 0x27] @ key @ [CHR 0x27]"
| "front_text detail (CliHexInvalid s) = ''Invalid hex: '' @ detail (CliHexInvalid s)"
| "front_text detail (CliFieldMissing key) = ''Missing '' @ key"
| "front_text detail EmptyWasm = ''empty wasm input''"
| "front_text detail PanicInVm = ''panic inside VM''"
| "front_text detail (UnknownCommand c) = ''Unknown command: '' @ c"
| "front_text detail e = detail e"

definition json_nat :: "nat \<Rightarrow> json" where
  "json_nat n = JNumber (PosInt (word_of_nat n))"

definition json_i32 :: "i32 \<Rightarrow> json" where
  "json_i32 c = JNumber (if 0 \<le> sint c then PosInt (word_of_int (sint c)) else NegInt (sint c))"

definition get_str :: "json \<Rightarrow> string \<Rightarrow> front_error + string" where
  "get_str v key = (case json_get_str v key of None \<Rightarrow> Inl (FieldMissing key) | Some s \<Rightarrow> Inr s)"

definition get_str_or :: "json \<Rightarrow> string \<Rightarrow> string \<Rightarrow> string" where
  "get_str_or v key d = or_default d (json_get_str v key)"

definition get_u64 :: "json \<Rightarrow> string \<Rightarrow> u64" where
  "get_u64 v key = or_default 0 (Option.bind (json_get v key) json_as_u64)"

definition hex_to_bytes :: "libs \<Rightarrow> string \<Rightarrow> front_error + bytes" where
  "hex_to_bytes L s = (case hex_decode L s of None \<Rightarrow> Inl (HexInvalid s) | Some b \<Rightarrow> Inr b)"

definition seal_from_json :: "json \<Rightarrow> single_use_seal" where
  "seal_from_json v =
     \<lparr>seal_txid = get_str_or v ''seal_txid'' (replicate 64 (CHR ''0'')), seal_vout = ucast (get_u64 v ''seal_vout'')\<rparr>"

definition hex_field :: "libs \<Rightarrow> json \<Rightarrow> string \<Rightarrow> front_error + bytes" where
  "hex_field L v key = (let s = get_str_or v key [] in if s = [] then Inr [] else hex_to_bytes L s)"

definition event_json :: "event_log \<Rightarrow> json" where
  "event_json e = JObject [(''data'', JString (ev_data e)), (''topic'', JString (ev_topic e))]"

definition exec_result_json :: "libs \<Rightarrow> execution_result \<Rightarrow> json" where
  "exec_result_json L r =
     JObject [(''created_objects'', json_nat (length (res_created_objects r))),
       (''events'', JArray (map event_json (res_events r))),
       (''gas_consumed'', JNumber (PosInt (res_gas_consumed r))),
       (''mweb_peg_outs'', json_nat (length (res_mweb_peg_outs r))),
       (''return_code'', json_i32 (res_return_code r)),
       (''stealth_settlements'', json_nat (length (res_stealth_settlements r))),
       (''updated_state_hex'', JString (hex_encode L (res_updated_state_data r)))]"

section \<open>The C interface\<close>

fun ftry :: "front_error + 'a \<Rightarrow> ('a \<Rightarrow> front_error + 'b) \<Rightarrow> front_error + 'b" where
  "ftry (Inl e) f = Inl e"
| "ftry (Inr x) f = f x"

definition vm_result :: "vm_error + 'a \<Rightarrow> front_error + 'a" where
  "vm_result r = (case r of Inl e \<Rightarrow> Inl (VmFailed e) | Inr x \<Rightarrow> Inr x)"

definition do_deploy :: "libs \<Rightarrow> 'g engine \<Rightarrow> json \<Rightarrow> front_error + json" where
  "do_deploy L E args =
     ftry (ftry (get_str args ''wasm_hex'') (hex_to_bytes L)) (\<lambda>wasm_bytes.
     ftry (hex_field L args ''init_args_hex'') (\<lambda>init_args.
     ftry (vm_result (deploy E default_vm_config wasm_bytes (get_str_or args ''caller'' ''unknown'')
             (seal_from_json args) (get_u64 args ''satoshis'') init_args)) (\<lambda>r.
     Inr (exec_result_json L r))))"

definition do_execute :: "libs \<Rightarrow> 'g engine \<Rightarrow> json \<Rightarrow> front_error + json" where
  "do_execute L E args =
     ftry (ftry (get_str args ''wasm_hex'') (hex_to_bytes L)) (\<lambda>wasm_bytes.
     ftry (hex_field L args ''state_hex'') (\<lambda>state_data.
     let caller = get_str_or args ''caller'' ''unknown'';
         st = \<lparr>sos_object_id = get_str_or args ''object_id'' [], sos_code_hash = calculate_code_hash L wasm_bytes,
               sos_seal = seal_from_json args, sos_satoshis = get_u64 args ''satoshis'', sos_owner_pubkey = caller,
               sos_state_data = state_data\<rparr> in
     ftry (get_str args ''method'') (\<lambda>mname.
     ftry (hex_field L args ''args_hex'') (\<lambda>margs.
     ftry (vm_result (execute L E default_vm_config wasm_bytes st caller mname margs)) (\<lambda>r.
     Inr (exec_result_json L r))))))"

text \<open>FfiResponse: the fields that are None are skipped.\<close>

definition ffi_response :: "(front_error \<Rightarrow> string) \<Rightarrow> front_error + json \<Rightarrow> json" where
  "ffi_response text r =
     (case r of
        Inr v \<Rightarrow> JObject [(''success'', JBool True), (''result'', v)]
      | Inl e \<Rightarrow> JObject [(''success'', JBool False), (''error'', JString (front_text text e))])"

definition to_c_json :: "libs \<Rightarrow> json \<Rightarrow> bytes option" where
  "to_c_json L j = (if 0 \<in> set (json_to_vec L j) then None else Some (json_to_vec L j))"

text \<open>catch_unwind turns a panic of the closure into an error.\<close>

definition catch_unwind :: "(front_error + 'a) rust \<Rightarrow> front_error + 'a" where
  "catch_unwind m = (case m of Panic \<Rightarrow> Inl PanicInVm | Ret r \<Rightarrow> r)"

definition run_ffi :: "libs \<Rightarrow> (front_error \<Rightarrow> string) \<Rightarrow> bytes \<Rightarrow> (json \<Rightarrow> (front_error + json) rust) \<Rightarrow> bytes option" where
  "run_ffi L text bytes f =
     to_c_json L (ffi_response text (catch_unwind
       (case json_from_slice L bytes of None \<Rightarrow> Ret (Inl InvalidRequestJson) | Some j \<Rightarrow> f j)))"

definition utxovm_deploy :: "libs \<Rightarrow> (front_error \<Rightarrow> string) \<Rightarrow> 'g engine \<Rightarrow> bytes \<Rightarrow> bytes option" where
  "utxovm_deploy L text E req = run_ffi L text req (\<lambda>j. Ret (do_deploy L E j))"

definition utxovm_execute :: "libs \<Rightarrow> (front_error \<Rightarrow> string) \<Rightarrow> 'g engine \<Rightarrow> bytes \<Rightarrow> bytes option" where
  "utxovm_execute L text E req = run_ffi L text req (\<lambda>j. Ret (do_execute L E j))"

definition report_json :: "fixture_report \<Rightarrow> json" where
  "report_json r =
     JObject [(''object_count'', json_nat (fr_object_count r)), (''ops_executed'', json_nat (fr_ops_executed r)),
       (''runtime_hash'', JString (fr_runtime_hash r)), (''runtime_version'', JString (fr_runtime_version r)),
       (''state_root'', JString (fr_state_root r)), (''total_gas'', JNumber (PosInt (fr_total_gas r)))]"

definition fixture_result :: "libs \<Rightarrow> 'g engine \<Rightarrow> string \<Rightarrow> fixture option \<Rightarrow> front_error + json" where
  "fixture_result L E pkg_version decoded =
     (case verify_fixture L E pkg_version decoded of Inl e \<Rightarrow> Inl (FixtureFailed e) | Inr r \<Rightarrow> Inr (report_json r))"

definition utxovm_verify :: "libs \<Rightarrow> (front_error \<Rightarrow> string) \<Rightarrow> 'g engine \<Rightarrow> string \<Rightarrow> (bytes \<Rightarrow> fixture option)
    \<Rightarrow> bytes \<Rightarrow> bytes option" where
  "utxovm_verify L text E pkg_version decode fixture_bytes =
     to_c_json L (ffi_response text (catch_unwind (Ret (fixture_result L E pkg_version (decode fixture_bytes)))))"

definition code_hash_json :: "libs \<Rightarrow> bytes \<Rightarrow> json" where
  "code_hash_json L wasm = JObject [(''code_hash'', JString (calculate_code_hash L wasm))]"

definition utxovm_code_hash :: "libs \<Rightarrow> (front_error \<Rightarrow> string) \<Rightarrow> bytes \<Rightarrow> bytes option" where
  "utxovm_code_hash L text wasm =
     to_c_json L (ffi_response text (catch_unwind
       (Ret (if wasm = [] then Inl EmptyWasm else Inr (code_hash_json L wasm)))))"

definition utxovm_runtime_version :: "libs \<Rightarrow> (front_error \<Rightarrow> string) \<Rightarrow> string \<Rightarrow> bytes option" where
  "utxovm_runtime_version L text pkg_version =
     to_c_json L (ffi_response text (catch_unwind (Ret (Inr (JObject
       [(''runtime_hash'', JString (calculate_runtime_hash L pkg_version)), (''version'', JString pkg_version),
        (''wasmtime_version'', JString wasmtime_version)])))))"

section \<open>The command line\<close>

record vm_request =
  req_command :: string
  req_args :: json

definition cli_result_json :: "libs \<Rightarrow> execution_result \<Rightarrow> json" where
  "cli_result_json L r =
     JObject [(''created_objects'', json_nat (length (res_created_objects r))),
       (''events'', JArray (map event_json (res_events r))),
       (''gas_consumed'', JNumber (PosInt (res_gas_consumed r))),
       (''return_code'', json_i32 (res_return_code r)),
       (''stealth_settlements'', json_nat (length (res_stealth_settlements r))),
       (''updated_state_hex'', JString (hex_encode L (res_updated_state_data r)))]"

definition cli_hex_to_bytes :: "libs \<Rightarrow> string \<Rightarrow> front_error + bytes" where
  "cli_hex_to_bytes L s = (case hex_decode L s of None \<Rightarrow> Inl (CliHexInvalid s) | Some b \<Rightarrow> Inr b)"

text \<open>A field that must be a string (as_str and ok_or), and an optional field in hex.\<close>

definition cli_str :: "json \<Rightarrow> string \<Rightarrow> front_error + string" where
  "cli_str v key = (case json_get_str v key of None \<Rightarrow> Inl (CliFieldMissing key) | Some s \<Rightarrow> Inr s)"

definition cli_hex_field :: "libs \<Rightarrow> json \<Rightarrow> string \<Rightarrow> front_error + bytes" where
  "cli_hex_field L v key = (let s = get_str_or v key [] in if s = [] then Inr [] else cli_hex_to_bytes L s)"

definition handle_deploy :: "libs \<Rightarrow> 'g engine \<Rightarrow> json \<Rightarrow> front_error + json" where
  "handle_deploy L E args =
     ftry (ftry (cli_str args ''wasm_hex'') (cli_hex_to_bytes L)) (\<lambda>wasm_bytes.
     let caller = get_str_or args ''caller'' ''unknown'';
         satoshis = get_u64 args ''satoshis'' in
     ftry (cli_hex_field L args ''init_args_hex'') (\<lambda>init_args.
     ftry (vm_result (deploy E default_vm_config wasm_bytes caller (seal_from_json args) satoshis init_args)) (\<lambda>r.
     Inr (cli_result_json L r))))"

definition handle_execute :: "libs \<Rightarrow> 'g engine \<Rightarrow> json \<Rightarrow> front_error + json" where
  "handle_execute L E args =
     ftry (ftry (cli_str args ''wasm_hex'') (cli_hex_to_bytes L)) (\<lambda>wasm_bytes.
     ftry (cli_hex_field L args ''state_hex'') (\<lambda>state_data.
     let caller = get_str_or args ''caller'' ''unknown'' in
     ftry (cli_str args ''method'') (\<lambda>mname.
     ftry (cli_hex_field L args ''args_hex'') (\<lambda>method_args.
     let st = \<lparr>sos_object_id = [], sos_code_hash = [], sos_seal = seal_from_json args, sos_satoshis = 0,
               sos_owner_pubkey = caller, sos_state_data = state_data\<rparr> in
     ftry (vm_result (execute L E default_vm_config wasm_bytes st caller mname method_args)) (\<lambda>r.
     Inr (cli_result_json L r))))))"

definition handle_code_hash :: "libs \<Rightarrow> json \<Rightarrow> front_error + json" where
  "handle_code_hash L args =
     ftry (ftry (cli_str args ''wasm_hex'') (cli_hex_to_bytes L)) (\<lambda>wasm_bytes. Inr (code_hash_json L wasm_bytes))"

definition handle_verify :: "libs \<Rightarrow> 'g engine \<Rightarrow> string \<Rightarrow> (bytes \<Rightarrow> fixture option) \<Rightarrow> json \<Rightarrow> front_error + json" where
  "handle_verify L E pkg_version decode args = fixture_result L E pkg_version (decode (json_to_vec L args))"

text \<open>The program: input that does not decode as a request ends it with a panic.\<close>

definition vm_main :: "libs \<Rightarrow> (front_error \<Rightarrow> string) \<Rightarrow> 'g engine \<Rightarrow> string \<Rightarrow> (bytes \<Rightarrow> fixture option)
    \<Rightarrow> vm_request option \<Rightarrow> bytes rust" where
  "vm_main L text E pkg_version decode input =
     (case input of
        None \<Rightarrow> Panic
      | Some req \<Rightarrow>
          (let response =
             (if req_command req = ''deploy'' then handle_deploy L E (req_args req)
              else if req_command req = ''execute'' then handle_execute L E (req_args req)
              else if req_command req = ''code_hash'' then handle_code_hash L (req_args req)
              else if req_command req = ''verify'' then handle_verify L E pkg_version decode (req_args req)
              else Inl (UnknownCommand (req_command req)))
           in Ret (json_to_vec L (ffi_response text response))))"

section \<open>The front ends agree\<close>

text \<open>What the command line prints of a result of the C interface: all but the peg-outs.\<close>

fun without_peg_outs :: "json \<Rightarrow> json" where
  "without_peg_outs (JObject kvs) = JObject (filter (\<lambda>(k, _). k \<noteq> ''mweb_peg_outs'') kvs)"
| "without_peg_outs j = j"

lemma cli_result [simp]: "without_peg_outs (exec_result_json L r) = cli_result_json L r"
  by (simp add: exec_result_json_def cli_result_json_def)

text \<open>How the command line words an error of the C interface.\<close>

fun cli_error :: "front_error \<Rightarrow> front_error" where
  "cli_error (FieldMissing key) = CliFieldMissing key"
| "cli_error (HexInvalid s) = CliHexInvalid s"
| "cli_error e = e"

lemma ftry_map: "map_sum f g (ftry m k) = ftry (map_sum f id m) (\<lambda>x. map_sum f g (k x))"
  by (cases m) auto

lemma cli_inputs:
  "cli_str v key = map_sum cli_error id (get_str v key)" "cli_hex_to_bytes L s = map_sum cli_error id (hex_to_bytes L s)"
  "cli_hex_field L v key = map_sum cli_error id (hex_field L v key)" "vm_result r = map_sum cli_error id (vm_result r)"
  by (auto simp: cli_str_def get_str_def cli_hex_to_bytes_def hex_to_bytes_def cli_hex_field_def hex_field_def Let_def
      vm_result_def split: option.split sum.split)

lemma execute_state:
  "execute L E cfg wasm \<lparr>sos_object_id = i, sos_code_hash = calculate_code_hash L wasm, sos_seal = sl, sos_satoshis = n,
      sos_owner_pubkey = p, sos_state_data = d\<rparr> caller mname margs
   = execute L E cfg wasm \<lparr>sos_object_id = [], sos_code_hash = [], sos_seal = sl, sos_satoshis = n,
      sos_owner_pubkey = p, sos_state_data = d\<rparr> caller mname margs"
  by (simp add: execute_def host_context_from_state_def cong: option.case_cong sum.case_cong if_cong)

text \<open>
  C30. The two front ends run a request alike, up to their wording. A deployment through the command
  line succeeds when the C interface does, with the same answer but for the number of peg-outs,
  which the command line leaves out, and fails when it does, at the same point: with the
  same error of the machine, or with its own text for a missing field or a bad hex string. So does
  a call that carries no satoshis.
\<close>

theorem front_ends_agree:
  "handle_deploy L E args = map_sum cli_error without_peg_outs (do_deploy L E args)
   \<and> (get_u64 args ''satoshis'' = 0 \<longrightarrow>
        handle_execute L E args = map_sum cli_error without_peg_outs (do_execute L E args))"
proof (intro conjI impI)
  show "handle_deploy L E args = map_sum cli_error without_peg_outs (do_deploy L E args)"
    by (simp add: handle_deploy_def do_deploy_def ftry_map Let_def flip: cli_inputs)
next
  assume "get_u64 args ''satoshis'' = 0"
  then show "handle_execute L E args = map_sum cli_error without_peg_outs (do_execute L E args)"
    by (simp add: handle_execute_def do_execute_def ftry_map Let_def execute_state flip: cli_inputs)
qed

definition demo_call :: json where
  "demo_call = JObject [(''method'', JString ''m''), (''wasm_hex'', JString ''0061736d'')]"

lemma front_ends_agree_witness:
  "handle_execute demo_libs demo_engine demo_call
     = map_sum cli_error without_peg_outs (do_execute demo_libs demo_engine demo_call)
   \<and> do_execute demo_libs demo_engine (JObject []) = Inl (FieldMissing ''wasm_hex'')
   \<and> handle_execute demo_libs demo_engine (JObject []) = Inl (CliFieldMissing ''wasm_hex'')"
proof -
  have "get_u64 demo_call ''satoshis'' = 0" "get_u64 (JObject []) ''satoshis'' = 0"
    by (simp_all add: get_u64_def demo_call_def)
  moreover have "do_execute demo_libs demo_engine (JObject []) = Inl (FieldMissing ''wasm_hex'')"
    by (simp add: do_execute_def get_str_def json_get_str_def)
  ultimately show ?thesis
    using front_ends_agree [of demo_libs demo_engine demo_call] front_ends_agree [of demo_libs demo_engine "JObject []"] by simp
qed

text \<open>
  The command line drops the satoshis of a call: a contract that asks for its value sees 0
  whatever the request says, and the value that the C interface passes otherwise.
\<close>

lemma cli_ignores_satoshis:
  "handle_execute L E (JObject (tbl_insert ''satoshis'' v kvs)) = handle_execute L E (JObject kvs)"
proof -
  have "json_get (JObject (tbl_insert ''satoshis'' v kvs)) key = json_get (JObject kvs) key" if "key \<noteq> ''satoshis''" for key
    using that tbl_get_insert [of "''satoshis''" v kvs] by (simp add: tbl_get_def)
  then show ?thesis
    by (simp add: json_get_str_def get_u64_def handle_execute_def cli_str_def get_str_or_def cli_hex_field_def seal_from_json_def)
qed

text \<open>
  As serde_json escapes the NUL character, every entry point returns a string and never a null
  pointer, also when its closure panics.
\<close>

lemma ffi_answers:
  assumes "\<And>j. 0 \<notin> set (json_to_vec L j)"
  shows "run_ffi L text req f = Some (json_to_vec L (ffi_response text (catch_unwind
       (case json_from_slice L req of None \<Rightarrow> Ret (Inl InvalidRequestJson) | Some j \<Rightarrow> f j))))"
    and "utxovm_verify L text E v decode b \<noteq> None" "utxovm_code_hash L text b \<noteq> None"
    "utxovm_runtime_version L text v \<noteq> None"
  using assms by (simp_all add: run_ffi_def to_c_json_def utxovm_verify_def utxovm_code_hash_def
      utxovm_runtime_version_def)

end
