(* ===== verification/Node.thy ===== *)
theory Node
  imports Rpc Electrs Fraud_Watch
begin

text \<open>
  The daemon of packages/node/src/main.rs: its start, and its tasks as one machine whose inputs are
  the events that wake a task (a p2p input, a queued attestation or mempool message, a tick of the
  sync loop, the fraud watch, an HTTP request). Tasks interleave at these steps; a panic of a task
  ends the run. The theorems say what holds of the node as a whole.
\<close>

section \<open>The start\<close>

record cli =
  cli_chain :: string
  cli_electrs_url :: "string option"
  cli_validator_key :: "string option"
  cli_quorum :: nat
  cli_start_height :: "u64 option"
  cli_min_execution_fee :: u64
  cli_fee_collector :: "string option"
  cli_rate_limit_rps :: u64
  cli_channel_size :: nat
  cli_bridge_api_key :: "string option"
  cli_bonding_enabled :: bool
  cli_jkc_rpc_url :: "string option"
  cli_trusted_proxy_ips :: "string list"
  cli_fraud_watch_vault_config :: "string option"
  cli_fraud_watch_bond_txid :: "string option"
  cli_fraud_watch_bond_vout :: "u32 option"
  cli_fraud_watch_bond_amount :: "u64 option"
  cli_fraud_watch_miner_fee :: u64

datatype start_error =
    NoRpcUrl
  | SoftforkQueryFailed
  | ChainUnsupported l1_error
  | VaultConfigUnreadable
  | VaultConfigJson
  | VaultConfigHex string
  | NoBondTxid
  | NoBondVout
  | NoBondAmount
  | ElectrsRefused electrs_error

text \<open>
  What surrounds the process: str::to_uppercase, environment variables, the answer to a JSON request
  that is posted with a user and a password (its status and its body, if that is JSON), files,
  serde's reading of the vault file, and the signer of a secret key (None if the key does not parse).
\<close>

record host =
  host_to_uppercase :: "string \<Rightarrow> string"
  host_env :: "string \<Rightarrow> string option"
  host_post :: "string \<Rightarrow> (string \<times> string) option \<Rightarrow> json \<Rightarrow> (nat \<times> json option) option"
  host_read_file :: "string \<Rightarrow> string option"
  host_vault_json :: "string \<Rightarrow> fraud_watch_vault_config_json option"
  host_signer :: "string \<Rightarrow> (bytes \<times> (bytes \<Rightarrow> bytes)) option"

definition default_electrs_url :: "string \<Rightarrow> string" where
  "default_electrs_url chain_upper =
     (if chain_upper = ''JKC'' \<or> chain_upper = ''JKC_MAINNET'' then ''https://junk-api.s3na.xyz''
      else if chain_upper = ''JKC_TESTNET'' \<or> chain_upper = ''TESTNET'' then ''https://jkc-testnet-api.s3na.xyz''
      else if chain_upper = ''DOGE'' \<or> chain_upper = ''DOGE_MAINNET'' then ''https://doge-api.s3na.xyz''
      else if chain_upper = ''LTC'' \<or> chain_upper = ''LTC_MAINNET'' then ''https://ltc-api.s3na.xyz''
      else if chain_upper = ''BTC'' \<or> chain_upper = ''BTC_MAINNET'' then ''https://btc-api.s3na.xyz''
      else if chain_upper = ''PEP'' \<or> chain_upper = ''PEP_MAINNET'' then ''https://pepe-api.s3na.xyz''
      else if chain_upper = ''LKY'' \<or> chain_upper = ''LKY_MAINNET'' then ''https://lky-api.s3na.xyz''
      else if chain_upper = ''BEL'' \<or> chain_upper = ''BEL_MAINNET'' then ''https://bel-api.s3na.xyz''
      else ''https://jkc-testnet-api.s3na.xyz'')"

definition electrs_url :: "host \<Rightarrow> cli \<Rightarrow> string" where
  "electrs_url H c = or_default (default_electrs_url (host_to_uppercase H (cli_chain c))) (cli_electrs_url c)"

definition softfork_request :: json where
  "softfork_request =
     JObject [(''id'', JString ''utxo-vm-startup''), (''jsonrpc'', JString ''1.0''), (''method'', JString ''getblockchaininfo''),
       (''params'', JArray [])]"

definition query_softfork_status :: "host \<Rightarrow> string \<Rightarrow> softfork_status option" where
  "query_softfork_status H rpc_url =
     (let user = or_default [] (host_env H ''JKC_RPC_USER'');
          pass = or_default [] (host_env H ''JKC_RPC_PASS'');
          auth = (if user \<noteq> [] then Some (user, pass) else None)
      in case host_post H rpc_url auth softfork_request of
           None \<Rightarrow> None
         | Some (status, body) \<Rightarrow>
             if 400 \<le> status \<and> status < 600 then None else map_option read_softfork_status body)"

definition check_bonding :: "host \<Rightarrow> cli \<Rightarrow> start_error + unit" where
  "check_bonding H c =
     (if \<not> cli_bonding_enabled c then Inr ()
      else case cli_jkc_rpc_url c of
        None \<Rightarrow> Inl NoRpcUrl
      | Some rpc_url \<Rightarrow>
          (case query_softfork_status H rpc_url of
             None \<Rightarrow> Inl SoftforkQueryFailed
           | Some status \<Rightarrow>
               (case assert_chain_supports_bonding status of
                  Inl e \<Rightarrow> Inl (ChainUnsupported e)
                | Inr _ \<Rightarrow> Inr ())))"

definition load_fraud_watch_config :: "libs \<Rightarrow> host \<Rightarrow> cli \<Rightarrow> start_error + fraud_watch_config option" where
  "load_fraud_watch_config L H c =
     (case cli_fraud_watch_vault_config c of
        None \<Rightarrow> Inr None
      | Some vault_path \<Rightarrow>
     (case host_read_file H vault_path of
        None \<Rightarrow> Inl VaultConfigUnreadable
      | Some vault_json \<Rightarrow>
     (case host_vault_json H vault_json of
        None \<Rightarrow> Inl VaultConfigJson
      | Some parsed \<Rightarrow>
     (case to_vault_config L parsed of
        Inl e \<Rightarrow> Inl (VaultConfigHex e)
      | Inr vault_config \<Rightarrow>
     (case cli_fraud_watch_bond_txid c of
        None \<Rightarrow> Inl NoBondTxid
      | Some bond_txid \<Rightarrow>
     (case cli_fraud_watch_bond_vout c of
        None \<Rightarrow> Inl NoBondVout
      | Some bond_vout \<Rightarrow>
     (case cli_fraud_watch_bond_amount c of
        None \<Rightarrow> Inl NoBondAmount
      | Some bond_amount \<Rightarrow>
          Inr (Some \<lparr>fw_vault_config = vault_config,
                     fw_bond_input = \<lparr>ci_bond_txid = bond_txid, ci_bond_vout = bond_vout, ci_bond_amount = bond_amount\<rparr>,
                     fw_miner_fee = cli_fraud_watch_miner_fee c\<rparr>))))))))"

text \<open>What the tasks were given, and what they share or hand to each other.\<close>

record node_config =
  nc_app :: app_config
  nc_rate_limit :: u64
  nc_sync :: sync_config
  nc_processor :: block_processor
  nc_fraud_watch :: "fraud_watch_config option"
  nc_channel_size :: nat

record node =
  nd_app :: app_state
  nd_windows :: rate_windows
  nd_p2p :: p2p_state
  nd_attestations :: "attestation list"
  nd_mempool :: "bytes list"
  nd_fraud :: "attestation list"

definition node_start :: "libs \<Rightarrow> web \<Rightarrow> host \<Rightarrow> cli \<Rightarrow> store \<Rightarrow> start_error + node_config \<times> node" where
  "node_start L W H c disk =
     (case check_bonding H c of
        Inl e \<Rightarrow> Inl e
      | Inr _ \<Rightarrow>
     (let st = store_open L disk in
      case load_fraud_watch_config L H c of
        Inl e \<Rightarrow> Inl e
      | Inr fraud_watch_cfg \<Rightarrow>
     (case with_timeout W (electrs_url H c) of
        Inl e \<Rightarrow> Inl (ElectrsRefused e)
      | Inr base \<Rightarrow>
          Inr (\<lparr>nc_app = \<lparr>app_chain = cli_chain c, app_electrs_url = electrs_url H c,
                  app_bridge_api_key = cli_bridge_api_key c, app_trusted_proxy_ips = cli_trusted_proxy_ips c\<rparr>,
                nc_rate_limit = cli_rate_limit_rps c,
                nc_sync = \<lparr>sy_chain = cli_chain c, sy_start_height = cli_start_height c,
                  sy_signer = Option.bind (cli_validator_key c) (host_signer H)\<rparr>,
                nc_processor = \<lparr>bp_chain = cli_chain c, bp_min_execution_fee = cli_min_execution_fee c,
                  bp_fee_collector = cli_fee_collector c\<rparr>,
                nc_fraud_watch = fraud_watch_cfg, nc_channel_size = cli_channel_size c\<rparr>,
               \<lparr>nd_app = \<lparr>app_bridge = bridge_new st, app_consensus = cm_new (cli_quorum c), app_relay = []\<rparr>,
                nd_windows = [], nd_p2p = p2p_start, nd_attestations = [], nd_mempool = [], nd_fraud = []\<rparr>))))"

section \<open>The tasks\<close>

datatype node_input =
    P2pInput p2p_input
  | AttestationTask i64
  | MempoolTask i64
  | SyncTick explorer i64
  | FraudTrigger i64
  | FraudSweep i64
  | HttpRequest surroundings nat "string option" headers rpc_request

datatype node_output =
    P2pEffects "p2p_effect list"
  | HttpReply "rpc_error + rpc_reply" "p2p_request list"
  | FraudActions "fraud_action list"
  | Accepted bool
  | Idle

definition set_consensus :: "consensus \<Rightarrow> node \<Rightarrow> node" where
  "set_consensus cm n = n\<lparr>nd_app := (nd_app n)\<lparr>app_consensus := cm\<rparr>\<rparr>"

definition set_node_store :: "store \<Rightarrow> node \<Rightarrow> node" where
  "set_node_store s n = n\<lparr>nd_app := set_store s (nd_app n)\<rparr>"

text \<open>What the event loop hands to the channels of the two listeners.\<close>

definition handed_attestations :: "p2p_effect list \<Rightarrow> attestation list" where
  "handed_attestations es = concat (map (\<lambda>e. case e of ToAttestations a \<Rightarrow> [a] | _ \<Rightarrow> []) es)"

definition handed_mempool :: "p2p_effect list \<Rightarrow> bytes list" where
  "handed_mempool es = concat (map (\<lambda>e. case e of ToMempool d \<Rightarrow> [d] | _ \<Rightarrow> []) es)"

definition p2p_task :: "libs \<Rightarrow> network \<Rightarrow> p2p_input \<Rightarrow> node \<Rightarrow> node_output \<times> node" where
  "p2p_task L N i n =
     (let (es, p) = p2p_step L N i (nd_p2p n)
      in (P2pEffects es, n\<lparr>nd_p2p := p, nd_attestations := nd_attestations n @ handed_attestations es,
                          nd_mempool := nd_mempool n @ handed_mempool es\<rparr>))"

text \<open>try_send drops the event when the channel of the fraud watch is full.\<close>

definition attestation_task :: "libs \<Rightarrow> node_config \<Rightarrow> i64 \<Rightarrow> node \<Rightarrow> node_output \<times> node" where
  "attestation_task L cfg now n =
     (case nd_attestations n of
        [] \<Rightarrow> (Idle, n)
      | a # queue \<Rightarrow>
          (let (accepted, cm) = add_attestation L now a (app_consensus (nd_app n));
               fraud = (if accepted \<and> length (nd_fraud n) < nc_channel_size cfg then nd_fraud n @ [a] else nd_fraud n)
           in (Accepted accepted, (set_consensus cm n)\<lparr>nd_attestations := queue, nd_fraud := fraud\<rparr>)))"

definition mempool_task :: "libs \<Rightarrow> 'g engine \<Rightarrow> web \<Rightarrow> node_config \<Rightarrow> i64 \<Rightarrow> node \<Rightarrow> (node_output \<times> node) rust" where
  "mempool_task L E W cfg now n =
     (case nd_mempool n of
        [] \<Rightarrow> Ret (Idle, n)
      | d # queue \<Rightarrow>
          (let n1 = n\<lparr>nd_mempool := queue\<rparr> in
           case tx_from_slice W d of
             None \<Rightarrow> Ret (Idle, n1)
           | Some tx \<Rightarrow>
               rbind (mempool_tx L E (nc_processor cfg) now tx (app_store (nd_app n)))
                 (\<lambda>(_, s). Ret (Idle, set_node_store s n1))))"

definition sync_task :: "libs \<Rightarrow> 'g engine \<Rightarrow> node_config \<Rightarrow> explorer \<Rightarrow> i64 \<Rightarrow> node \<Rightarrow> (node_output \<times> node) rust" where
  "sync_task L E cfg ex now n =
     rbind (sync_tick L E (nc_processor cfg) (nc_sync cfg) ex now (app_store (nd_app n), app_consensus (nd_app n)))
       (\<lambda>(s, cm). Ret (Idle, set_consensus cm (set_node_store s n)))"

definition fraud_task :: "libs \<Rightarrow> node_config \<Rightarrow> i64 \<Rightarrow> node \<Rightarrow> node_output \<times> node" where
  "fraud_task L cfg now n =
     (case nd_fraud n of
        [] \<Rightarrow> (Idle, n)
      | a # queue \<Rightarrow>
          (FraudActions (run_fraud_watch_pass L now (nc_fraud_watch cfg) (Some a) (app_consensus (nd_app n))),
           n\<lparr>nd_fraud := queue\<rparr>))"

definition http_task :: "libs \<Rightarrow> node_config \<Rightarrow> surroundings \<Rightarrow> nat \<Rightarrow> string option \<Rightarrow> headers \<Rightarrow> rpc_request
    \<Rightarrow> node \<Rightarrow> node_output \<times> node" where
  "http_task L cfg ev instant peer hs req n =
     (let (r, out, ws, s) = rate_limit_middleware L (nc_app cfg) (nc_rate_limit cfg) ev instant peer hs req
            (nd_windows n, nd_app n)
      in (HttpReply r out, n\<lparr>nd_app := s, nd_windows := ws\<rparr>))"

fun node_step :: "libs \<Rightarrow> 'g engine \<Rightarrow> web \<Rightarrow> network \<Rightarrow> node_config \<Rightarrow> node_input \<Rightarrow> node \<Rightarrow> (node_output \<times> node) rust" where
  "node_step L E W N cfg (P2pInput i) n = Ret (p2p_task L N i n)"
| "node_step L E W N cfg (AttestationTask now) n = Ret (attestation_task L cfg now n)"
| "node_step L E W N cfg (MempoolTask now) n = mempool_task L E W cfg now n"
| "node_step L E W N cfg (SyncTick ex now) n = sync_task L E cfg ex now n"
| "node_step L E W N cfg (FraudTrigger now) n = Ret (fraud_task L cfg now n)"
| "node_step L E W N cfg (FraudSweep now) n =
     Ret (FraudActions (run_fraud_watch_pass L now (nc_fraud_watch cfg) None (app_consensus (nd_app n))), n)"
| "node_step L E W N cfg (HttpRequest ev instant peer hs req) n = Ret (http_task L cfg ev instant peer hs req n)"

fun node_run :: "libs \<Rightarrow> 'g engine \<Rightarrow> web \<Rightarrow> network \<Rightarrow> node_config \<Rightarrow> node_input list \<Rightarrow> node
    \<Rightarrow> (node_output list \<times> node) rust" where
  "node_run L E W N cfg [] n = Ret ([], n)"
| "node_run L E W N cfg (i # is) n =
     rbind (node_step L E W N cfg i n) (\<lambda>(out, n1).
     rbind (node_run L E W N cfg is n1) (\<lambda>(outs, n2). Ret (out # outs, n2)))"

section \<open>What a step does to the parts of the state\<close>

text \<open>The attestation pool changes by add_attestation only, from the p2p layer or by the sync loop.\<close>

locale attestation_kept =
  fixes L :: libs and P :: "consensus \<Rightarrow> bool"
  assumes kept_add: "P cm \<Longrightarrow> P (snd (add_attestation L now a cm))"
begin

lemma sync_block_attests: "sync_block L E bp cfg ex now h (s, cm) = Ret (s', cm') \<Longrightarrow> P cm \<Longrightarrow> P cm'"
  unfolding sync_block_def Let_def prod.case attest_block_def
  by (auto simp: rbind_Ret_iff case_prod_beta kept_add split: option.splits)

lemma sync_blocks_attest: "sync_blocks L E bp cfg ex now hs (s, cm) = Ret (s', cm') \<Longrightarrow> P cm \<Longrightarrow> P cm'"
proof (induction hs arbitrary: s cm)
  case (Cons h hs)
  then obtain s1 cm1 where "sync_block L E bp cfg ex now h (s, cm) = Ret (s1, cm1)"
    "sync_blocks L E bp cfg ex now hs (s1, cm1) = Ret (s', cm')" by (auto simp: rbind_Ret_iff)
  then show ?case using Cons sync_block_attests by blast
qed simp

lemma sync_tick_attests: "sync_tick L E bp cfg ex now (s, cm) = Ret (s', cm') \<Longrightarrow> P cm \<Longrightarrow> P cm'"
  by (auto simp: sync_tick_def split: option.splits if_splits dest: sync_blocks_attest)

end

interpretation pool: attestation_kept L "consensus_ok L" for L
  by unfold_locales (rule consensus_ok_add)

lemma same_node_cases:
  assumes "same_node s s'"
  obtains t where "app_consensus s' = app_consensus s"
    "app_bridge s' = (app_bridge s)\<lparr>br_store := (app_store s)\<lparr>st_smt := t\<rparr>\<rparr>"
  using assms unfolding same_node_def by blast

text \<open>A request runs at most one operation of the bridge, or leaves the node as it is.\<close>

lemma route_effect:
  obtains (same) "same_node s (snd (snd (route L cfg ev hs req s)))"
  | (bridge) op where "snd (snd (route L cfg ev hs req s)) = s\<lparr>app_bridge := snd (bridge_step L op (app_bridge s))\<rparr>"
proof (cases "bridge_request req \<and> authorised L cfg hs")
  case False
  have "same_node s (snd (snd (route L cfg ev hs req s)))"
  proof (cases "bridge_request req")
    case True
    then obtain e where "route L cfg ev hs req s = (Inl e, [], s)" using False refused_write by blast
    then show ?thesis by simp
  qed (rule other_requests_same_node)
  then show thesis by (rule same)
next
  case True
  then have auth: "verify_bridge_auth L hs (app_bridge_api_key cfg) = Inr ()" by (simp add: verify_bridge_auth_iff)
  from True consider r where "req = LockAssets r" | i pr where "req = MintFromProof i pr" | i c g where "req = CancelTransfer i c g"
    by (cases req) (auto simp: bridge_request_def)
  then show thesis
  proof cases
    case (1 r)
    then show thesis using auth
      by (intro bridge [of "LockOp (env_now ev) (lkr_source_chain r) (lkr_object_id r) (lkr_dest_chain r) (lkr_dest_owner r)
          (lkr_caller_pubkey r) (lkr_signature r)"])
        (simp add: rpc_lock_assets_def answer_def set_bridge_def split: prod.split sum.split)
  next
    case (2 i pr)
    then show thesis using auth
      by (intro bridge [of "MintOp (app_consensus s) (env_now ev) i pr"])
        (simp add: rpc_mint_from_proof_def answer_def set_bridge_def split: prod.split sum.split)
  next
    case (3 i c g)
    then show thesis using auth
      by (intro bridge [of "CancelOp (env_now ev) i c g"])
        (simp add: rpc_cancel_transfer_def answer_def set_bridge_def split: prod.split sum.split)
  qed
qed

lemma route_consensus: "app_consensus (snd (snd (route L cfg ev hs req s))) = app_consensus s"
  by (rule route_effect [of s L cfg ev hs req]) (simp_all add: same_node_def)

lemma same_node_coherent: "same_node s s' \<Longrightarrow> coherent (app_bridge s) \<Longrightarrow> coherent (app_bridge s')"
  by (erule same_node_cases) (simp add: coherent_def)

lemma route_coherent: "coherent (app_bridge s) \<Longrightarrow> coherent (app_bridge (snd (snd (route L cfg ev hs req s))))"
  by (rule route_effect [of s L cfg ev hs req]) (auto intro: same_node_coherent coherent_step)

lemma route_relays:
  assumes "relay_reachable L (app_relay s)"
  shows "relay_reachable L (app_relay (snd (snd (route L cfg ev hs req s))))"
proof (cases req)
  case (CreateRelay c h d)
  then show ?thesis using assms relay_reachable.relay [OF assms, of "env_now ev"]
    by (auto simp: create_relay_def answer_def split: sum.split prod.split) (metis snd_conv)
next
  case (VerifyRelay i)
  then show ?thesis using relay_reachable.check [OF assms, of "app_consensus s" "env_now ev" i]
    by (auto simp: rpc_verify_relay_def answer_def split: sum.split prod.split)
qed (use assms in \<open>auto simp: handler_defs set_store_def set_bridge_def Let_def case_prod_beta split: option.split sum.split\<close>)

text \<open>What the bridge's writes keep, and a change of the cached hashes too, is kept by every request.\<close>

locale request_kept = bridge_kept L P
  for L :: libs and P :: "store \<Rightarrow> bool" +
  assumes kept_tree: "P s \<Longrightarrow> P (s\<lparr>st_smt := t\<rparr>)"
begin

lemma route_kept: "P (app_store s) \<Longrightarrow> P (app_store (snd (snd (route L cfg ev hs req s))))"
proof (rule route_effect [of s L cfg ev hs req])
  assume "same_node s (snd (snd (route L cfg ev hs req s)))" "P (app_store s)"
  then show ?thesis using kept_tree by (auto elim: same_node_cases)
qed (auto intro: bridge_step_kept)

end

lemma chain_ok_cong:
  "(st_blocks s', st_chain_meta s') = (st_blocks s, st_chain_meta s) \<Longrightarrow> chain_ok c s' \<longleftrightarrow> chain_ok c s"
  by (simp add: chain_ok_def get_block_def get_last_sync_block_def)

interpretation chains: request_kept L "chain_ok c" for L c
proof unfold_locales
  show "chain_ok c (save_object L ob s)" if "chain_ok c s" for L ob s c
    using that chain_ok_cong [OF block_writes.kept_object [OF refl]] by blast
qed (simp_all add: chain_ok_def get_block_def get_last_sync_block_def save_bridge_transfer_def)

interpretation contents: request_kept L "content_ok L" for L
  by unfold_locales (auto simp: content_ok_def wasm_ok_def save_bridge_transfer_def)

section \<open>Invariants of the node\<close>

locale node_invariant =
  fixes L :: libs and E :: "'g engine" and W :: web and N :: network and cfg :: node_config
    and inv :: "node \<Rightarrow> bool" and output_ok :: "node_output \<Rightarrow> bool"
  assumes step_ok: "inv n \<Longrightarrow> node_step L E W N cfg i n = Ret (out, n') \<Longrightarrow> inv n' \<and> output_ok out"
begin

lemma run_ok:
  "inv n \<Longrightarrow> node_run L E W N cfg is n = Ret (outs, n') \<Longrightarrow> inv n' \<and> (\<forall>out \<in> set outs. output_ok out)"
proof (induction "is" arbitrary: n outs)
  case (Cons i js)
  from Cons.prems(2) obtain out n1 outs1 where "node_step L E W N cfg i n = Ret (out, n1)"
    "node_run L E W N cfg js n1 = Ret (outs1, n')" "outs = out # outs1" by (auto simp: rbind_Ret_iff)
  then show ?case using Cons step_ok by (metis set_ConsD)
qed simp

end

text \<open>The parts of the state that a step may change, by the task that it wakes.\<close>

lemma mempool_task_cases:
  assumes "mempool_task L E W cfg now n = Ret (out, n')"
  obtains (that_all) s q where "out = Idle" "n' = set_node_store s (n\<lparr>nd_mempool := q\<rparr>)"
    "s = app_store (nd_app n) \<or> (\<exists>tx r. process_tx L E (nc_processor cfg) now tx 0 (app_store (nd_app n)) = Ret (r, s))"
proof -
  have same: "n1 = set_node_store (app_store (nd_app n1)) n1" for n1
    by (simp add: set_node_store_def set_store_def)
  have idle: thesis if "out = Idle" "n' = n\<lparr>nd_mempool := q\<rparr>" for q
    using that same [of "n\<lparr>nd_mempool := q\<rparr>"] by (intro that_all [of "app_store (nd_app n)" q]) simp_all
  show thesis
  proof (cases "nd_mempool n")
    case Nil
    then show thesis using assms by (intro idle [of "nd_mempool n"]) (simp_all add: mempool_task_def)
  next
    case (Cons d q)
    show thesis
    proof (cases "tx_from_slice W d")
      case None
      then show thesis using assms Cons by (intro idle [of q]) (simp_all add: mempool_task_def)
    next
      case (Some tx)
      then obtain r s where "process_tx L E (nc_processor cfg) now tx 0 (app_store (nd_app n)) = Ret (r, s)"
        "out = Idle" "n' = set_node_store s (n\<lparr>nd_mempool := q\<rparr>)"
        using assms Cons by (auto simp: mempool_task_def mempool_tx_def rbind_Ret_iff)
      then show thesis by (intro that_all [of s q]) auto
    qed
  qed
qed

lemma node_step_cases:
  assumes "node_step L E W N cfg i n = Ret (out, n')"
  obtains (p2p) e where "i = P2pInput e" "(out, n') = p2p_task L N e n"
  | (attestation) now where "i = AttestationTask now" "(out, n') = attestation_task L cfg now n"
  | (mempool) s q where "out = Idle" "n' = set_node_store s (n\<lparr>nd_mempool := q\<rparr>)"
      "s = app_store (nd_app n) \<or> (\<exists>now tx r. process_tx L E (nc_processor cfg) now tx 0 (app_store (nd_app n)) = Ret (r, s))"
  | (sync) ex now s cm where "i = SyncTick ex now" "out = Idle" "n' = set_consensus cm (set_node_store s n)"
      "sync_tick L E (nc_processor cfg) (nc_sync cfg) ex now (app_store (nd_app n), app_consensus (nd_app n)) = Ret (s, cm)"
  | (fraud) trigger now q where "out = FraudActions (run_fraud_watch_pass L now (nc_fraud_watch cfg) trigger (app_consensus (nd_app n)))
        \<or> out = Idle" "n' = n\<lparr>nd_fraud := q\<rparr>" "set q \<subseteq> set (nd_fraud n)"
      "trigger = None \<or> (\<exists>a \<in> set (nd_fraud n). trigger = Some a)"
  | (http) ev instant peer hs req where "i = HttpRequest ev instant peer hs req"
      "(out, n') = http_task L cfg ev instant peer hs req n"
proof (cases i)
  case (MempoolTask now)
  with assms have "mempool_task L E W cfg now n = Ret (out, n')" by simp
  then obtain s q where "out = Idle" "n' = set_node_store s (n\<lparr>nd_mempool := q\<rparr>)"
    "s = app_store (nd_app n) \<or> (\<exists>tx r. process_tx L E (nc_processor cfg) now tx 0 (app_store (nd_app n)) = Ret (r, s))"
    by (rule mempool_task_cases)
  then show thesis by (intro mempool [of s q]) blast+
next
  case (FraudTrigger now)
  show thesis
  proof (cases "nd_fraud n")
    case Nil
    then show thesis using assms FraudTrigger by (intro fraud [of now None "nd_fraud n"]) (simp_all add: fraud_task_def)
  next
    case (Cons a q)
    then show thesis using assms FraudTrigger
      by (intro fraud [of now "Some a" q]) (auto simp: fraud_task_def)
  qed
next
  case (FraudSweep now)
  then show thesis using assms by (intro fraud [of now None "nd_fraud n"]) auto
next
  case (SyncTick ex now)
  then show thesis using assms sync by (auto simp: sync_task_def rbind_Ret_iff)
next
  case (HttpRequest ev instant peer hs req)
  then show thesis using assms by (intro http [of ev instant peer hs req]) simp_all
next
  case (P2pInput e)
  then show thesis using assms by (intro p2p [of e]) simp_all
next
  case (AttestationTask now)
  then show thesis using assms by (intro attestation [of now]) simp_all
qed

text \<open>
  The invariant: the attestation pool is sound, the bridge's caches follow the store, objects and
  contract code lie under their ids and hashes, the block table is consistent, relay records and
  rate windows are ones that their operations build, and so are the records of the p2p layer.
\<close>

definition node_ok :: "libs \<Rightarrow> node_config \<Rightarrow> node \<Rightarrow> bool" where
  "node_ok L cfg n \<longleftrightarrow> consensus_ok L (app_consensus (nd_app n)) \<and> coherent (app_bridge (nd_app n))
     \<and> content_ok L (app_store (nd_app n)) \<and> chain_ok (sy_chain (nc_sync cfg)) (app_store (nd_app n))
     \<and> relay_reachable L (app_relay (nd_app n)) \<and> windows_ok (nc_rate_limit cfg) (nd_windows n)
     \<and> addressed L (nd_p2p n)"

lemma coherent_other_store:
  "coherent b \<Longrightarrow> (st_bridge_transfers s, st_minted_proofs s) = (st_bridge_transfers (br_store b), st_minted_proofs (br_store b))
     \<Longrightarrow> coherent (b\<lparr>br_store := s\<rparr>)"
  by (simp add: coherent_def)

lemma node_store_parts [simp]:
  "app_consensus (nd_app (set_node_store s n)) = app_consensus (nd_app n)"
  "app_bridge (nd_app (set_node_store s n)) = (app_bridge (nd_app n))\<lparr>br_store := s\<rparr>"
  "app_relay (nd_app (set_node_store s n)) = app_relay (nd_app n)"
  "nd_windows (set_node_store s n) = nd_windows n" "nd_p2p (set_node_store s n) = nd_p2p n"
  "nd_fraud (set_node_store s n) = nd_fraud n"
  "app_consensus (nd_app (set_consensus cm n)) = cm"
  "app_bridge (nd_app (set_consensus cm n)) = app_bridge (nd_app n)"
  "app_relay (nd_app (set_consensus cm n)) = app_relay (nd_app n)"
  "nd_windows (set_consensus cm n) = nd_windows n" "nd_p2p (set_consensus cm n) = nd_p2p n"
  "nd_fraud (set_consensus cm n) = nd_fraud n"
  by (simp_all add: set_node_store_def set_store_def set_consensus_def)

definition output_ok :: "libs \<Rightarrow> network \<Rightarrow> node_output \<Rightarrow> bool" where
  "output_ok L N out \<longleftrightarrow> (case out of
      P2pEffects es \<Rightarrow> published_ok L N es
    | HttpReply r _ \<Rightarrow> (\<forall>h x. r = Inr (ContractCode h x) \<longrightarrow> (\<exists>w. x = hex_encode L w \<and> h = hex_encode L (sha256 L w)))
        \<and> (\<forall>rec. r = Inr (RelayReply rec) \<and> rr_status rec = RelayVerified \<longrightarrow> (\<exists>m. root_backed L (rr_message rec) m))
    | _ \<Rightarrow> True)"

lemma served_relay:
  assumes "fst (route L cfg ev hs req s) = Inr (RelayReply rec)"
  shows "(\<exists>i. req = VerifyRelay i \<and> tbl_get (app_relay (snd (snd (route L cfg ev hs req s)))) i = Some rec)
    \<or> (\<exists>c. req = GetLatestRelay c \<and> get_latest_relay (app_relay s) c = Some rec)"
  using assms
  by (cases req) (auto simp: handler_defs verify_relay_def Let_def case_prod_beta split: option.splits sum.splits if_splits)

lemma max_by_in: "max_by le xs = Some m \<Longrightarrow> m \<in> set xs"
proof (cases xs)
  case (Cons y ys)
  have "foldl (\<lambda>m y. if le m y then y else m) y ys \<in> set (y # ys)" for y ys
  proof (induction ys arbitrary: y)
    case (Cons a ys)
    show ?case using Cons [of "if le y a then a else y"] by (auto split: if_splits)
  qed simp
  then show "max_by le xs = Some m \<Longrightarrow> ?thesis" using Cons by auto
qed simp

lemma latest_relay_there:
  assumes "tbl_ok rs" "get_latest_relay rs c = Some rec"
  shows "\<exists>i. tbl_get rs i = Some rec"
proof -
  have "rec \<in> set (map snd rs)" using max_by_in [OF assms(2) [unfolded get_latest_relay_def]] by simp
  then show ?thesis using tbl_ok_get [OF assms(1)] by auto blast
qed

lemma node_ok_http:
  assumes ok: "node_ok L cfg n" and t: "http_task L cfg ev instant peer hs req n = (out, n')"
  shows "node_ok L cfg n' \<and> output_ok L N out"
proof -
  obtain pass ws where w: "rate_check (nc_rate_limit cfg) (client_key (nc_app cfg) peer hs, instant) (nd_windows n) = (pass, ws)"
    by fastforce
  then have ws: "windows_ok (nc_rate_limit cfg) ws"
    using ok windows_ok_step [of "nc_rate_limit cfg" "nd_windows n" "(client_key (nc_app cfg) peer hs, instant)"]
    by (simp add: node_ok_def)
  show ?thesis
  proof (cases pass)
    case False
    then show ?thesis using t w ok ws by (auto simp: http_task_def rate_limit_middleware_def node_ok_def output_ok_def)
  next
    case True
    let ?r = "route L (nc_app cfg) ev hs req (nd_app n)"
    let ?s = "snd (snd ?r)"
    have n': "n' = n\<lparr>nd_app := ?s, nd_windows := ws\<rparr>" "out = HttpReply (fst ?r) (fst (snd ?r))"
      using t w True by (auto simp: http_task_def rate_limit_middleware_def case_prod_beta)
    have relays: "relay_reachable L (app_relay ?s)" using ok by (auto simp: node_ok_def intro: route_relays)
    have "\<exists>m. root_backed L (rr_message rec) m" if r: "fst ?r = Inr (RelayReply rec)" "rr_status rec = RelayVerified" for rec
    proof -
      have "relay_reachable L (app_relay (nd_app n))" using ok by (simp add: node_ok_def)
      then obtain i rs where "relay_reachable L rs" "tbl_get rs i = Some rec"
        using relays served_relay [OF r(1)] latest_relay_there reachable_ok by blast
      then show ?thesis using reachable_ok r(2) by (auto simp: record_ok_def)
    qed
    then have "output_ok L N out" using served_contract by (auto simp: output_ok_def n'(2))
    moreover have "node_ok L cfg n'"
      using ok relays ws route_coherent contents.route_kept chains.route_kept
      by (simp add: node_ok_def n'(1) route_consensus)
    ultimately show ?thesis by blast
  qed
qed

lemma node_ok_step:
  assumes ok: "node_ok L cfg n" and step: "node_step L E W N cfg i n = Ret (out, n')"
  shows "node_ok L cfg n' \<and> output_ok L N out"
  using step
proof (cases rule: node_step_cases)
  case (p2p e)
  then show ?thesis using ok addressed_step [of L "nd_p2p n" N e] published_step [of L N e "nd_p2p n"]
    by (auto simp: p2p_task_def node_ok_def output_ok_def case_prod_beta)
next
  case (attestation now)
  then show ?thesis using ok pool.kept_add
    by (cases "nd_attestations n") (auto simp: attestation_task_def node_ok_def output_ok_def case_prod_beta Let_def)
next
  case (mempool s q)
  have "coherent ((app_bridge (nd_app n))\<lparr>br_store := s\<rparr>) \<and> content_ok L s \<and> chain_ok (sy_chain (nc_sync cfg)) s"
    using mempool(3)
  proof
    assume "\<exists>now tx r. process_tx L E (nc_processor cfg) now tx 0 (app_store (nd_app n)) = Ret (r, s)"
    then obtain now tx r where p: "process_tx L E (nc_processor cfg) now tx 0 (app_store (nd_app n)) = Ret (r, s)" by blast
    show ?thesis
      using ok coherent_other_store bridge_tables.process_tx_kept [OF p refl] contents.process_tx_kept [OF p]
        chain_ok_cong [OF block_tables.process_tx_kept [OF p refl]] by (simp add: node_ok_def)
  qed (use ok in \<open>simp add: node_ok_def\<close>)
  then show ?thesis using ok mempool(1,2) by (simp add: node_ok_def output_ok_def)
next
  case (sync ex now s cm)
  then show ?thesis
    using ok coherent_other_store bridge_tables.sync_tick_kept [OF sync(4) refl] contents.sync_tick_kept [OF sync(4)]
      chain_ok_tick [OF _ sync(4)] pool.sync_tick_attests [OF sync(4)]
    by (simp add: node_ok_def output_ok_def)
next
  case (fraud trigger now q)
  then show ?thesis using ok by (auto simp: node_ok_def output_ok_def)
next
  case (http ev instant peer hs req)
  then show ?thesis using node_ok_http [OF ok] by metis
qed

interpretation sound_node: node_invariant L E W N cfg "node_ok L cfg" "output_ok L N" for L E W N cfg
  by unfold_locales (rule node_ok_step)

text \<open>What the database of a node has to hold when it starts, and holds at every later moment.\<close>

definition disk_ok :: "libs \<Rightarrow> string \<Rightarrow> store \<Rightarrow> bool" where
  "disk_ok L chain s \<longleftrightarrow> content_ok L s \<and> chain_ok chain s
     \<and> tbl_ok (st_bridge_transfers s) \<and> tbl_ok (st_minted_proofs s)
     \<and> (\<forall>tid t. tbl_get (st_bridge_transfers s) tid = Some t \<longrightarrow> bt_id t = tid)"

lemma disk_ok_empty: "disk_ok L chain (empty_store L)"
  by (simp add: disk_ok_def content_ok_def keyed_def wasm_ok_def chain_ok_empty) (simp add: empty_store_def)

lemma node_start_parts:
  assumes "node_start L W H c disk = Inr (cfg, n)"
  shows "sy_chain (nc_sync cfg) = cli_chain c"
    "nd_app n = \<lparr>app_bridge = bridge_new (store_open L disk), app_consensus = cm_new (cli_quorum c), app_relay = []\<rparr>"
    "nd_windows n = []" "nd_p2p n = p2p_start" "nd_fraud n = []" "nd_attestations n = []" "nd_mempool n = []"
  using assms by (auto simp: node_start_def Let_def split: sum.splits)

lemma node_ok_start:
  assumes "disk_ok L (cli_chain c) disk" "node_start L W H c disk = Inr (cfg, n)"
  shows "node_ok L cfg n"
proof -
  note s = node_start_parts [OF assms(2)]
  have "coherent (bridge_new (store_open L disk))"
    by (rule bridge_new_coherent(1)) (use assms(1) in \<open>simp_all add: disk_ok_def store_open_def\<close>)
  moreover have "chain_ok (cli_chain c) (store_open L disk)"
    using assms(1) chains.kept_tree by (auto simp: disk_ok_def store_open_def)
  moreover have "content_ok L (store_open L disk)"
    using assms(1) contents.kept_tree by (auto simp: disk_ok_def store_open_def)
  ultimately show ?thesis
    by (simp add: node_ok_def s consensus_ok_new relay_reachable.start windows_ok_def bridge_new_def)
qed

text \<open>
  C4. The node keeps its state sound. A node starts from a sound database, and its tasks, in any
  order, meet any peers, any explorer and any clients. Then the attestation pool holds only verified
  votes of known validators, one for each block; the database is sound again, so that the node can
  stop and start from it at any moment; the bridge's in-memory tables are those of the database;
  the p2p layer publishes contract code only under its hash, a client gets contract code only with
  the hash it asked for, and a relay that is reported as verified holds signatures over its root by
  distinct keys, two thirds of some number of validators (which number, says the theory Relay). As
  main registers no validator, the pool of a started node stays empty and no relay gets verified,
  so these two parts matter only for a node that knows validators.
\<close>

theorem node_keeps_ok:
  assumes disk: "disk_ok L (cli_chain c) disk" and start: "node_start L W H c disk = Inr (cfg, n0)"
    and run: "node_run L E W N cfg is n0 = Ret (outs, n)"
  shows "consensus_ok L (app_consensus (nd_app n)) \<and> disk_ok L (cli_chain c) (app_store (nd_app n))
    \<and> br_transfers (app_bridge (nd_app n)) = st_bridge_transfers (app_store (nd_app n))
    \<and> br_minted_objects (app_bridge (nd_app n)) = st_minted_proofs (app_store (nd_app n))
    \<and> (\<forall>es \<in> {es. P2pEffects es \<in> set outs}. published_ok L N es)
    \<and> (\<forall>(h, x) \<in> {(h, x). \<exists>reqs. HttpReply (Inr (ContractCode h x)) reqs \<in> set outs}.
         \<exists>w. x = hex_encode L w \<and> h = hex_encode L (sha256 L w))
    \<and> (\<forall>r \<in> {r. \<exists>reqs. HttpReply (Inr (RelayReply r)) reqs \<in> set outs \<and> rr_status r = RelayVerified}.
         \<exists>m. root_backed L (rr_message r) m)"
proof -
  have ok: "node_ok L cfg n" "\<forall>out \<in> set outs. output_ok L N out"
    using sound_node.run_ok [OF node_ok_start [OF disk start] run] by auto
  then have "disk_ok L (cli_chain c) (app_store (nd_app n))" "consensus_ok L (app_consensus (nd_app n))"
    "br_transfers (app_bridge (nd_app n)) = st_bridge_transfers (app_store (nd_app n))"
    "br_minted_objects (app_bridge (nd_app n)) = st_minted_proofs (app_store (nd_app n))"
    using node_start_parts(1) [OF start] by (auto simp: node_ok_def disk_ok_def coherent_def)
  then show ?thesis using ok(2) by (fastforce simp: output_ok_def)
qed

section \<open>A started node knows no validators\<close>

text \<open>
  The daemon makes a fresh ConsensusManager and never registers a validator with it, so that
  nothing that needs one can happen.
\<close>

interpretation silent: attestation_kept L "\<lambda>cm. cm = cm_new q" for L q
  by unfold_locales (simp add: add_attestation_def cm_new_def)

definition unverified :: "relay_records \<Rightarrow> bool" where
  "unverified rs \<longleftrightarrow> (\<forall>r \<in> snd ` set rs. rr_status r \<noteq> RelayVerified)"

definition deaf :: "nat \<Rightarrow> node \<Rightarrow> bool" where
  "deaf q n \<longleftrightarrow> app_consensus (nd_app n) = cm_new q \<and> nd_fraud n = []
     \<and> unverified (app_relay (nd_app n))"

definition deaf_output :: "node_output \<Rightarrow> bool" where
  "deaf_output out \<longleftrightarrow> (case out of
      Accepted b \<Rightarrow> \<not> b
    | FraudActions as \<Rightarrow> as = []
    | HttpReply r _ \<Rightarrow> (case r of
          Inr (MintedReply t) \<Rightarrow> False
        | Inr (RelayReply rec) \<Rightarrow> rr_status rec \<noteq> RelayVerified
        | Inr (StateRootAt c h bh root as quorum) \<Rightarrow> as = [] \<and> \<not> quorum
        | _ \<Rightarrow> True)
    | _ \<Rightarrow> True)"

lemma no_validators [simp]:
  "get_attestations (cm_new q) c h = []" "get_validator_count (cm_new q) = 0" "\<not> is_quorum_reached (cm_new q) c h r"
  "get_slashing_proofs (cm_new q) = []" "run_fraud_watch_pass L now fw None (cm_new q) = []"
  "\<not> vr_valid (cross_verify_proof L (cm_new q) pr)"
  by (simp_all add: cm_new_def get_attestations_def get_validator_count_def is_quorum_reached_def get_slashing_proofs_def
      run_fraud_watch_pass_def cross_verify_valid verify_quorum_def)

lemma unverified_insert:
  "unverified rs \<Longrightarrow> rr_status v \<noteq> RelayVerified \<Longrightarrow> unverified (tbl_insert k v rs)"
  by (induction k v rs rule: tbl_insert.induct) (auto simp: unverified_def)

lemma checked_unverified: "get_validator_count cm = 0 \<Longrightarrow> rr_status (checked_record L cm now r) \<noteq> RelayVerified"
  by (simp add: checked_record_def)

lemma deaf_relays:
  assumes "app_consensus s = cm_new q" "unverified (app_relay s)"
  shows "unverified (app_relay (snd (snd (route L cfg ev hs req s))))"
proof (cases req)
  case (CreateRelay c h d)
  then show ?thesis using assms(2)
    by (auto simp: create_relay_def relay_to_chain_def answer_def Let_def unverified_insert split: sum.split)
next
  case (VerifyRelay i)
  then show ?thesis using assms unverified_insert checked_unverified
    by (auto simp: rpc_verify_relay_def verify_relay_def answer_def split: option.split)
qed (use assms in \<open>auto simp: handler_defs set_store_def set_bridge_def Let_def case_prod_beta split: option.split sum.split\<close>)

lemma mint_needs_validators: "mint_from_proof L (cm_new q) now tid pr b \<noteq> (Inr t, b')"
  by (auto elim!: mint_success)

lemma deaf_reply:
  assumes "app_consensus s = cm_new q" "unverified (app_relay s)"
  shows "deaf_output (HttpReply (fst (route L cfg ev hs req s)) out)"
proof (cases req)
  case (MintFromProof i pr)
  then show ?thesis using assms(1) mint_needs_validators
    by (auto simp: deaf_output_def rpc_mint_from_proof_def answer_def split: sum.split prod.split)
next
  case (VerifyRelay i)
  then show ?thesis using assms checked_unverified
    by (auto simp: deaf_output_def rpc_verify_relay_def verify_relay_def answer_def split: option.split)
next
  case (GetLatestRelay c)
  then show ?thesis using assms(2)
    by (auto simp: deaf_output_def rpc_get_latest_relay_def get_latest_relay_def unverified_def answer_def
        split: option.split dest!: max_by_in)
qed (use assms in \<open>auto simp: deaf_output_def handler_defs Let_def case_prod_beta split: option.split sum.split\<close>)

lemma deaf_step:
  assumes ok: "deaf q n" and step: "node_step L E W N cfg i n = Ret (out, n')"
  shows "deaf q n' \<and> deaf_output out"
  using step
proof (cases rule: node_step_cases)
  case (p2p e)
  then show ?thesis using ok by (auto simp: p2p_task_def deaf_def deaf_output_def case_prod_beta)
next
  case (attestation now)
  then show ?thesis using ok
    by (cases "nd_attestations n")
      (auto simp: attestation_task_def deaf_def deaf_output_def case_prod_beta Let_def add_attestation_def cm_new_def)
next
  case (mempool s q)
  then show ?thesis using ok by (auto simp: deaf_def deaf_output_def)
next
  case (sync ex now s cm)
  then show ?thesis using ok silent.sync_tick_attests [OF sync(4)] by (auto simp: deaf_def deaf_output_def)
next
  case (fraud trigger now q')
  then show ?thesis using ok by (auto simp: deaf_def deaf_output_def)
next
  case (http ev instant peer hs req)
  have s: "app_consensus (nd_app n) = cm_new q" "unverified (app_relay (nd_app n))"
    using ok by (simp_all add: deaf_def)
  show ?thesis
    using http(2) ok deaf_reply [OF s, of L "nc_app cfg" ev hs req] deaf_relays [OF s, of L "nc_app cfg" ev hs req]
    by (auto simp: http_task_def rate_limit_middleware_def case_prod_beta deaf_def route_consensus split: if_splits)
      (simp add: deaf_output_def)
qed

interpretation deaf_node: node_invariant L E W N cfg "deaf q" deaf_output for L E W N cfg q
  by unfold_locales (rule deaf_step)

text \<open>
  C11. A started node is deaf. Whatever its peers, its explorer and its clients do, and even when it
  runs with the key of a validator, it accepts no attestation, not even its own, and its pool is
  what it was at the start; the fraud watch has nothing to look at; no quorum is reached for any
  root, no transfer is ever minted and no relay record is ever verified: register_validator is
  called by tests only.
\<close>

theorem started_node_is_deaf:
  assumes start: "node_start L W H c disk = Inr (cfg, n0)"
    and run: "node_run L E W N cfg is n0 = Ret (outs, n)"
  shows "app_consensus (nd_app n) = cm_new (cli_quorum c)
    \<and> Accepted True \<notin> set outs \<and> FraudActions (x # xs) \<notin> set outs
    \<and> HttpReply (Inr (MintedReply t)) reqs \<notin> set outs
    \<and> HttpReply (Inr (RelayReply (r\<lparr>rr_status := RelayVerified\<rparr>))) reqs \<notin> set outs
    \<and> HttpReply (Inr (StateRootAt ch h bh root as True)) reqs \<notin> set outs"
proof -
  have "deaf (cli_quorum c) n0" using node_start_parts [OF start] by (simp add: deaf_def unverified_def)
  from deaf_node.run_ok [OF this run] have d: "deaf (cli_quorum c) n" "\<forall>out \<in> set outs. deaf_output out" by auto
  have "out \<notin> set outs" if "\<not> deaf_output out" for out using that d(2) by blast
  then show ?thesis using d(1) by (simp add: deaf_def deaf_output_def)
qed

section \<open>A concrete node\<close>

definition demo_host :: host where
  "demo_host = \<lparr>host_to_uppercase = (\<lambda>s. s), host_env = (\<lambda>_. None),
     host_post = (\<lambda>_ _ _. None), host_read_file = (\<lambda>_. None),
     host_vault_json = (\<lambda>_. None), host_signer = (\<lambda>_. None)\<rparr>"

definition demo_cli :: cli where
  "demo_cli = \<lparr>cli_chain = ''btc'', cli_electrs_url = Some ''https://e'', cli_validator_key = None, cli_quorum = 1,
     cli_start_height = None, cli_min_execution_fee = 0, cli_fee_collector = None, cli_rate_limit_rps = 1,
     cli_channel_size = 1, cli_bridge_api_key = None, cli_bonding_enabled = False, cli_jkc_rpc_url = None,
     cli_trusted_proxy_ips = [], cli_fraud_watch_vault_config = None, cli_fraud_watch_bond_txid = None,
     cli_fraud_watch_bond_vout = None, cli_fraud_watch_bond_amount = None, cli_fraud_watch_miner_fee = 1000\<rparr>"

lemma demo_start:
  obtains cfg n0 where "node_start demo_libs demo_web demo_host demo_cli (empty_store demo_libs) = Inr (cfg, n0)"
  by (simp add: node_start_def check_bonding_def load_fraud_watch_config_def with_timeout_def validate_url_scheme_def
      demo_cli_def demo_web_def Let_def)

lemma node_keeps_ok_witness:
  "\<exists>cfg n0 outs n. node_start demo_libs demo_web demo_host demo_cli (empty_store demo_libs) = Inr (cfg, n0)
     \<and> node_run demo_libs demo_engine demo_web demo_network cfg
         [SyncTick (demo_explorer ''h2'') 0, HttpRequest demo_surroundings 0 None [] HealthCheck] n0 = Ret (outs, n)
     \<and> disk_ok demo_libs ''btc'' (app_store (nd_app n))"
proof -
  let ?run = "\<lambda>cfg. node_run demo_libs demo_engine demo_web demo_network cfg
      [SyncTick (demo_explorer ''h2'') 0, HttpRequest demo_surroundings 0 None [] HealthCheck]"
  obtain cfg n0 where start: "node_start demo_libs demo_web demo_host demo_cli (empty_store demo_libs) = Inr (cfg, n0)"
    by (rule demo_start)
  obtain st where "sync_tick demo_libs demo_engine (nc_processor cfg) (nc_sync cfg) (demo_explorer ''h2'') 0
      (app_store (nd_app n0), app_consensus (nd_app n0)) = Ret st" by (rule demo_tick_runs)
  then obtain outs n where run: "?run cfg n0 = Ret (outs, n)"
    by (cases st) (simp add: sync_task_def case_prod_beta)
  have "cli_chain demo_cli = ''btc''" by (simp add: demo_cli_def)
  then have "disk_ok demo_libs ''btc'' (app_store (nd_app n))"
    using node_keeps_ok [OF disk_ok_empty start run] by simp
  with start run show ?thesis by blast
qed

text \<open>A valid attestation arrives by gossip, and is refused.\<close>

lemma started_node_is_deaf_witness:
  "\<exists>cfg n0 outs n. node_start demo_libs demo_web demo_host demo_cli (empty_store demo_libs) = Inr (cfg, n0)
     \<and> node_run demo_libs demo_engine demo_web (demo_network\<lparr>attestation_from_slice := (\<lambda>_. Some (demo_attestation demo_pk ''r''))\<rparr>) cfg
         [P2pInput (Event (GossipMessage TOPIC_ATTESTATION [])), AttestationTask 0] n0 = Ret (outs, n)
     \<and> nd_attestations n = [] \<and> verify_attestation demo_libs (demo_attestation demo_pk ''r'') \<and> Accepted True \<notin> set outs"
proof -
  let ?N = "demo_network\<lparr>attestation_from_slice := (\<lambda>_. Some (demo_attestation demo_pk ''r''))\<rparr>"
  let ?in = "[P2pInput (Event (GossipMessage TOPIC_ATTESTATION [])), AttestationTask 0]"
  obtain cfg n0 where start: "node_start demo_libs demo_web demo_host demo_cli (empty_store demo_libs) = Inr (cfg, n0)"
    by (rule demo_start)
  obtain outs n where run: "node_run demo_libs demo_engine demo_web ?N cfg ?in n0 = Ret (outs, n)" "nd_attestations n = []"
    using node_start_parts [OF start]
    by (simp add: p2p_task_def attestation_task_def on_message_def handed_attestations_def case_prod_beta Let_def)
  have "verify_attestation demo_libs (demo_attestation demo_pk ''r'')"
    by (rule demo_attestation_verifies) (simp add: demo_pk_def)
  moreover have "Accepted True \<notin> set outs" using started_node_is_deaf [OF start run(1)] by simp
  ultimately show ?thesis using start run by blast
qed

section \<open>The start of a bonded node\<close>

text \<open>
  With bonding enabled the node starts only after the chain's answer shows the needed softforks; the
  answer that JSON-RPC gives is an envelope, which read_softfork_status does not open.
\<close>

lemma bonded_start_needs_softforks:
  assumes "cli_bonding_enabled c" "node_start L W H c disk = Inr r"
  shows "\<exists>url st. cli_jkc_rpc_url c = Some url \<and> query_softfork_status H url = Some st
    \<and> assert_chain_supports_bonding st = Inr ()"
  using assms by (auto simp: node_start_def check_bonding_def Let_def split: option.splits sum.splits)

lemma bonded_node_never_starts:
  assumes "cli_bonding_enabled c" "cli_jkc_rpc_url c = Some url"
    and "\<And>auth. host_post H url auth softfork_request
        = Some (200, Some (JObject [(''error'', JNull), (''id'', JString ''utxo-vm-startup''), (''result'', info)]))"
  shows "node_start L W H c disk = Inl (ChainUnsupported CsvInactive)"
  using assms by (simp add: node_start_def check_bonding_def query_softfork_status_def rpc_envelope_refused Let_def)

text \<open>A node that starts talks to its explorer over https, or over http on its own machine.\<close>

lemma started_explorer_url:
  assumes "node_start L W H c disk = Inr r"
  shows "\<exists>scheme host. url_parse W (electrs_url H c) = Some (scheme, host)
    \<and> (scheme = ''https'' \<or> scheme = ''http'' \<and> is_loopback (or_default [] host))"
  using assms
  by (auto simp: node_start_def with_timeout_def validate_url_scheme_def Let_def split: option.splits sum.splits if_splits)

section \<open>Submitting a challenge\<close>

definition broadcast_challenge_tx :: "web \<Rightarrow> string \<Rightarrow> string \<Rightarrow> electrs_error + string" where
  "broadcast_challenge_tx W base raw_hex = broadcast_tx W base raw_hex"

definition submit_challenge :: "libs \<Rightarrow> web \<Rightarrow> string \<Rightarrow> equivocation_proof \<Rightarrow> challenge_input \<Rightarrow> vault_config \<Rightarrow> u64
    \<Rightarrow> (challenge_error + electrs_error) + string" where
  "submit_challenge L W base p input vault_config miner_fee =
     (case build_challenge_transaction L p input vault_config miner_fee of
        Inl e \<Rightarrow> Inl (Inl e)
      | Inr tx \<Rightarrow>
          (case broadcast_challenge_tx W base (cx_raw_hex tx) of Inl e \<Rightarrow> Inl (Inr e) | Inr txid \<Rightarrow> Inr txid))"

text \<open>
  A proof that does not verify is never posted: the answer does not depend on the explorer. What is
  posted is the transaction that was built, and a success has a transaction id.
\<close>

lemma unproved_challenge_not_posted:
  assumes "\<not> verify_equivocation_proof L p"
  shows "submit_challenge L W base p input vc fee = submit_challenge L W' base p input vc fee"
  using assms by (simp add: submit_challenge_def build_challenge_transaction_def)

lemma submitted_challenge:
  assumes "submit_challenge L W base p input vc fee = Inr txid"
  shows "txid \<noteq> [] \<and> (\<exists>tx rsp. build_challenge_transaction L p input vc fee = Inr tx
    \<and> http_post W (base @ ''/tx'') (cx_raw_hex tx) = Some rsp)"
proof -
  obtain tx where tx: "build_challenge_transaction L p input vc fee = Inr tx" "broadcast_tx W base (cx_raw_hex tx) = Inr txid"
    using assms by (auto simp: submit_challenge_def broadcast_challenge_tx_def split: sum.splits)
  from tx(2) have "txid \<noteq> [] \<and> (\<exists>rsp. http_post W (base @ ''/tx'') (cx_raw_hex tx) = Some rsp)"
    by (auto simp: broadcast_tx_def read_text_def split: option.splits if_splits)
  with tx(1) show ?thesis by blast
qed

end
