(* ===== verification/Wallet.thy ===== *)
theory Wallet
  imports L1_Scripts
begin

text \<open>
  The wallet examples packages/node/examples/gen_wallet.rs and verify_addr.rs: base58 by repeated
  in-place division of a big-endian byte vector, and the P2PKH address of a public key with its
  checksum. The key pair, and the public key of a secret key, are secp256k1's and are arguments. The
  two examples hold the same base58_encode.
\<close>

section \<open>base58_encode\<close>

definition ALPHABET :: string where
  "ALPHABET = ''123456789ABCDEFGHJKLMNPQRSTUVWXYZabcdefghijkmnopqrstuvwxyz''"

text \<open>The inner loop: divide the number by 58, carrying the remainder from byte to byte.\<close>

fun div58 :: "u32 \<Rightarrow> bytes \<Rightarrow> bytes \<times> u32" where
  "div58 remainder [] = ([], remainder)"
| "div58 remainder (byte # rest) =
     (let acc = push_bit 8 remainder OR ucast byte;
          (rest', r) = div58 (acc mod 58) rest
      in (ucast (acc div 58) # rest', r))"

definition be_value :: "bytes \<Rightarrow> nat" where
  "be_value bs = foldl (\<lambda>v b. 256 * v + unat b) 0 bs"

lemma be_value_snoc [simp]: "be_value [] = 0" "be_value (bs @ [b]) = 256 * be_value bs + unat b"
  by (simp_all add: be_value_def)

lemma be_value_Cons: "be_value (b # bs) = unat b * 256 ^ length bs + be_value bs"
  by (induction bs rule: rev_induct) (simp_all add: be_value_def algebra_simps)

lemma length_div58 [simp]: "length (fst (div58 r bs)) = length bs"
  by (induction bs arbitrary: r) (simp_all add: case_prod_beta Let_def)

lemma acc_value:
  assumes "unat (r :: u32) < 58"
  shows "unat (push_bit 8 r OR ucast (b :: byte)) = 256 * unat r + unat b"
proof -
  have b: "unat b < 2 ^ 8" using unsigned_less [of b, where ?'a = nat] by simp
  have "unat (push_bit 8 r) = push_bit 8 (unat r)"
    using assms by (simp add: unsigned_push_bit_eq take_bit_nat_eq_self push_bit_eq_mult [of 8 "unat r"])
  moreover have "unat (ucast b :: u32) = unat b" using b by (simp add: unsigned_ucast_eq take_bit_nat_eq_self)
  ultimately have "unat (push_bit 8 r OR ucast b) = push_bit 8 (unat r) OR unat b" by (simp add: unsigned_or_eq)
  also have "\<dots> = push_bit 8 (unat r) + unat b"
  proof (rule disjunctive_add [symmetric])
    fix n show "\<not> bit (push_bit 8 (unat r)) n \<or> \<not> bit (unat b) n"
      using b take_bit_nat_eq_self_iff [of 8 "unat b"] by (metis bit_push_bit_iff_nat bit_take_bit_iff not_less)
  qed
  finally show ?thesis by (simp add: push_bit_eq_mult mult.commute)
qed

lemma div58_value:
  assumes "unat r < 58"
  shows "be_value (fst (div58 r bs)) = (unat r * 256 ^ length bs + be_value bs) div 58
    \<and> unat (snd (div58 r bs)) = (unat r * 256 ^ length bs + be_value bs) mod 58"
  using assms
proof (induction bs arbitrary: r)
  case (Cons b bs)
  define acc where "acc = push_bit 8 r OR ucast b"
  have acc: "unat acc = 256 * unat r + unat b" unfolding acc_def by (rule acc_value [OF Cons.prems])
  have b: "unat b < 256" using unsigned_less [of b, where ?'a = nat] by simp
  have small: "unat acc div 58 < 256" using acc b Cons.prems by linarith
  then have q: "unat (ucast (acc div 58) :: byte) = unat acc div 58"
    by (simp add: unsigned_ucast_eq unat_div take_bit_nat_eq_self)
  have r: "unat (acc mod 58) = unat acc mod 58" by (simp add: unat_mod)
  let ?n = "unat (acc mod 58) * 256 ^ length bs + be_value bs"
  have ih: "be_value (fst (div58 (acc mod 58) bs)) = ?n div 58 \<and> unat (snd (div58 (acc mod 58) bs)) = ?n mod 58"
    by (rule Cons.IH) (simp add: r)
  have "unat r * 256 ^ length (b # bs) + be_value (b # bs) = unat acc * 256 ^ length bs + be_value bs"
    by (simp add: be_value_Cons acc algebra_simps)
  also have "\<dots> = (58 * (unat acc div 58) + unat acc mod 58) * 256 ^ length bs + be_value bs" by simp
  also have "\<dots> = ?n + 58 * (unat acc div 58 * 256 ^ length bs)" unfolding r by (simp only: algebra_simps)
  finally have total: "unat r * 256 ^ length (b # bs) + be_value (b # bs) = ?n + 58 * (unat acc div 58 * 256 ^ length bs)" .
  have "be_value (fst (div58 r (b # bs))) = unat acc div 58 * 256 ^ length bs + ?n div 58"
    "unat (snd (div58 r (b # bs))) = ?n mod 58"
    using ih q by (simp_all add: acc_def [symmetric] Let_def case_prod_beta be_value_Cons)
  then show ?case unfolding total by simp
qed (simp add: be_value_def)

lemma nonzero_value: "list_ex (\<lambda>b. b \<noteq> 0) bs \<longleftrightarrow> be_value bs \<noteq> 0"
  by (induction bs rule: rev_induct) (auto simp: be_value_def unat_eq_0)

text \<open>The outer loop pushes one character per division until every byte is zero.\<close>

function base58_digits :: "bytes \<Rightarrow> string rust" where
  "base58_digits num =
     (if num \<noteq> [] \<and> list_ex (\<lambda>b. b \<noteq> 0) num then
        let (num', remainder) = div58 0 num in
        if unat remainder < length ALPHABET
        then rbind (base58_digits num') (\<lambda>result. Ret (ALPHABET ! unat remainder # result))
        else Panic
      else Ret [])"
  by pat_completeness auto
termination
proof (relation "measure be_value")
  fix num x num' remainder
  assume "num \<noteq> [] \<and> list_ex (\<lambda>b. b \<noteq> 0) num" "x = div58 0 num" "(num', remainder) = x"
  then show "(num', num) \<in> measure be_value"
    using div58_value [of 0 num] nonzero_value [of num] by (simp add: prod_eq_iff)
qed simp

declare base58_digits.simps [simp del]

definition base58_encode :: "bytes \<Rightarrow> string rust" where
  "base58_encode data =
     (let zeros = length (takeWhile (\<lambda>b. b = 0) data) in
      rbind (base58_digits data) (\<lambda>result. Ret (rev (result @ replicate zeros (ALPHABET ! 0)))))"

section \<open>A reference decoder\<close>

definition char58 :: "char \<Rightarrow> nat" where
  "char58 c = length (takeWhile (\<lambda>x. x \<noteq> c) ALPHABET)"

definition base58_value :: "string \<Rightarrow> nat" where
  "base58_value s = foldl (\<lambda>v c. 58 * v + char58 c) 0 s"

text \<open>The big-endian bytes of a number, without leading zeros.\<close>

fun be_bytes :: "nat \<Rightarrow> bytes" where
  "be_bytes n = (if n = 0 then [] else be_bytes (n div 256) @ [word_of_nat (n mod 256)])"

declare be_bytes.simps [simp del]

definition base58_decode :: "string \<Rightarrow> bytes" where
  "base58_decode s = replicate (length (takeWhile (\<lambda>c. c = CHR ''1'') s)) 0 @ be_bytes (base58_value s)"

lemma ALPHABET_facts: "length ALPHABET = 58" "\<forall>i \<in> set [0..<58]. char58 (ALPHABET ! i) = i" "ALPHABET ! 0 = CHR ''1''"
  by code_simp+

lemma char58_nth: "i < 58 \<Longrightarrow> char58 (ALPHABET ! i) = i"
  using ALPHABET_facts(2) by simp

lemma base58_value_snoc [simp]: "base58_value [] = 0" "base58_value (s @ [c]) = 58 * base58_value s + char58 c"
  by (simp_all add: base58_value_def)

lemma base58_value_ones: "base58_value (replicate n (CHR ''1'') @ s) = base58_value s"
proof -
  have "char58 (CHR ''1'') = 0" using char58_nth [of 0] ALPHABET_facts(3) by simp
  then have "base58_value (replicate n (CHR ''1'')) = 0"
    by (induction n) (simp_all add: base58_value_def)
  then show ?thesis by (simp add: base58_value_def)
qed

lemma be_bytes_value: "d = [] \<or> hd d \<noteq> 0 \<Longrightarrow> be_bytes (be_value d) = d"
proof (induction d rule: rev_induct)
  case (snoc b d)
  have b: "unat b < 256" using unsigned_less [of b, where ?'a = nat] by simp
  have "be_value (d @ [b]) \<noteq> 0"
    using snoc.prems nonzero_value [of "d @ [b]"] by (cases d) auto
  moreover have "be_bytes (be_value d) = d" using snoc by (cases d) auto
  ultimately show ?case using b by (subst be_bytes.simps) simp
qed (simp add: be_bytes.simps)

lemma base58_digits_spec:
  "\<exists>ds. base58_digits num = Ret ds \<and> base58_value (rev ds) = be_value num \<and> (ds \<noteq> [] \<longrightarrow> last ds \<noteq> CHR ''1'')
    \<and> set ds \<subseteq> set ALPHABET"
proof (induction num rule: base58_digits.induct)
  case (1 num)
  show ?case
  proof (cases "num \<noteq> [] \<and> list_ex (\<lambda>b. b \<noteq> 0) num")
    case False
    then have "be_value num = 0" using nonzero_value [of num] by auto
    moreover have "base58_digits num = Ret []" using False by (subst base58_digits.simps) auto
    ultimately show ?thesis by simp
  next
    case True
    obtain num' r where d: "div58 0 num = (num', r)" by fastforce
    have v: "be_value num' = be_value num div 58" "unat r = be_value num mod 58"
      using div58_value [of 0 num] d by simp_all
    then have r: "unat r < 58" by simp
    obtain ds where ds: "base58_digits num' = Ret ds" "base58_value (rev ds) = be_value num'"
      "ds \<noteq> [] \<longrightarrow> last ds \<noteq> CHR ''1''" "set ds \<subseteq> set ALPHABET"
      using 1 [OF True d [symmetric]] r by (auto simp: ALPHABET_facts(1))
    have "last (ALPHABET ! unat r # ds) \<noteq> CHR ''1''"
    proof (cases "ds = []")
      case True
      then have "unat r \<noteq> 0" using ds(2) v nonzero_value [of num] \<open>num \<noteq> [] \<and> _\<close> by auto
      then have "ALPHABET ! unat r \<noteq> ALPHABET ! 0" using char58_nth [OF r] char58_nth [of 0] by auto
      then show ?thesis using True ALPHABET_facts(3) by simp
    qed (use ds in simp)
    moreover have "base58_digits num = Ret (ALPHABET ! unat r # ds)"
      using True d ds(1) r by (subst base58_digits.simps) (simp add: ALPHABET_facts(1))
    moreover have "ALPHABET ! unat r \<in> set ALPHABET" using r by (simp add: ALPHABET_facts(1))
    ultimately show ?thesis using ds(2,4) v char58_nth [OF r] by simp
  qed
qed

lemma base58_inverse:
  "\<exists>s. base58_encode data = Ret s \<and> base58_decode s = data \<and> set s \<subseteq> set ALPHABET"
proof -
  define z where "z = length (takeWhile (\<lambda>b. b = 0) data)"
  define d where "d = dropWhile (\<lambda>b. b = 0) data"
  have tw: "takeWhile (\<lambda>b. b = 0) data = replicate z 0"
    unfolding z_def by (rule replicate_eqI) (auto dest: set_takeWhileD)
  have data: "data = replicate z 0 @ d" unfolding d_def by (metis takeWhile_dropWhile_id tw)
  have hd: "d = [] \<or> hd d \<noteq> 0" unfolding d_def by (induction data) auto
  have "be_value (replicate z 0 @ d) = be_value d"
    by (induction z) (simp_all add: be_value_Cons)
  then have v: "be_value data = be_value d" using data by simp
  obtain ds where ds: "base58_digits data = Ret ds" "base58_value (rev ds) = be_value data"
    "ds \<noteq> [] \<longrightarrow> last ds \<noteq> CHR ''1''" "set ds \<subseteq> set ALPHABET"
    using base58_digits_spec by blast
  let ?s = "replicate z (CHR ''1'') @ rev ds"
  have "base58_encode data = Ret ?s" using ds(1) by (simp add: base58_encode_def z_def ALPHABET_facts(3))
  moreover have "takeWhile (\<lambda>c. c = CHR ''1'') ?s = replicate z (CHR ''1'')"
  proof -
    have "takeWhile (\<lambda>c. c = CHR ''1'') (replicate z (CHR ''1'') @ t) = replicate z (CHR ''1'') @ takeWhile (\<lambda>c. c = CHR ''1'') t" for t
      by (induction z) simp_all
    then show ?thesis using ds(3) by (cases ds rule: rev_cases) simp_all
  qed
  then have "base58_decode ?s = data"
    using data hd v ds(2) by (simp add: base58_decode_def base58_value_ones be_bytes_value)
  moreover have "CHR ''1'' \<in> set ALPHABET" by (simp add: ALPHABET_def)
  ultimately show ?thesis using ds(4) by (intro exI [of _ ?s]) auto
qed

text \<open>
  C33. base58_encode answers for every byte string, panics never, uses its alphabet only, and the
  reference decoder gives the bytes back, leading zeros included; so different bytes have different
  encodings.
\<close>

theorem base58_roundtrip:
  "\<exists>s. base58_encode data = Ret s \<and> base58_decode s = data \<and> set s \<subseteq> set ALPHABET"
  by (rule base58_inverse)

section \<open>Addresses\<close>

definition p2pkh_address :: "libs \<Rightarrow> bytes \<Rightarrow> string rust" where
  "p2pkh_address L pk_comp =
     (let versioned = 0x6f # hash160 L pk_comp;
          checksum = sha256 L (sha256 L versioned)
      in rbind (byte_slice checksum 0 4) (\<lambda>c. base58_encode (versioned @ c)))"

text \<open>What gen_wallet prints for a fresh key pair.\<close>

definition gen_wallet :: "libs \<Rightarrow> bytes \<Rightarrow> bytes \<Rightarrow> string list rust" where
  "gen_wallet L sk pk_comp =
     rbind (p2pkh_address L pk_comp) (\<lambda>address. Ret
       [''=== New JKC Testnet Wallet ==='',
        ''Private Key (hex): '' @ hex_encode L sk,
        ''Public Key (hex):  '' @ hex_encode L pk_comp,
        ''Address (tJKC):    '' @ address,
        [],
        ''Fund this address with tJKC to run live write tests.'',
        ''Set env: export JKC_TEST_PRIV='' @ hex_encode L sk])"

text \<open>What verify_addr prints; pubkey_of parses a secret key and derives the compressed public key.\<close>

definition verify_addr :: "libs \<Rightarrow> (bytes \<Rightarrow> bytes option) \<Rightarrow> string list rust" where
  "verify_addr L pubkey_of =
     (case Option.bind (hex_decode L ''e3b0c44298fc1c149afbf4c8996fb92427ae41e4649b934ca495991b7852b855'') pubkey_of of
        None \<Rightarrow> Panic
      | Some pk_comp \<Rightarrow>
          rbind (p2pkh_address L pk_comp) (\<lambda>address. Ret
            [''Address: '' @ address, ''Expected: muZpTpBYhxmRFuCjLc7C6BBDF32C8XVJUi'']))"

text \<open>An address is always built, and determines the hash of the key and the checksum.\<close>

lemma address_decodes:
  assumes "sha256_len L"
  shows "\<exists>addr. p2pkh_address L pk = Ret addr
    \<and> base58_decode addr = 0x6f # hash160 L pk @ take 4 (sha256 L (sha256 L (0x6f # hash160 L pk)))"
proof -
  let ?v = "0x6f # hash160 L pk"
  let ?c = "take 4 (sha256 L (sha256 L ?v))"
  have slice: "byte_slice (sha256 L (sha256 L ?v)) 0 4 = Ret ?c" using assms by (simp add: byte_slice_def sha256_len_def)
  obtain s where "base58_encode (?v @ ?c) = Ret s" "base58_decode s = ?v @ ?c" using base58_inverse by blast
  then show ?thesis by (simp add: p2pkh_address_def slice Let_def)
qed

lemma same_address_same_hash:
  assumes "sha256_len L" "\<And>x. length (ripemd160 L x) = 20" "p2pkh_address L pk = p2pkh_address L pk'"
  shows "hash160 L pk = hash160 L pk'"
proof -
  obtain a b where "p2pkh_address L pk = Ret a" "p2pkh_address L pk' = Ret b"
    "take 20 (tl (base58_decode a)) = hash160 L pk" "take 20 (tl (base58_decode b)) = hash160 L pk'"
    using address_decodes [OF assms(1), of pk] address_decodes [OF assms(1), of pk'] assms(2) by (auto simp: hash160_def)
  then show ?thesis using assms(3) by simp
qed

end
